(* ===== verification/Prelude.thy ===== *)
theory Prelude
  imports Main "HOL-Library.Word" "HOL-Library.List_Lexorder" "HOL-Library.Multiset"
begin

section \<open>Shared types, results and machine integers\<close>

text \<open>
  The vocabulary every component theory uses: fixed-width integers with Rust's checked and
  saturating arithmetic, the crate's error type and its \<open>Result\<close>, and the small fact
  collections the component proofs add to the simplifier.
\<close>

unbundle bit_operations_syntax

type_synonym u8 = "8 word"
type_synonym u16 = "16 word"
type_synonym u32 = "32 word"
type_synonym u64 = "64 word"
type_synonym u128 = "128 word"
type_synonym bytes = "u8 list"

named_theorems result_simps \<open>unfolding of the result monad\<close>
named_theorems key_simps \<open>distinctness and injectivity of storage keys\<close>

subsection \<open>Results (error.rs)\<close>

datatype error =
    Config string
  | Rocks string
  | Codec string
  | IdentityMismatch u128 u64 u128 u64
  | Corrupt string string
  | Raft string
  | Search string
  | Io string

type_synonym 'a result = "error + 'a"

abbreviation Ok :: "'a \<Rightarrow> 'e + 'a" where "Ok \<equiv> Inr"
abbreviation Err :: "'e \<Rightarrow> 'e + 'a" where "Err \<equiv> Inl"

definition ok_or :: "'a option \<Rightarrow> 'e \<Rightarrow> 'e + 'a" where
  "ok_or x e = (case x of None \<Rightarrow> Err e | Some v \<Rightarrow> Ok v)"

text \<open>Rust's \<open>?\<close> operator: continue with the value, or return the error at once.\<close>

fun rbind :: "'e + 'a \<Rightarrow> ('a \<Rightarrow> 'e + 'b) \<Rightarrow> 'e + 'b" where
  "rbind (Inl e) f = Inl e"
| "rbind (Inr x) f = f x"

text \<open>Collecting an iterator of results: the first error wins.\<close>

fun rmapM :: "('a \<Rightarrow> 'e + 'b) \<Rightarrow> 'a list \<Rightarrow> 'e + 'b list" where
  "rmapM f [] = Inr []"
| "rmapM f (x # xs) = rbind (f x) (\<lambda>y. rbind (rmapM f xs) (\<lambda>ys. Inr (y # ys)))"

text \<open>A \<open>for\<close> loop whose body may return the function's error.\<close>

fun rfor :: "'a list \<Rightarrow> ('a \<Rightarrow> 'e + unit) \<Rightarrow> 'e + unit" where
  "rfor [] body = Inr ()"
| "rfor (x # xs) body = rbind (body x) (\<lambda>_. rfor xs body)"

text \<open>
  Operations that write return the state they leave and their result; after an error the
  function returns, with the writes made so far.
\<close>

fun sbind :: "'s \<times> ('e + 'a) \<Rightarrow> ('s \<Rightarrow> 'a \<Rightarrow> 's \<times> ('e + 'b)) \<Rightarrow> 's \<times> ('e + 'b)" where
  "sbind (s, Inl e) f = (s, Inl e)"
| "sbind (s, Inr x) f = f s x"

lemma rbind_Inr_iff [simp]: "rbind m f = Inr y \<longleftrightarrow> (\<exists>x. m = Inr x \<and> f x = Inr y)"
  by (cases m) auto

lemma rbind_Inl_iff: "rbind m f = Inl e \<longleftrightarrow> m = Inl e \<or> (\<exists>x. m = Inr x \<and> f x = Inl e)"
  by (cases m) auto

lemma rbind_cong [fundef_cong]:
  "m = m' \<Longrightarrow> (\<And>x. m' = Inr x \<Longrightarrow> f x = g x) \<Longrightarrow> rbind m f = rbind m' g"
  by (cases m') auto

lemma sbind_Inr_iff [simp]:
  "sbind m f = (t, Inr y) \<longleftrightarrow> (\<exists>s x. m = (s, Inr x) \<and> f s x = (t, Inr y))"
  by (cases m; cases "snd m") auto

lemma rmapM_Inr_iff: "rmapM f xs = Inr ys \<longleftrightarrow> list_all2 (\<lambda>x y. f x = Inr y) xs ys"
  by (induction xs arbitrary: ys) (auto simp: list_all2_Cons1)

lemma rmapM_Inr: "(\<And>x. x \<in> set xs \<Longrightarrow> f x = Inr (g x)) \<Longrightarrow> rmapM f xs = Inr (map g xs)"
  by (induction xs) auto

lemma rmapM_cong [fundef_cong]:
  "xs = ys \<Longrightarrow> (\<And>x. x \<in> set ys \<Longrightarrow> f x = g x) \<Longrightarrow> rmapM f xs = rmapM g ys"
  by (induction ys arbitrary: xs) auto

lemma rfor_Inr_iff [simp]: "rfor xs body = Inr u \<longleftrightarrow> (\<forall>x \<in> set xs. body x = Inr ())"
  by (induction xs) auto

lemma rfor_InlD: "rfor xs body = Inl e \<Longrightarrow> \<exists>x \<in> set xs. body x = Inl e"
  by (induction xs) (auto simp: rbind_Inl_iff)

subsection \<open>Checked and saturating arithmetic on unsigned integers\<close>

definition checked_add1 :: "'a::len word \<Rightarrow> 'a word option" where
  "checked_add1 w = (if w = - 1 then None else Some (w + 1))"

definition saturating_add :: "'a::len word \<Rightarrow> 'a word \<Rightarrow> 'a word" where
  "saturating_add a b = (if unat a + unat b < 2 ^ LENGTH('a) then a + b else - 1)"

definition saturating_sub :: "'a::len word \<Rightarrow> 'a word \<Rightarrow> 'a word" where
  "saturating_sub a b = (if a < b then 0 else a - b)"

lemma unat_inc: "w \<noteq> - 1 \<Longrightarrow> unat (w + 1) = Suc (unat w)"
  for w :: "'a::len word"
  by (metis add.commute add_eq_0_iff unatSuc)

lemma checked_add1_Some:
  "checked_add1 w = Some v \<longleftrightarrow> w \<noteq> - 1 \<and> v = w + 1"
  by (auto simp: checked_add1_def)

lemma checked_add1_unat: "checked_add1 w = Some v \<Longrightarrow> unat v = Suc (unat w)"
  by (auto simp: checked_add1_Some unat_inc)

lemma checked_add1_less: "checked_add1 w = Some v \<Longrightarrow> w < v"
  by (simp add: checked_add1_unat word_less_nat_alt)

lemma unat_saturating_add:
  "unat (saturating_add a b) = min (unat a + unat b) (2 ^ LENGTH('a) - 1)"
  for a b :: "'a::len word"
proof (cases "unat a + unat b < 2 ^ LENGTH('a)")
  case True
  then show ?thesis by (simp add: saturating_add_def unat_word_ariths)
next
  case False
  have "unat (- 1 :: 'a word) = 2 ^ LENGTH('a) - 1"
    by (simp add: unsigned_minus_1_eq_mask mask_eq_exp_minus_1)
  with False show ?thesis by (simp add: saturating_add_def)
qed

lemma unat_saturating_sub: "unat (saturating_sub a b) = unat a - unat b"
  for a b :: "'a::len word"
  by (auto simp: saturating_sub_def word_less_nat_alt unat_sub word_le_nat_alt)

lemma saturating_add_commute: "saturating_add x y = saturating_add y x"
  by (simp add: saturating_add_def add.commute)

lemma saturating_add_assoc:
  "saturating_add (saturating_add x y) z = saturating_add x (saturating_add y z)"
  for x y z :: "'a::len word"
proof -
  have "min (min (a + c) m + d) m = min (a + min (c + d) m) m" for a c d m :: nat by auto
  then show ?thesis by (simp only: word_unat_eq_iff unat_saturating_add)
qed

subsection \<open>Folds that do not depend on the order\<close>

lemma fold_invariant: "P s \<Longrightarrow> (\<And>x s. x \<in> set xs \<Longrightarrow> P s \<Longrightarrow> P (f x s)) \<Longrightarrow> P (fold f xs s)"
  by (induction xs arbitrary: s) auto

lemma fold_move_front:
  assumes "\<And>x s. P s \<Longrightarrow> P (f x s)" "\<And>x y s. P s \<Longrightarrow> f x (f y s) = f y (f x s)" "P s"
  shows "fold f (us @ x # vs) s = fold f (x # us @ vs) s"
  using assms(3) by (induction us arbitrary: s) (simp_all add: assms(1,2))

lemma fold_permute:
  assumes inv: "\<And>x s. P s \<Longrightarrow> P (f x s)"
    and comm: "\<And>x y s. P s \<Longrightarrow> f x (f y s) = f y (f x s)"
    and "P s" "mset xs = mset ys"
  shows "fold f xs s = fold f ys s"
  using assms(3,4)
proof (induction xs arbitrary: ys s)
  case (Cons x xs)
  then have "x \<in> set ys" by (metis list.set_intros(1) mset_eq_setD)
  then obtain us vs where ys: "ys = us @ x # vs" by (meson split_list)
  then have "mset xs = mset (us @ vs)" using Cons.prems(2) by simp
  from Cons.IH [OF inv [OF Cons.prems(1)] this] show ?case
    using fold_move_front [where P = P and f = f and us = us and x = x and vs = vs, OF inv comm Cons.prems(1)]
    by (simp add: ys)
qed simp

end
