(* ===== verification/Bytes.thy ===== *)
theory Bytes
  imports Prelude
begin

section \<open>Byte strings, text and decimal numbers\<close>

text \<open>
  The parts of Rust's standard library that storage keys and frames are built from:
  \<open>to_be_bytes\<close>, \<open>to_le_bytes\<close> and their inverses on unsigned integers, \<open>as_bytes\<close> on
  strings, decimal formatting of a \<open>u16\<close> and \<open>str::parse\<close> for it. Each encoder is
  proved injective and each decoder a left inverse.
\<close>

definition to_le_bytes :: "nat \<Rightarrow> 'a::len word \<Rightarrow> bytes" where
  "to_le_bytes n w = map (\<lambda>i. ucast (drop_bit (8 * i) w)) [0..<n]"

definition to_be_bytes :: "nat \<Rightarrow> 'a::len word \<Rightarrow> bytes" where
  "to_be_bytes n w = rev (to_le_bytes n w)"

fun from_le_bytes :: "bytes \<Rightarrow> 'a::len word" where
  "from_le_bytes [] = 0"
| "from_le_bytes (b # bs) = ucast b OR push_bit 8 (from_le_bytes bs)"

definition from_be_bytes :: "bytes \<Rightarrow> 'a::len word" where
  "from_be_bytes bs = from_le_bytes (rev bs)"

definition byte_of_char :: "char \<Rightarrow> u8" where
  "byte_of_char c = word_of_nat (of_char c)"

definition as_bytes :: "string \<Rightarrow> bytes" where
  "as_bytes s = map byte_of_char s"

definition char_of_byte :: "u8 \<Rightarrow> char" where
  "char_of_byte b = char_of (unat b)"

text \<open>
  Strings are the bytes of their UTF-8 form, one \<open>char\<close> per byte;
  \<open>String::from_utf8\<close> accepts exactly the well-formed byte sequences.
\<close>

definition utf8_cont :: "u8 \<Rightarrow> bool" where
  "utf8_cont b \<longleftrightarrow> 0x80 \<le> b \<and> b \<le> 0xBF"

fun utf8_valid :: "bytes \<Rightarrow> bool" where
  "utf8_valid [] = True"
| "utf8_valid (a # bs) =
    (if a < 0x80 then utf8_valid bs
     else case bs of [] \<Rightarrow> False
     | b # cs \<Rightarrow>
         if 0xC2 \<le> a \<and> a \<le> 0xDF then utf8_cont b \<and> utf8_valid cs
         else case cs of [] \<Rightarrow> False
         | c # ds \<Rightarrow>
             if 0xE0 \<le> a \<and> a \<le> 0xEF then
               utf8_cont b \<and> utf8_cont c \<and> (a = 0xE0 \<longrightarrow> 0xA0 \<le> b) \<and> (a = 0xED \<longrightarrow> b \<le> 0x9F)
               \<and> utf8_valid ds
             else case ds of [] \<Rightarrow> False
             | d # es \<Rightarrow>
                 0xF0 \<le> a \<and> a \<le> 0xF4 \<and> utf8_cont b \<and> utf8_cont c \<and> utf8_cont d
                 \<and> (a = 0xF0 \<longrightarrow> 0x90 \<le> b) \<and> (a = 0xF4 \<longrightarrow> b \<le> 0x8F) \<and> utf8_valid es)"

definition from_utf8 :: "bytes \<Rightarrow> string option" where
  "from_utf8 bs = (if utf8_valid bs then Some (map char_of_byte bs) else None)"

fun decimal :: "nat \<Rightarrow> string" where
  "decimal n = (if n < 10 then [char_of (48 + n)] else decimal (n div 10) @ [char_of (48 + n mod 10)])"

declare decimal.simps [simp del]

fun hex_digits :: "nat \<Rightarrow> string" where
  "hex_digits n = (if n < 16 then [''0123456789abcdef'' ! n]
     else hex_digits (n div 16) @ [''0123456789abcdef'' ! (n mod 16)])"

declare hex_digits.simps [simp del]

text \<open>
  \<open>Debug\<close> of a string quotes it and escapes quotes, backslashes and ASCII control characters
  (other characters are printable here), and \<open>Debug\<close> of a sequence separates its items by commas.
\<close>

definition debug_char :: "char \<Rightarrow> string" where
  "debug_char c =
     (if of_char c = (0 :: nat) then [CHR 0x5C, CHR ''0'']
      else if of_char c = (9 :: nat) then [CHR 0x5C, CHR ''t'']
      else if of_char c = (13 :: nat) then [CHR 0x5C, CHR ''r'']
      else if of_char c = (10 :: nat) then [CHR 0x5C, CHR ''n'']
      else if c = CHR 0x22 \<or> c = CHR 0x5C then [CHR 0x5C, c]
      else if (of_char c :: nat) < 32 \<or> of_char c = (127 :: nat)
      then [CHR 0x5C] @ ''u{'' @ hex_digits (of_char c) @ ''}''
      else [c])"

definition debug_str :: "string \<Rightarrow> string" where
  "debug_str s = [CHR 0x22] @ concat (map debug_char s) @ [CHR 0x22]"

fun comma_separated :: "string list \<Rightarrow> string" where
  "comma_separated [] = []"
| "comma_separated [x] = x"
| "comma_separated (x # y # xs) = x @ '', '' @ comma_separated (y # xs)"

definition digit_of :: "char \<Rightarrow> nat option" where
  "digit_of c = (let n = of_char c in if 48 \<le> n \<and> n \<le> 57 then Some (n - 48) else None)"

text \<open>The digit loop of \<open>u16::from_str\<close>: a non-digit or an overflow of the width fails.\<close>

fun parse_digits :: "nat \<Rightarrow> nat \<Rightarrow> string \<Rightarrow> nat option" where
  "parse_digits bound acc [] = Some acc"
| "parse_digits bound acc (c # cs) =
     (case digit_of c of
        None \<Rightarrow> None
      | Some d \<Rightarrow> if 10 * acc + d < bound then parse_digits bound (10 * acc + d) cs else None)"

text \<open>\<open>str::parse::<u16>\<close>: one optional leading plus sign, then at least one digit.\<close>

definition parse_u16 :: "string \<Rightarrow> u16 option" where
  "parse_u16 s =
     (let ds = (case s of c # cs \<Rightarrow> if c = CHR ''+'' then cs else s | [] \<Rightarrow> s)
      in if ds = [] then None else map_option word_of_nat (parse_digits 65536 0 ds))"

definition strip_prefix :: "'a list \<Rightarrow> 'a list \<Rightarrow> 'a list option" where
  "strip_prefix p xs = (if take (length p) xs = p then Some (drop (length p) xs) else None)"

definition starts_with :: "'a list \<Rightarrow> 'a list \<Rightarrow> bool" where
  "starts_with xs p \<longleftrightarrow> take (length p) xs = p"

subsection \<open>Fixed-width integers as bytes\<close>

lemma length_to_le_bytes [simp]: "length (to_le_bytes n w) = n"
  by (simp add: to_le_bytes_def)

lemma length_to_be_bytes [simp]: "length (to_be_bytes n w) = n"
  by (simp add: to_be_bytes_def)

lemma to_le_bytes_Suc:
  "to_le_bytes (Suc n) w = ucast w # to_le_bytes n (drop_bit 8 w)"
  unfolding to_le_bytes_def
  by (simp add: upt_conv_Cons map_Suc_upt [symmetric] add.commute del: upt_Suc map_Suc_upt)

lemma from_le_to_le: "from_le_bytes (to_le_bytes n w) = take_bit (8 * n) w"
  for w :: "'a::len word"
proof (induction n arbitrary: w)
  case 0
  then show ?case by (simp add: to_le_bytes_def)
next
  case (Suc n)
  have "from_le_bytes (to_le_bytes (Suc n) w)
      = ucast (ucast w :: u8) OR push_bit 8 (take_bit (8 * n) (drop_bit 8 w))"
    by (simp add: to_le_bytes_Suc Suc.IH)
  also have "\<dots> = take_bit (8 * Suc n) w"
    by (rule bit_word_eqI)
      (auto simp: bit_or_iff bit_push_bit_iff bit_take_bit_iff bit_drop_bit_eq bit_ucast_iff
         bit_imp_le_length)
  finally show ?case .
qed

lemma from_le_to_le_full [simp]:
  "LENGTH('a) \<le> 8 * n \<Longrightarrow> from_le_bytes (to_le_bytes n w) = (w :: 'a::len word)"
  by (simp add: from_le_to_le take_bit_word_eq_self)

lemma from_be_to_be_full [simp]:
  "LENGTH('a) \<le> 8 * n \<Longrightarrow> from_be_bytes (to_be_bytes n w) = (w :: 'a::len word)"
  by (simp add: from_be_bytes_def to_be_bytes_def)

lemma to_be_bytes_inj:
  "LENGTH('a) \<le> 8 * n \<Longrightarrow> to_be_bytes n v = to_be_bytes n w \<longleftrightarrow> v = (w :: 'a::len word)"
  by (metis from_be_to_be_full)

lemma to_be_bytes_inj_widths [simp]:
  "to_be_bytes 2 (a :: u16) = to_be_bytes 2 a' \<longleftrightarrow> a = a'"
  "to_be_bytes 4 (b :: u32) = to_be_bytes 4 b' \<longleftrightarrow> b = b'"
  "to_be_bytes 8 (c :: u64) = to_be_bytes 8 c' \<longleftrightarrow> c = c'"
  "to_be_bytes 16 (d :: u128) = to_be_bytes 16 d' \<longleftrightarrow> d = d'"
  by (simp_all add: to_be_bytes_inj)

subsection \<open>Text\<close>

lemma byte_of_char_inj [simp]: "byte_of_char c = byte_of_char d \<longleftrightarrow> c = d"
proof
  assume "byte_of_char c = byte_of_char d"
  then have "unat (byte_of_char c) = unat (byte_of_char d)" by simp
  then show "c = d"
    by (simp add: byte_of_char_def unat_of_nat)
qed simp

lemma as_bytes_inj [simp]: "as_bytes s = as_bytes t \<longleftrightarrow> s = t"
  unfolding as_bytes_def by (rule inj_map_eq_map) (simp add: inj_def)

lemma length_as_bytes [simp]: "length (as_bytes s) = length s"
  by (simp add: as_bytes_def)

lemma as_bytes_append [simp]: "as_bytes (s @ t) = as_bytes s @ as_bytes t"
  by (simp add: as_bytes_def)

lemma starts_with_append [simp]: "starts_with (p @ xs) p"
  by (simp add: starts_with_def)

lemma starts_with_iff: "starts_with xs p \<longleftrightarrow> (\<exists>ys. xs = p @ ys)"
  by (metis append_eq_conv_conj starts_with_def)

lemma strip_prefix_append [simp]: "strip_prefix p (p @ xs) = Some xs"
  by (simp add: strip_prefix_def)

lemma strip_prefix_Some: "strip_prefix p xs = Some ys \<longleftrightarrow> xs = p @ ys"
  by (auto simp: strip_prefix_def) (metis append_take_drop_id)

subsection \<open>Decimal numbers\<close>

lemma digit_of_char: "d < 10 \<Longrightarrow> digit_of (char_of (48 + d)) = Some d"
  by (simp add: digit_of_def Let_def)

lemma decimal_not_Nil [simp]: "decimal n \<noteq> []"
  by (subst decimal.simps) simp

lemma parse_digits_append:
  "parse_digits b acc (xs @ ys) = Option.bind (parse_digits b acc xs) (\<lambda>a. parse_digits b a ys)"
  by (induction xs arbitrary: acc) (auto split: option.splits)

lemma parse_digits_decimal: "n < b \<Longrightarrow> parse_digits b 0 (decimal n) = Some n"
proof (induction n rule: decimal.induct)
  case (1 n)
  show ?case
  proof (cases "n < 10")
    case True
    with "1.prems" show ?thesis
      by (subst decimal.simps) (simp add: digit_of_char)
  next
    case False
    with "1" have "parse_digits b 0 (decimal (n div 10)) = Some (n div 10)" by simp
    with False "1.prems" show ?thesis
      by (subst decimal.simps) (simp add: parse_digits_append digit_of_char)
  qed
qed

lemma decimal_hd_digit: "\<exists>d cs. d < (10 :: nat) \<and> decimal n = char_of (48 + d) # cs"
proof (induction n rule: decimal.induct)
  case (1 n)
  show ?case
  proof (cases "n < 10")
    case True
    then show ?thesis by (subst decimal.simps) auto
  next
    case False
    with "1" obtain d :: nat and cs where "d < 10" "decimal (n div 10) = char_of (48 + d) # cs" by auto
    with False show ?thesis by (subst decimal.simps) auto
  qed
qed

lemma digit_not_plus: "d < (10 :: nat) \<Longrightarrow> char_of (48 + d) \<noteq> CHR ''+''"
proof
  assume d: "d < (10 :: nat)" and eq: "char_of (48 + d) = CHR ''+''"
  from eq have "digit_of (char_of (48 + d)) = digit_of CHR ''+''" by (rule arg_cong)
  with d show False by (simp add: digit_of_char) (simp add: digit_of_def)
qed

lemma parse_u16_decimal: "parse_u16 (decimal (unat p)) = Some p"
proof -
  obtain d :: nat and cs where d: "d < 10" "decimal (unat p) = char_of (48 + d) # cs"
    using decimal_hd_digit by blast
  have "unat p < 65536" using unsigned_less [of p, where ?'a = nat] by simp
  then have digits: "parse_digits 65536 0 (decimal (unat p)) = Some (unat p)"
    by (rule parse_digits_decimal)
  have "(case decimal (unat p) of c # cs \<Rightarrow> if c = CHR ''+'' then cs else decimal (unat p)
      | [] \<Rightarrow> decimal (unat p)) = decimal (unat p)"
    using d digit_not_plus [of d] by (simp only: list.case if_False)
  then show ?thesis
    unfolding parse_u16_def Let_def by (simp add: digits)
qed

lemma decimal_inj [simp]: "decimal m = decimal n \<longleftrightarrow> m = n"
proof
  assume eq: "decimal m = decimal n"
  have "parse_digits (Suc (max m n)) 0 (decimal m) = Some m"
    by (rule parse_digits_decimal) simp
  moreover have "parse_digits (Suc (max m n)) 0 (decimal n) = Some n"
    by (rule parse_digits_decimal) simp
  ultimately show "m = n" unfolding eq by (rule option.inject [THEN iffD1, OF trans [OF sym]])
qed (rule arg_cong)

lemma char_of_byte_of_char [simp]: "char_of_byte (byte_of_char c) = c"
proof -
  have "of_char c < (256 :: nat)" by simp
  then have "unat (of_nat (of_char c) :: u8) = of_char c"
    by (simp add: unat_of_nat take_bit_eq_mod)
  then show ?thesis by (simp add: char_of_byte_def byte_of_char_def)
qed

lemma from_utf8_as_bytes: "utf8_valid (as_bytes s) \<Longrightarrow> from_utf8 (as_bytes s) = Some s"
  by (simp add: from_utf8_def as_bytes_def o_def)

lemma decimal_digits: "c \<in> set (decimal n) \<Longrightarrow> \<exists>d < (10 :: nat). c = char_of (48 + d)"
proof (induction n rule: decimal.induct)
  case (1 n)
  show ?case
  proof (cases "n < 10")
    case True
    with "1.prems" decimal.simps [of n] show ?thesis by auto
  next
    case False
    have "n mod 10 < 10" by simp
    moreover have "c \<in> set (decimal (n div 10)) \<or> c = char_of (48 + n mod 10)"
      using False "1.prems" decimal.simps [of n] by auto
    ultimately show ?thesis using False "1.IH" by blast
  qed
qed

subsection \<open>Big-endian bytes sort as the numbers do\<close>

definition be_value :: "bytes \<Rightarrow> nat" where
  "be_value bs = foldl (\<lambda>acc x. 256 * acc + unat x) 0 bs"

lemma to_be_bytes_Suc: "to_be_bytes (Suc n) w = to_be_bytes n (drop_bit 8 w) @ [ucast w]"
  by (simp add: to_be_bytes_def to_le_bytes_Suc)

lemma be_value_to_be_bytes: "be_value (to_be_bytes n w) = unat w mod 256 ^ n"
proof (induction n arbitrary: w)
  case 0
  then show ?case by (simp add: be_value_def to_be_bytes_def to_le_bytes_def)
next
  case (Suc n)
  have "be_value (to_be_bytes (Suc n) w) = 256 * (unat (drop_bit 8 w) mod 256 ^ n) + unat (ucast w :: u8)"
    using Suc.IH [of "drop_bit 8 w"] by (simp add: to_be_bytes_Suc be_value_def)
  also have "unat (drop_bit 8 w) = unat w div 256"
    by (simp only: unat_drop_bit_eq) (simp add: drop_bit_eq_div)
  also have "unat (ucast w :: u8) = unat w mod 256"
    by (simp add: unsigned_ucast_eq take_bit_eq_mod)
  finally show ?case by (simp add: mod_mult2_eq)
qed

lemma be_value_Cons: "be_value (x # xs) = unat x * 256 ^ length xs + be_value xs"
proof -
  have "foldl (\<lambda>acc x. 256 * acc + unat x) a xs = a * 256 ^ length xs + be_value xs" for a
    unfolding be_value_def
  proof (induction xs arbitrary: a)
    case (Cons y ys)
    show ?case
      using Cons.IH [of "256 * a + unat y"] Cons.IH [of "unat y"] by (simp add: algebra_simps)
  qed simp
  from this [of "unat x"] show ?thesis by (simp add: be_value_def)
qed

lemma be_value_bound: "be_value bs < 256 ^ length bs"
proof (induction bs)
  case (Cons x xs)
  have "unat x < 256" using unsigned_less [of x, where ?'a = nat] by simp
  then have "Suc (unat x) * 256 ^ length xs \<le> 256 * 256 ^ length xs"
    by (intro mult_le_mono1) simp
  then have "unat x * 256 ^ length xs + be_value xs < 256 * 256 ^ length xs"
    using Cons.IH unfolding mult_Suc by linarith
  then show ?case by (simp only: be_value_Cons list.size power_Suc add_0_right add_Suc_right)
qed (simp add: be_value_def)

lemma bytes_less_iff: "length xs = length ys \<Longrightarrow> xs < ys \<longleftrightarrow> be_value xs < be_value ys"
proof (induction xs ys rule: list_induct2)
  case (Cons x xs y ys)
  have lt: "unat u * 256 ^ length ys + be_value us < unat v * 256 ^ length ys + be_value vs"
    if "u < v" "length us = length ys" for u v :: u8 and us vs
  proof -
    have "be_value us < 256 ^ length ys" using be_value_bound [of us] that by simp
    moreover have "Suc (unat u) * 256 ^ length ys \<le> unat v * 256 ^ length ys"
      using that by (intro mult_le_mono1) (simp add: word_less_nat_alt Suc_leI)
    ultimately show ?thesis by simp
  qed
  show ?case
    using lt [of x y xs ys] lt [of y x ys xs] Cons.hyps Cons.IH
    by (cases x y rule: linorder_cases) (auto simp: be_value_Cons)
qed simp

lemma append_less_iff:
  "length xs = length ys \<Longrightarrow> xs @ r < ys @ s \<longleftrightarrow> xs < ys \<or> xs = ys \<and> r < (s :: bytes)"
  by (induction xs ys rule: list_induct2) auto

lemma prefix_less_iff [simp]: "p @ r < p @ s \<longleftrightarrow> r < (s :: bytes)"
  by (induction p) auto

lemma to_be_bytes_less: "LENGTH('a) \<le> 8 * n \<Longrightarrow> to_be_bytes n v < to_be_bytes n w \<longleftrightarrow> v < (w :: 'a::len word)"
proof -
  assume n: "LENGTH('a) \<le> 8 * n"
  have "unat u mod 256 ^ n = unat u" for u :: "'a word"
  proof -
    have "unat u < 2 ^ LENGTH('a)" by (rule unsigned_less)
    also have "(2 :: nat) ^ LENGTH('a) \<le> 2 ^ (8 * n)" using n by (rule power_increasing) simp
    also have "\<dots> = 256 ^ n" by (simp add: power_mult)
    finally show ?thesis by simp
  qed
  then show ?thesis by (simp add: bytes_less_iff be_value_to_be_bytes word_less_nat_alt)
qed

lemma bit_from_le_bytes:
  "bit (from_le_bytes bs :: 'a::len word) i \<longleftrightarrow>
     i < LENGTH('a) \<and> i div 8 < length bs \<and> bit (bs ! (i div 8)) (i mod 8)"
proof (induction bs arbitrary: i)
  case (Cons x xs)
  show ?case
  proof (cases "i < 8")
    case True
    then show ?thesis by (auto simp: bit_or_iff bit_push_bit_iff bit_ucast_iff bit_imp_le_length)
  next
    case False
    then obtain j where j: "i = j + 8" by (metis add.commute le_Suc_ex not_less)
    have "\<not> bit x (j + 8)" by (auto dest: bit_imp_le_length)
    moreover have "(j + 8) div 8 = Suc (j div 8)" by simp
    ultimately show ?thesis
      unfolding j by (auto simp: bit_or_iff bit_push_bit_iff bit_ucast_iff Cons.IH bit_imp_le_length)
  qed
qed simp

lemma to_le_from_le:
  assumes "8 * length bs \<le> LENGTH('a)"
  shows "to_le_bytes (length bs) (from_le_bytes bs :: 'a::len word) = bs"
proof (rule nth_equalityI)
  fix j assume "j < length (to_le_bytes (length bs) (from_le_bytes bs :: 'a word))"
  then have j: "j < length bs" by simp
  have "bit (ucast (drop_bit (8 * j) (from_le_bytes bs :: 'a word)) :: u8) i \<longleftrightarrow> bit (bs ! j) i" if "i < 8" for i
    using that j assms
    by (auto simp: bit_ucast_iff bit_drop_bit_eq bit_from_le_bytes)
  then show "to_le_bytes (length bs) (from_le_bytes bs :: 'a word) ! j = bs ! j"
    using j by (simp add: to_le_bytes_def) (rule bit_word_eqI, simp)
qed simp

lemma to_be_from_be:
  "8 * length bs \<le> LENGTH('a) \<Longrightarrow> n = length bs \<Longrightarrow> to_be_bytes n (from_be_bytes bs :: 'a::len word) = bs"
  using to_le_from_le [of "rev bs", where ?'a = 'a]
  by (simp add: to_be_bytes_def from_be_bytes_def rev_swap)

end
