(* ===== verification/Sorted_Vec.thy ===== *)
theory Sorted_Vec
  imports Prelude
begin

section \<open>Sorted vectors with binary search\<close>

text \<open>
  Rust's \<open>slice::binary_search_by_key\<close> and \<open>Vec::insert\<close>, the way the maintenance record
  keeps its participant vectors sorted and unique. The search is the halving loop over an
  index range; on a strictly sorted slice it returns the position of the element, or the
  only position at which inserting it keeps the slice sorted. The locale \<open>sorted_vec\<close>
  states what a vector kept in this way promises to its clients, for any key function; it is
  interpreted for plain vectors and for vectors of pairs searched by their first component.
\<close>

text \<open>\<open>Ok i\<close> is \<open>Inr i\<close>: found at \<open>i\<close>. \<open>Err i\<close> is \<open>Inl i\<close>: insert at \<open>i\<close>.\<close>

function bsearch :: "('a \<Rightarrow> 'k::linorder) \<Rightarrow> 'a list \<Rightarrow> 'k \<Rightarrow> nat \<Rightarrow> nat \<Rightarrow> nat + nat" where
  "bsearch key xs x lo hi =
     (if lo < hi then
        let mid = (lo + hi) div 2; k = key (xs ! mid)
        in if k = x then Inr mid
           else if k < x then bsearch key xs x (Suc mid) hi
           else bsearch key xs x lo mid
      else Inl lo)"
  by pat_completeness auto
termination
  by (relation "measure (\<lambda>(key, xs, x, lo, hi). hi - lo)") auto

declare bsearch.simps [simp del]

definition binary_search_by_key :: "('a \<Rightarrow> 'k::linorder) \<Rightarrow> 'a list \<Rightarrow> 'k \<Rightarrow> nat + nat" where
  "binary_search_by_key key xs x = bsearch key xs x 0 (length xs)"

definition binary_search :: "'a::linorder list \<Rightarrow> 'a \<Rightarrow> nat + nat" where
  "binary_search xs x = binary_search_by_key (\<lambda>y. y) xs x"

definition vec_insert :: "'a list \<Rightarrow> nat \<Rightarrow> 'a \<Rightarrow> 'a list" where
  "vec_insert xs i x = take i xs @ x # drop i xs"

definition strictly_sorted :: "('a \<Rightarrow> 'k::linorder) \<Rightarrow> 'a list \<Rightarrow> bool" where
  "strictly_sorted key xs \<longleftrightarrow> sorted_wrt (\<lambda>a b. key a < key b) xs"

definition is_err :: "'a + 'b \<Rightarrow> bool" where
  "is_err r = (case r of Inl _ \<Rightarrow> True | Inr _ \<Rightarrow> False)"

text \<open>
  The update the record uses for a vector of keyed entries: overwrite the entry at the found
  position, or insert the new one at the reported position.
\<close>

definition upsert_by_key :: "('a \<Rightarrow> 'k::linorder) \<Rightarrow> 'a list \<Rightarrow> 'a \<Rightarrow> 'a list" where
  "upsert_by_key key xs y =
     (case binary_search_by_key key xs (key y) of
        Inr i \<Rightarrow> xs[i := y]
      | Inl i \<Rightarrow> vec_insert xs i y)"

subsection \<open>The search loop\<close>

lemma bsearch_correct:
  assumes "sorted_wrt (\<lambda>a b. key a < key b) xs" "lo \<le> hi" "hi \<le> length xs"
    and "\<forall>i < lo. key (xs ! i) < x" "\<forall>i < length xs. hi \<le> i \<longrightarrow> x < key (xs ! i)"
  shows "case bsearch key xs x lo hi of
      Inr i \<Rightarrow> i < length xs \<and> key (xs ! i) = x
    | Inl i \<Rightarrow> i \<le> length xs \<and> (\<forall>j < i. key (xs ! j) < x) \<and> (\<forall>j < length xs. i \<le> j \<longrightarrow> x < key (xs ! j))"
  using assms
proof (induction key xs x lo hi rule: bsearch.induct)
  case (1 key xs x lo hi)
  show ?case
  proof (cases "lo < hi")
    case False
    with "1.prems" show ?thesis by (subst bsearch.simps) simp
  next
    case True
    define mid where "mid = (lo + hi) div 2"
    have mid: "lo \<le> mid" "mid < hi" "mid < length xs"
      using True "1.prems" by (auto simp: mid_def)
    have mono: "key (xs ! i) < key (xs ! j)" if "i < j" "j < length xs" for i j
      using "1.prems"(1) that by (simp add: sorted_wrt_iff_nth_less)
    consider (eq) "key (xs ! mid) = x" | (lt) "key (xs ! mid) < x" | (gt) "x < key (xs ! mid)"
      by (rule linorder_cases)
    then show ?thesis
    proof cases
      case eq
      with True mid show ?thesis by (subst bsearch.simps) (simp add: Let_def mid_def)
    next
      case lt
      have "\<forall>i < Suc mid. key (xs ! i) < x"
        using lt mono [OF _ mid(3)] by (metis less_Suc_eq order.strict_trans)
      then have "case bsearch key xs x (Suc mid) hi of
          Inr i \<Rightarrow> i < length xs \<and> key (xs ! i) = x
        | Inl i \<Rightarrow> i \<le> length xs \<and> (\<forall>j < i. key (xs ! j) < x)
            \<and> (\<forall>j < length xs. i \<le> j \<longrightarrow> x < key (xs ! j))"
        using "1.IH"(1) [OF True mid_def refl less_imp_neq [OF lt] lt] mid "1.prems" by simp
      with less_imp_neq [OF lt] lt True show ?thesis
        by (subst bsearch.simps) (simp add: Let_def mid_def)
    next
      case gt
      have "\<forall>i < length xs. mid \<le> i \<longrightarrow> x < key (xs ! i)"
        using gt mono by (metis le_neq_implies_less order.strict_trans)
      then have "case bsearch key xs x lo mid of
          Inr i \<Rightarrow> i < length xs \<and> key (xs ! i) = x
        | Inl i \<Rightarrow> i \<le> length xs \<and> (\<forall>j < i. key (xs ! j) < x)
            \<and> (\<forall>j < length xs. i \<le> j \<longrightarrow> x < key (xs ! j))"
        using "1.IH"(2) [OF True mid_def refl less_imp_neq [OF gt, symmetric] less_not_sym [OF gt]]
          mid "1.prems" by simp
      with less_imp_neq [OF gt, symmetric] less_not_sym [OF gt] True show ?thesis
        by (subst bsearch.simps) (simp add: Let_def mid_def)
    qed
  qed
qed

lemma binary_search_by_key_Inr:
  assumes "strictly_sorted key xs" "binary_search_by_key key xs x = Inr i"
  shows "i < length xs" "key (xs ! i) = x"
  using bsearch_correct [of key xs 0 "length xs" x] assms
  by (simp_all add: strictly_sorted_def binary_search_by_key_def)

lemma binary_search_by_key_Inl:
  assumes "strictly_sorted key xs" "binary_search_by_key key xs x = Inl i"
  shows "i \<le> length xs" "\<forall>j < i. key (xs ! j) < x" "\<forall>j < length xs. i \<le> j \<longrightarrow> x < key (xs ! j)"
  using bsearch_correct [of key xs 0 "length xs" x] assms
  by (simp_all add: strictly_sorted_def binary_search_by_key_def)

lemma binary_search_found_iff:
  assumes "strictly_sorted key xs"
  shows "\<not> is_err (binary_search_by_key key xs x) \<longleftrightarrow> x \<in> key ` set xs"
proof (cases "binary_search_by_key key xs x")
  case (Inl i)
  have "key y \<noteq> x" if "y \<in> set xs" for y
  proof -
    from that obtain j where "j < length xs" "y = xs ! j" by (auto simp: in_set_conv_nth)
    with binary_search_by_key_Inl [OF assms Inl] show ?thesis by (cases "j < i") force+
  qed
  with Inl show ?thesis by (auto simp: is_err_def)
next
  case (Inr i)
  with binary_search_by_key_Inr [OF assms Inr] show ?thesis by (force simp: is_err_def)
qed

subsection \<open>Insertion keeps the order\<close>

lemma strictly_sorted_insert:
  assumes "strictly_sorted key xs" "i \<le> length xs"
    and "\<forall>j < i. key (xs ! j) < key y" "\<forall>j < length xs. i \<le> j \<longrightarrow> key y < key (xs ! j)"
  shows "strictly_sorted key (vec_insert xs i y)"
proof -
  have "sorted_wrt (\<lambda>a b. key a < key b) (take i xs @ drop i xs)"
    using assms(1) by (simp add: strictly_sorted_def)
  then have parts: "sorted_wrt (\<lambda>a b. key a < key b) (take i xs)"
    "sorted_wrt (\<lambda>a b. key a < key b) (drop i xs)"
    "\<forall>a \<in> set (take i xs). \<forall>b \<in> set (drop i xs). key a < key b"
    unfolding sorted_wrt_append by blast+
  have "key a < key y" if "a \<in> set (take i xs)" for a
    using that assms(2,3) by (auto simp: in_set_conv_nth)
  moreover have "key y < key b" if "b \<in> set (drop i xs)" for b
    using that assms(2,4) by (auto simp: in_set_conv_nth)
  ultimately show ?thesis
    using parts by (simp add: strictly_sorted_def vec_insert_def sorted_wrt_append)
qed

lemma set_vec_insert: "set (vec_insert xs i y) = insert y (set xs)"
proof -
  have "set (take i xs) \<union> set (drop i xs) = set xs"
    by (metis append_take_drop_id set_append)
  then show ?thesis by (auto simp: vec_insert_def)
qed

lemma strictly_sorted_update:
  assumes "strictly_sorted key xs" "i < length xs" "key y = key (xs ! i)"
  shows "strictly_sorted key (xs[i := y])"
  using assms by (auto simp: strictly_sorted_def sorted_wrt_iff_nth_less nth_list_update)

lemma strictly_sorted_inj:
  "strictly_sorted key xs \<Longrightarrow> a \<in> set xs \<Longrightarrow> b \<in> set xs \<Longrightarrow> key a = key b \<Longrightarrow> a = b"
  unfolding strictly_sorted_def in_set_conv_nth sorted_wrt_iff_nth_less
  by (metis less_irrefl linorder_neqE_nat)

lemma strictly_sorted_distinct: "strictly_sorted key xs \<Longrightarrow> distinct (map key xs)"
  by (induction xs) (auto simp: strictly_sorted_def)

lemma strictly_sorted_map: "strictly_sorted key xs \<longleftrightarrow> sorted (map key xs) \<and> distinct (map key xs)"
  by (induction xs) (auto simp: strictly_sorted_def less_le)

lemma strictly_sorted_keys_eq:
  assumes "strictly_sorted key xs" "strictly_sorted (\<lambda>k. k) ks"
  shows "map key xs = ks \<longleftrightarrow> key ` set xs = set ks"
  using assms sorted_distinct_set_unique [of "map key xs" ks]
  by (auto simp: strictly_sorted_map)

lemma set_upsert_by_key:
  assumes "strictly_sorted key xs"
  shows "set (upsert_by_key key xs y) = insert y {z \<in> set xs. key z \<noteq> key y}"
proof (cases "binary_search_by_key key xs (key y)")
  case (Inl i)
  then have "key y \<notin> key ` set xs"
    using binary_search_found_iff [OF assms, of "key y"] by (simp add: is_err_def)
  then have "key z \<noteq> key y" if "z \<in> set xs" for z
    using imageI [OF that, of key] by force
  then have "{z \<in> set xs. key z \<noteq> key y} = set xs" by blast
  with Inl show ?thesis by (simp add: upsert_by_key_def set_vec_insert)
next
  case (Inr i)
  note found = binary_search_by_key_Inr [OF assms Inr]
  have "distinct xs"
    using strictly_sorted_distinct [OF assms] by (simp add: distinct_map)
  then have "set (xs[i := y]) = insert y (set xs - {xs ! i})"
    using found(1) by (rule set_update_distinct)
  moreover have "key z \<noteq> key y \<longleftrightarrow> z \<noteq> xs ! i" if "z \<in> set xs" for z
  proof
    assume "z \<noteq> xs ! i"
    then show "key z \<noteq> key y"
      using strictly_sorted_inj [OF assms that nth_mem [OF found(1)]] unfolding found(2) by iprover
  qed (use found(2) in iprover)
  then have "{z \<in> set xs. key z \<noteq> key y} = set xs - {xs ! i}" by blast
  ultimately show ?thesis using Inr by (simp add: upsert_by_key_def)
qed

lemma strictly_sorted_upsert:
  assumes "strictly_sorted key xs"
  shows "strictly_sorted key (upsert_by_key key xs y)"
  using strictly_sorted_insert [OF assms] strictly_sorted_update [OF assms]
    binary_search_by_key_Inl [OF assms] binary_search_by_key_Inr [OF assms]
  by (auto simp: upsert_by_key_def split: sum.split)

subsection \<open>Sorted association vectors\<close>

lemma sorted_map_of_Some: "strictly_sorted fst xs \<Longrightarrow> map_of xs k = Some v \<longleftrightarrow> (k, v) \<in> set xs"
  by (simp add: strictly_sorted_distinct)

lemma map_of_upsert:
  assumes "strictly_sorted fst xs"
  shows "map_of (upsert_by_key fst xs (k, v)) k' = (if k' = k then Some v else map_of xs k')"
proof -
  have "map_of (upsert_by_key fst xs (k, v)) k' = Some w \<longleftrightarrow>
      (if k' = k then Some v else map_of xs k') = Some w" for w
    unfolding sorted_map_of_Some [OF strictly_sorted_upsert [OF assms]]
    by (auto simp: set_upsert_by_key [OF assms] sorted_map_of_Some [OF assms])
  then show ?thesis by (metis option.collapse option.distinct(1))
qed

lemma sorted_map_of_ext:
  assumes "strictly_sorted fst xs" "strictly_sorted fst ys" "\<And>k. map_of xs k = map_of ys k"
  shows "xs = ys"
proof -
  have eq: "set xs = set ys"
  proof (rule set_eqI)
    fix kv show "kv \<in> set xs \<longleftrightarrow> kv \<in> set ys"
      using sorted_map_of_Some [OF assms(1)] sorted_map_of_Some [OF assms(2)] assms(3)
      by (cases kv) metis
  qed
  then have "inj_on fst (set xs \<union> set ys)"
    using strictly_sorted_distinct [OF assms(1)] by (simp add: distinct_map)
  then show ?thesis
    using assms(1,2) eq map_sorted_distinct_set_unique [of fst xs ys]
    by (simp add: strictly_sorted_map)
qed

subsection \<open>The contract of a sorted vector\<close>

locale sorted_vec =
  fixes key :: "'a \<Rightarrow> 'k::linorder"
    and contains_key :: "'a list \<Rightarrow> 'k \<Rightarrow> bool"
    and upsert :: "'a list \<Rightarrow> 'a \<Rightarrow> 'a list"
  assumes contains_iff: "strictly_sorted key xs \<Longrightarrow> contains_key xs k \<longleftrightarrow> k \<in> key ` set xs"
    and sorted_upsert: "strictly_sorted key xs \<Longrightarrow> strictly_sorted key (upsert xs y)"
    and set_upsert: "strictly_sorted key xs \<Longrightarrow> set (upsert xs y) = insert y {z \<in> set xs. key z \<noteq> key y}"
begin

lemma keys_upsert: "strictly_sorted key xs \<Longrightarrow> key ` set (upsert xs y) = insert (key y) (key ` set xs)"
  by (auto simp: set_upsert)

lemma contains_upsert:
  "strictly_sorted key xs \<Longrightarrow> contains_key (upsert xs y) k \<longleftrightarrow> k = key y \<or> contains_key xs k"
  by (auto simp: contains_iff sorted_upsert keys_upsert)

lemma member_upsert: "strictly_sorted key xs \<Longrightarrow> z \<in> set (upsert xs y) \<longleftrightarrow> z = y \<or> z \<in> set xs \<and> key z \<noteq> key y"
  by (auto simp: set_upsert)

lemma complete_iff:
  "strictly_sorted key xs \<Longrightarrow> strictly_sorted (\<lambda>k. k) ks \<Longrightarrow>
     map key xs = ks \<longleftrightarrow> key ` set xs = set ks"
  by (rule strictly_sorted_keys_eq)

lemma upsert_within:
  "strictly_sorted key xs \<Longrightarrow> key ` set xs \<subseteq> A \<Longrightarrow> key y \<in> A \<Longrightarrow> key ` set (upsert xs y) \<subseteq> A"
  by (simp add: keys_upsert)

end

interpretation id_vec: sorted_vec "\<lambda>x. x" "\<lambda>xs k. \<not> is_err (binary_search xs k)" "upsert_by_key (\<lambda>x. x)"
  by unfold_locales
    (simp_all add: binary_search_def binary_search_found_iff strictly_sorted_upsert set_upsert_by_key)

interpretation pair_vec: sorted_vec fst "\<lambda>xs k. \<not> is_err (binary_search_by_key fst xs k)" "upsert_by_key fst"
  by unfold_locales
    (simp_all add: binary_search_found_iff strictly_sorted_upsert set_upsert_by_key)

end
