(* ===== verification/Types.thy ===== *)
theory Types
  imports Bytes Sorted_Vec
begin

section \<open>Wire and state types (types.rs)\<close>

text \<open>
  The data of \<open>src/src/types.rs\<close>: identifiers, group names and their tokens, client
  operations and their results, the cluster record, placements and move plans, directory
  entries, the maintenance record, and the node-local control records.  The lemmas show that
  group tokens round-trip, that key hashing stays inside the partition range, and that the
  byte string hashed by the maintenance topology digest determines the topology.
\<close>

subsection \<open>Protocol bounds and identifiers\<close>

definition PROTOCOL_VERSION :: u32 where "PROTOCOL_VERSION = 7"
definition MAX_ROUTING_PAYLOAD_BYTES :: nat where "MAX_ROUTING_PAYLOAD_BYTES = 4 * 1024 * 1024"
definition MAX_CLUSTER_NODES :: nat where "MAX_CLUSTER_NODES = 8"
definition MAX_ENDPOINT_BYTES :: nat where "MAX_ENDPOINT_BYTES = 256"
definition MAX_VALUE_BYTES :: nat where "MAX_VALUE_BYTES = 1024 * 1024"

type_synonym node_id = u64
type_synonym cluster_id = u128
type_synonym client_id = u128
type_synonym sequence = u64
type_synonym version = u64
type_synonym digest32 = bytes

text \<open>The one-way process fence: a shared flag that starts open.\<close>

datatype process_identity_gate = ProcessIdentityGate (gate_flag: bool)

definition gate_default :: process_identity_gate where "gate_default = ProcessIdentityGate True"
definition is_open :: "process_identity_gate \<Rightarrow> bool" where "is_open g = gate_flag g"
definition fence :: "process_identity_gate \<Rightarrow> process_identity_gate" where
  "fence g = ProcessIdentityGate False"

datatype consistency = Linearizable | Stale "version option"

subsection \<open>Raft groups\<close>

datatype group_id = Meta | Data u16

instantiation group_id :: linorder
begin

fun less_eq_group_id :: "group_id \<Rightarrow> group_id \<Rightarrow> bool" where
  "less_eq_group_id Meta _ = True"
| "less_eq_group_id (Data _) Meta = False"
| "less_eq_group_id (Data p) (Data q) = (p \<le> q)"

definition less_group_id :: "group_id \<Rightarrow> group_id \<Rightarrow> bool" where
  "less_group_id a b \<longleftrightarrow> a \<le> b \<and> \<not> b \<le> a"

instance
proof
  fix x y z :: group_id
  show "x < y \<longleftrightarrow> x \<le> y \<and> \<not> y \<le> x" by (rule less_group_id_def)
  show "x \<le> x" by (cases x) simp_all
  show "x \<le> y \<Longrightarrow> y \<le> z \<Longrightarrow> x \<le> z" by (cases x; cases y; cases z) simp_all
  show "x \<le> y \<Longrightarrow> y \<le> x \<Longrightarrow> x = y" by (cases x; cases y) simp_all
  show "x \<le> y \<or> y \<le> x" by (cases x; cases y) auto
qed

end

fun token :: "group_id \<Rightarrow> string" where
  "token Meta = ''meta''"
| "token (Data p) = ''data_'' @ decimal (unat p)"

definition from_token :: "string \<Rightarrow> group_id option" where
  "from_token t =
     (if t = ''meta'' then Some Meta
      else Option.bind (strip_prefix ''data_'' t) (\<lambda>rest. map_option Data (parse_u16 rest)))"

definition cf_log :: "group_id \<Rightarrow> string" where "cf_log g = ''cf_log_'' @ token g"
definition cf_state :: "group_id \<Rightarrow> string" where "cf_state g = ''cf_state_'' @ token g"

datatype log_id = LogId (li_term: u64) (li_index: u64)

instantiation log_id :: linorder
begin

fun less_eq_log_id :: "log_id \<Rightarrow> log_id \<Rightarrow> bool" where
  "less_eq_log_id (LogId t i) (LogId u j) \<longleftrightarrow> t < u \<or> t = u \<and> i \<le> j"

definition less_log_id :: "log_id \<Rightarrow> log_id \<Rightarrow> bool" where
  "less_log_id a b \<longleftrightarrow> a \<le> b \<and> \<not> b \<le> a"

instance
proof
  fix x y z :: log_id
  show "x < y \<longleftrightarrow> x \<le> y \<and> \<not> y \<le> x" by (rule less_log_id_def)
  show "x \<le> x" by (cases x) simp
  show "x \<le> y \<Longrightarrow> y \<le> z \<Longrightarrow> x \<le> z" by (cases x; cases y; cases z) auto
  show "x \<le> y \<Longrightarrow> y \<le> x \<Longrightarrow> x = y" by (cases x; cases y) auto
  show "x \<le> y \<or> y \<le> x" by (cases x; cases y) auto
qed

end

subsection \<open>Client data operations\<close>

datatype if_version = Number u64 | AbsentOnly

datatype data_op =
    OpPut (op_key: bytes) (op_value: bytes) (op_if_version: "if_version option")
  | OpDelete (op_key: bytes) (op_if_version: "if_version option")

record data_request =
  dr_recovery_epoch :: u128
  dr_client_id :: client_id
  dr_sequence :: sequence
  dr_op :: data_op

datatype key_presence = Absent | Present version

datatype mutation_result = Applied version | ConditionFailed key_presence

subsection \<open>Cluster record and key hashing\<close>

datatype hash_algo = Xxh64

record hash_spec =
  hs_algo :: hash_algo
  hs_seed :: u64

definition CANONICAL :: hash_spec where "CANONICAL = \<lparr>hs_algo = Xxh64, hs_seed = 0\<rparr>"

text \<open>
  \<open>xxh64\<close> is the hash of the \<open>xxhash-rust\<close> crate: a parameter.
\<close>

definition partition_of :: "(bytes \<Rightarrow> u64 \<Rightarrow> u64) \<Rightarrow> hash_spec \<Rightarrow> bytes \<Rightarrow> u16 \<Rightarrow> u16" where
  "partition_of xxh64 spec key p =
     (let h = (case hs_algo spec of Xxh64 \<Rightarrow> xxh64 key (hs_seed spec))
      in ucast (h mod ucast p))"

record cluster_config =
  cc_cluster_id :: cluster_id
  cc_protocol_version :: u32
  cc_p :: u16
  cc_r :: u8
  cc_hash_spec :: hash_spec

subsection \<open>Placements and plans\<close>

record move_plan =
  mp_plan_id :: u64
  mp_target_voters :: "node_id list"
  mp_aborting :: bool

record placement =
  pl_voters :: "node_id list"
  pl_voters_log_id :: log_id
  pl_move :: "move_plan option"

definition references_node :: "placement \<Rightarrow> node_id \<Rightarrow> bool" where
  "references_node pl n \<longleftrightarrow>
     List.member (pl_voters pl) n
     \<or> (case pl_move pl of None \<Rightarrow> False | Some plan \<Rightarrow> List.member (mp_target_voters plan) n)"

definition voter_set :: "node_id list \<Rightarrow> node_id set" where
  "voter_set vs = set vs"

text \<open>Iteration over a \<open>BTreeSet\<close> is in ascending order.\<close>

abbreviation voters_in_order :: "node_id list \<Rightarrow> node_id list" where
  "voters_in_order vs \<equiv> sorted_list_of_set (voter_set vs)"

fun topology_group_bytes :: "group_id \<Rightarrow> bytes" where
  "topology_group_bytes Meta = [0, 0, 0]"
| "topology_group_bytes (Data p) = [1] @ to_be_bytes 2 p"

definition topology_entry_bytes :: "group_id \<times> node_id list \<Rightarrow> bytes" where
  "topology_entry_bytes gv =
     (let voters = voters_in_order (snd gv)
      in topology_group_bytes (fst gv)
         @ to_be_bytes 2 (of_nat (length voters) :: u16)
         @ concat (map (to_be_bytes 8) voters))"

definition maintenance_topology_bytes :: "(group_id \<times> node_id list) list \<Rightarrow> bytes" where
  "maintenance_topology_bytes groups =
     (let canonical = sort_key fst groups
      in as_bytes ''dal-maintenance-topology-v1''
         @ to_be_bytes 4 (of_nat (length canonical) :: u32)
         @ concat (map topology_entry_bytes canonical))"

text \<open>\<open>sha256\<close> is the digest of the \<open>sha2\<close> crate: a parameter.\<close>

definition maintenance_topology_digest ::
  "(bytes \<Rightarrow> digest32) \<Rightarrow> (group_id \<times> node_id list) list \<Rightarrow> digest32" where
  "maintenance_topology_digest sha256 groups = sha256 (maintenance_topology_bytes groups)"

subsection \<open>Node directory and maintenance\<close>

datatype node_state = Active | Suspect | Down | Draining

record node_directory_entry =
  nd_node_id :: node_id
  nd_control_addr :: string
  nd_bulk_addr :: string
  nd_state :: node_state
  nd_incarnation :: u64

record directory_state =
  ds_directory :: "node_directory_entry list"
  ds_recovery_epoch :: u128
  ds_bootstrap_complete :: bool

datatype maintenance_stage = Preparing | Quiesced | Verifying | Released

record maintenance_record =
  mr_operation_id :: u128
  mr_generation :: u64
  mr_participants :: "node_id list"
  mr_acknowledged :: "node_id list"
  mr_recovered :: "node_id list"
  mr_recovery_processes :: "(node_id \<times> u64) list"
  mr_recovery_policy_digests :: "(node_id \<times> digest32) list"
  mr_verification_policy_digest :: "digest32 option"
  mr_verification_recovery_epoch :: "u128 option"
  mr_stage :: maintenance_stage

subsection \<open>Node-local control records\<close>

record bootstrap_group =
  bg_cluster_id :: cluster_id
  bg_group :: group_id
  bg_members :: "node_id list"

record learner_admission =
  la_cluster_id :: cluster_id
  la_group :: group_id
  la_plan_id :: u64

record registration_binding =
  rb_cluster_id :: cluster_id
  rb_node_id :: node_id
  rb_control_addr :: string
  rb_bulk_addr :: string
  rb_directory_incarnation :: u64

definition matches_endpoints :: "registration_binding \<Rightarrow> string \<Rightarrow> string \<Rightarrow> bool" where
  "matches_endpoints b control_addr bulk_addr \<longleftrightarrow>
     rb_control_addr b = control_addr \<and> rb_bulk_addr b = bulk_addr"

record data_config_observation =
  do_group :: group_id
  do_plan_id :: u64
  do_voter_set :: "node_id list"
  do_config_log_id :: log_id

datatype serving_state = Serving | NonServing

subsection \<open>Group tokens\<close>

lemma token_inj [simp]: "token g = token h \<longleftrightarrow> g = h"
  by (cases g; cases h) (auto simp: word_unat_eq_iff)

lemma from_token_token: "from_token (token g) = Some g"
  by (cases g) (auto simp: from_token_def strip_prefix_def parse_u16_decimal)

subsection \<open>Hashing stays in range\<close>

lemma unat_u16_less: "unat (p :: u16) < 65536"
  using unsigned_less [of p, where ?'a = nat] by simp

lemma unat_ucast_u16_u64: "unat (ucast (p :: u16) :: u64) = unat p"
proof -
  have "unat p < 2 ^ 64" using unat_u16_less [of p] by simp
  then show ?thesis
    unfolding unsigned_ucast_eq take_bit_nat_eq_self_iff by simp
qed

lemma unat_ucast_u64_u16: "unat w < 65536 \<Longrightarrow> unat (ucast (w :: u64) :: u16) = unat w"
  unfolding unsigned_ucast_eq take_bit_nat_eq_self_iff by simp

lemma unat_partition_of:
  assumes "p \<noteq> 0"
  shows "unat (partition_of xxh64 spec key p) = unat (xxh64 key (hs_seed spec)) mod unat p"
proof -
  let ?h = "xxh64 key (hs_seed spec)"
  have pos: "0 < unat p" using assms by (simp add: unat_gt_0)
  have "unat (?h mod ucast p) = unat ?h mod unat p"
    by (simp only: unat_mod unat_ucast_u16_u64)
  moreover have "unat ?h mod unat p < 65536"
    using mod_less_divisor [OF pos, of "unat ?h"] unat_u16_less [of p] by linarith
  ultimately show ?thesis
    by (cases "hs_algo spec")
      (simp only: partition_of_def Let_def hash_algo.case unat_ucast_u64_u16)
qed

subsection \<open>The topology digest's pre-image\<close>

definition topology_norm :: "group_id \<times> node_id list \<Rightarrow> group_id \<times> node_id set" where
  "topology_norm gv = (fst gv, voter_set (snd gv))"

lemma topology_group_bytes_prefix:
  "topology_group_bytes g @ r = topology_group_bytes h @ s \<longleftrightarrow> g = h \<and> r = s"
proof (cases g; cases h)
  fix p q assume "g = Data p" "h = Data q"
  then show ?thesis by (auto dest: append_eq_append_conv [THEN iffD1, rotated])
qed auto

lemma concat_map_to_be_bytes_inj:
  "length vs = length ws \<Longrightarrow>
   concat (map (to_be_bytes 8) vs) @ r = concat (map (to_be_bytes 8) (ws :: u64 list)) @ s \<longleftrightarrow>
   vs = ws \<and> r = s"
  by (induction vs ws rule: list_induct2) auto

lemma of_nat_u16_inj: "m < 65536 \<Longrightarrow> n < 65536 \<Longrightarrow> (of_nat m :: u16) = of_nat n \<longleftrightarrow> m = n"
  by (simp add: word_of_nat_eq_iff take_bit_eq_mod)

lemma of_nat_u32_inj: "m < 2 ^ 32 \<Longrightarrow> n < 2 ^ 32 \<Longrightarrow> (of_nat m :: u32) = of_nat n \<longleftrightarrow> m = n"
  by (simp add: word_of_nat_eq_iff take_bit_eq_mod)

lemma topology_entry_bytes_prefix:
  assumes "card (voter_set (snd a)) < 65536" "card (voter_set (snd b)) < 65536"
  shows "topology_entry_bytes a @ r = topology_entry_bytes b @ s \<longleftrightarrow>
    topology_norm a = topology_norm b \<and> r = s"
proof -
  let ?v = "voters_in_order (snd a)" and ?w = "voters_in_order (snd b)"
  have order: "?v = ?w \<longleftrightarrow> voter_set (snd a) = voter_set (snd b)"
    by (metis List.finite_set set_sorted_list_of_set voter_set_def)
  have "topology_entry_bytes a @ r = topology_entry_bytes b @ s \<longleftrightarrow>
      fst a = fst b \<and> (of_nat (length ?v) :: u16) = of_nat (length ?w)
      \<and> concat (map (to_be_bytes 8) ?v) @ r = concat (map (to_be_bytes 8) ?w) @ s"
    by (simp add: topology_entry_bytes_def Let_def topology_group_bytes_prefix)
  also have "\<dots> \<longleftrightarrow> fst a = fst b \<and> ?v = ?w \<and> r = s"
    using concat_map_to_be_bytes_inj [of ?v ?w r s] assms
    by (auto simp: of_nat_u16_inj order)
  finally show ?thesis by (auto simp: topology_norm_def order)
qed

lemma concat_topology_entries_inj:
  assumes "length xs = length ys"
    and "\<forall>a \<in> set xs \<union> set ys. card (voter_set (snd a)) < 65536"
  shows "concat (map topology_entry_bytes xs) = concat (map topology_entry_bytes ys) \<longleftrightarrow>
    map topology_norm xs = map topology_norm ys"
  using assms by (induction xs ys rule: list_induct2) (auto simp: topology_entry_bytes_prefix)

lemma sorted_topology_unique:
  assumes "distinct (map fst xs)" "distinct (map fst ys)"
  shows "map topology_norm (sort_key fst xs) = map topology_norm (sort_key fst ys) \<longleftrightarrow>
    topology_norm ` set xs = topology_norm ` set ys"
proof
  assume "map topology_norm (sort_key fst xs) = map topology_norm (sort_key fst ys)"
  from arg_cong [OF this, of set] show "topology_norm ` set xs = topology_norm ` set ys" by simp
next
  assume eq: "topology_norm ` set xs = topology_norm ` set ys"
  have fst_norm: "fst \<circ> topology_norm = fst" by (auto simp: topology_norm_def)
  have dist: "distinct (map fst (sort_key fst zs))" if "distinct (map fst zs)" for zs :: "(group_id \<times> node_id list) list"
    using that by (simp add: distinct_map)
  have inj: "inj_on fst (topology_norm ` set xs)"
    using assms(1) by (auto simp: distinct_map inj_on_def topology_norm_def)
  show "map topology_norm (sort_key fst xs) = map topology_norm (sort_key fst ys)"
    by (rule map_sorted_distinct_set_unique [where f = fst])
      (use eq inj dist assms in \<open>simp_all add: fst_norm\<close>)
qed

lemma maintenance_topology_bytes_eq_iff:
  assumes "distinct (map fst xs)" "distinct (map fst ys)"
    and "length xs < 2 ^ 32" "length ys < 2 ^ 32"
    and "\<forall>a \<in> set xs \<union> set ys. card (voter_set (snd a)) < 65536"
  shows "maintenance_topology_bytes xs = maintenance_topology_bytes ys \<longleftrightarrow>
    topology_norm ` set xs = topology_norm ` set ys"
proof (cases "length xs = length ys")
  case True
  then show ?thesis
    using concat_topology_entries_inj [of "sort_key fst xs" "sort_key fst ys"]
      sorted_topology_unique [OF assms(1,2)] assms(5)
    by (simp add: maintenance_topology_bytes_def Let_def)
next
  case False
  have "card (topology_norm ` set zs) = length zs" if "distinct (map fst zs)" for zs
    using that by (simp add: card_image inj_on_def topology_norm_def distinct_card distinct_map)
  with False assms(1,2) have "topology_norm ` set xs \<noteq> topology_norm ` set ys" by metis
  moreover have "maintenance_topology_bytes xs \<noteq> maintenance_topology_bytes ys"
    using False of_nat_u32_inj [OF assms(3,4)]
    by (auto simp: maintenance_topology_bytes_def Let_def)
  ultimately show ?thesis by simp
qed

end
