(* ===== verification/Keyspace.thy ===== *)
theory Keyspace
  imports Types
begin

section \<open>Storage keys (keyspace.rs)\<close>

text \<open>
  The byte layout of every record key, function by function as in \<open>src/src/keyspace.rs\<close>.
  The typed keys \<open>state_key\<close> and \<open>local_key\<close> enumerate what the layouts name; the
  lemmas show that the layouts are injective on them (so no two records of one column family
  share a key) and that each scan prefix selects exactly its own kind of record.
\<close>

definition TAG_INTERNAL :: u8 where "TAG_INTERNAL = 0x00"
definition TAG_USER :: u8 where "TAG_USER = 0x01"
definition TAG_SEQ :: u8 where "TAG_SEQ = 0x02"
definition TAG_META :: u8 where "TAG_META = 0x03"

abbreviation byte :: "char \<Rightarrow> u8" where "byte \<equiv> byte_of_char"

definition name_len_prefix :: "string \<Rightarrow> bytes" where
  "name_len_prefix name = to_be_bytes 4 (of_nat (length name) :: u32)"

definition last_applied_key :: bytes where "last_applied_key = [TAG_INTERNAL, byte CHR ''L'']"
definition raft_applied_key :: bytes where "raft_applied_key = [TAG_INTERNAL, byte CHR ''R'']"
definition recovery_epoch_key :: bytes where "recovery_epoch_key = [TAG_INTERNAL, byte CHR ''E'']"
definition local_recovery_epoch_key :: bytes where
  "local_recovery_epoch_key = as_bytes ''local/recovery_epoch''"
definition local_restored_epoch_key :: bytes where
  "local_restored_epoch_key = as_bytes ''local/restored_epoch''"

definition user_key :: "bytes \<Rightarrow> bytes" where "user_key key = TAG_USER # key"
definition seq_key :: "u128 \<Rightarrow> bytes" where "seq_key client_id = TAG_SEQ # to_be_bytes 16 client_id"

subsection \<open>Meta-group records\<close>

definition meta_cluster_key :: bytes where "meta_cluster_key = [TAG_META, byte CHR ''C'']"
definition meta_maintenance_key :: bytes where "meta_maintenance_key = [TAG_META, byte CHR ''M'']"
definition meta_node_key :: "node_id \<Rightarrow> bytes" where
  "meta_node_key n = [TAG_META, byte CHR ''N''] @ to_be_bytes 8 n"
definition meta_node_prefix :: bytes where "meta_node_prefix = [TAG_META, byte CHR ''N'']"
definition meta_retired_node_key :: "node_id \<Rightarrow> bytes" where
  "meta_retired_node_key n = [TAG_META, byte CHR ''X''] @ to_be_bytes 8 n"
definition local_retired_key :: bytes where "local_retired_key = as_bytes ''local/retired''"
definition meta_placement_key :: "group_id \<Rightarrow> bytes" where
  "meta_placement_key g = [TAG_META, byte CHR ''P''] @ as_bytes (token g)"
definition meta_search_index_prefix :: bytes where
  "meta_search_index_prefix = [TAG_META, byte CHR ''S'']"
definition meta_search_index_key :: "string \<Rightarrow> bytes" where
  "meta_search_index_key name = meta_search_index_prefix @ name_len_prefix name @ as_bytes name"
definition meta_search_ready_prefix :: "string \<Rightarrow> u64 \<Rightarrow> bytes" where
  "meta_search_ready_prefix name gen =
     [TAG_META, byte CHR ''s''] @ name_len_prefix name @ as_bytes name @ to_be_bytes 8 gen"
definition meta_search_ready_key :: "string \<Rightarrow> u64 \<Rightarrow> group_id \<Rightarrow> node_id \<Rightarrow> bytes" where
  "meta_search_ready_key name gen g n =
     meta_search_ready_prefix name gen
     @ (case g of Data p \<Rightarrow> [1] @ to_be_bytes 2 p | Meta \<Rightarrow> [0, 0, 0])
     @ to_be_bytes 8 n"

subsection \<open>Node-local records\<close>

definition identity_key :: bytes where "identity_key = as_bytes ''local/identity''"
definition heartbeat_incarnation_key :: bytes where
  "heartbeat_incarnation_key = as_bytes ''local/heartbeat_incarnation''"
definition search_session_incarnation_key :: bytes where
  "search_session_incarnation_key = as_bytes ''local/search_session_incarnation''"
definition state_cf_pointer_key :: "group_id \<Rightarrow> bytes" where
  "state_cf_pointer_key g = as_bytes ''local/state_cf/'' @ as_bytes (token g)"
definition state_cf_pointer_prefix :: bytes where
  "state_cf_pointer_prefix = as_bytes ''local/state_cf/''"
definition state_cf_generation_key :: "group_id \<Rightarrow> bytes" where
  "state_cf_generation_key g = as_bytes ''local/state_cf_generation/'' @ as_bytes (token g)"
definition registration_binding_key :: bytes where
  "registration_binding_key = as_bytes ''local/registration_binding''"
definition maintenance_fence_key :: bytes where
  "maintenance_fence_key = as_bytes ''local/maintenance_fence''"
definition serving_key :: "group_id \<Rightarrow> bytes" where
  "serving_key g = as_bytes (''local/serving/'' @ token g)"
definition serving_prefix :: bytes where "serving_prefix = as_bytes ''local/serving/''"
definition admission_key :: "group_id \<Rightarrow> bytes" where
  "admission_key g = as_bytes (''local/admission/'' @ token g)"
definition pending_report_key :: "group_id \<Rightarrow> bytes" where
  "pending_report_key g = as_bytes (''local/pending_report/'' @ token g)"
definition bootstrap_key :: "group_id \<Rightarrow> bytes" where
  "bootstrap_key g = as_bytes (''local/bootstrap/'' @ token g)"
definition search_prefix :: "group_id \<Rightarrow> bytes" where
  "search_prefix g = as_bytes (''local/search/'' @ token g @ ''/'')"
definition search_epoch_key :: "group_id \<Rightarrow> bytes" where
  "search_epoch_key g = search_prefix g @ as_bytes ''epoch''"
definition search_outbox_prefix :: "group_id \<Rightarrow> bytes" where
  "search_outbox_prefix g = search_prefix g @ as_bytes ''outbox/''"
definition search_outbox_epoch_prefix :: "group_id \<Rightarrow> u64 \<Rightarrow> bytes" where
  "search_outbox_epoch_prefix g epoch = search_outbox_prefix g @ to_be_bytes 8 epoch"
definition search_consumer_prefix :: "group_id \<Rightarrow> bytes" where
  "search_consumer_prefix g = search_prefix g @ as_bytes ''consumer/''"
definition search_consumer_key :: "group_id \<Rightarrow> string \<Rightarrow> u64 \<Rightarrow> bytes" where
  "search_consumer_key g name gen =
     search_consumer_prefix g @ name_len_prefix name @ as_bytes name @ to_be_bytes 8 gen"

text \<open>\<open>slice.get(i..j)\<close>: the range, when it lies inside the slice.\<close>

definition slice_get :: "'a list \<Rightarrow> nat \<Rightarrow> nat \<Rightarrow> 'a list option" where
  "slice_get xs i j = (if i \<le> j \<and> j \<le> length xs then Some (take (j - i) (drop i xs)) else None)"

definition decode_search_consumer_key :: "group_id \<Rightarrow> bytes \<Rightarrow> (string \<times> u64) result" where
  "decode_search_consumer_key g key =
     (let corrupt = (\<lambda>detail. Corrupt ''search consumer key'' detail) in
      rbind (ok_or (strip_prefix (search_consumer_prefix g) key)
               (corrupt ''key has the wrong group prefix'')) (\<lambda>rest.
      rbind (ok_or (slice_get rest 0 4) (corrupt ''key is truncated'')) (\<lambda>len_bytes.
      let name_len = unat (from_be_bytes len_bytes :: u32) in
      rbind (ok_or (slice_get rest 4 (4 + name_len)) (corrupt ''name runs past the key'')) (\<lambda>name.
      rbind (ok_or (slice_get rest (4 + name_len) (4 + name_len + 8))
               (corrupt ''key has no generation'')) (\<lambda>gen.
      rbind (ok_or (from_utf8 name) (corrupt ''name is not UTF-8'')) (\<lambda>s.
      Ok (s, from_be_bytes gen)))))))"

subsection \<open>Typed keys\<close>

datatype state_key =
    SK_last_applied | SK_raft_applied | SK_recovery_epoch
  | SK_user bytes | SK_seq u128
  | SK_cluster | SK_maintenance | SK_node node_id | SK_retired node_id
  | SK_placement group_id | SK_search string | SK_ready string u64 group_id node_id

fun state_key_bytes :: "state_key \<Rightarrow> bytes" where
  "state_key_bytes SK_last_applied = last_applied_key"
| "state_key_bytes SK_raft_applied = raft_applied_key"
| "state_key_bytes SK_recovery_epoch = recovery_epoch_key"
| "state_key_bytes (SK_user k) = user_key k"
| "state_key_bytes (SK_seq c) = seq_key c"
| "state_key_bytes SK_cluster = meta_cluster_key"
| "state_key_bytes SK_maintenance = meta_maintenance_key"
| "state_key_bytes (SK_node n) = meta_node_key n"
| "state_key_bytes (SK_retired n) = meta_retired_node_key n"
| "state_key_bytes (SK_placement g) = meta_placement_key g"
| "state_key_bytes (SK_search s) = meta_search_index_key s"
| "state_key_bytes (SK_ready s gen g n) = meta_search_ready_key s gen g n"

text \<open>Names embedded in keys fit their \<open>u32\<close> length prefix.\<close>

fun short_name :: "state_key \<Rightarrow> bool" where
  "short_name (SK_search s) \<longleftrightarrow> length s < 2 ^ 32"
| "short_name (SK_ready s _ _ _) \<longleftrightarrow> length s < 2 ^ 32"
| "short_name _ \<longleftrightarrow> True"

datatype local_key =
    LK_recovery_epoch | LK_restored_epoch | LK_retired | LK_identity | LK_heartbeat
  | LK_search_session | LK_state_cf_pointer group_id | LK_state_cf_generation group_id
  | LK_registration | LK_maintenance_fence | LK_serving group_id | LK_admission group_id
  | LK_pending_report group_id | LK_bootstrap group_id | LK_search_epoch group_id
  | LK_search_consumer group_id string u64

fun local_key_bytes :: "local_key \<Rightarrow> bytes" where
  "local_key_bytes LK_recovery_epoch = local_recovery_epoch_key"
| "local_key_bytes LK_restored_epoch = local_restored_epoch_key"
| "local_key_bytes LK_retired = local_retired_key"
| "local_key_bytes LK_identity = identity_key"
| "local_key_bytes LK_heartbeat = heartbeat_incarnation_key"
| "local_key_bytes LK_search_session = search_session_incarnation_key"
| "local_key_bytes (LK_state_cf_pointer g) = state_cf_pointer_key g"
| "local_key_bytes (LK_state_cf_generation g) = state_cf_generation_key g"
| "local_key_bytes LK_registration = registration_binding_key"
| "local_key_bytes LK_maintenance_fence = maintenance_fence_key"
| "local_key_bytes (LK_serving g) = serving_key g"
| "local_key_bytes (LK_admission g) = admission_key g"
| "local_key_bytes (LK_pending_report g) = pending_report_key g"
| "local_key_bytes (LK_bootstrap g) = bootstrap_key g"
| "local_key_bytes (LK_search_epoch g) = search_epoch_key g"
| "local_key_bytes (LK_search_consumer g s gen) = search_consumer_key g s gen"

fun short_local_name :: "local_key \<Rightarrow> bool" where
  "short_local_name (LK_search_consumer _ s _) \<longleftrightarrow> length s < 2 ^ 32"
| "short_local_name _ \<longleftrightarrow> True"

subsection \<open>Layouts\<close>

lemmas tag_defs [key_simps] = TAG_INTERNAL_def TAG_USER_def TAG_SEQ_def TAG_META_def

lemmas state_key_defs = last_applied_key_def raft_applied_key_def recovery_epoch_key_def
  user_key_def seq_key_def meta_cluster_key_def meta_maintenance_key_def meta_node_key_def
  meta_retired_node_key_def meta_placement_key_def meta_search_index_key_def
  meta_search_index_prefix_def meta_search_ready_key_def meta_search_ready_prefix_def

lemmas local_key_defs = local_recovery_epoch_key_def local_restored_epoch_key_def
  local_retired_key_def identity_key_def heartbeat_incarnation_key_def
  search_session_incarnation_key_def state_cf_pointer_key_def state_cf_generation_key_def
  registration_binding_key_def maintenance_fence_key_def serving_key_def admission_key_def
  pending_report_key_def bootstrap_key_def search_epoch_key_def search_consumer_key_def
  search_consumer_prefix_def search_prefix_def

lemma name_len_prefix_inj:
  "length s < 2 ^ 32 \<Longrightarrow> length t < 2 ^ 32 \<Longrightarrow>
   name_len_prefix s @ as_bytes s @ r = name_len_prefix t @ as_bytes t @ r' \<longleftrightarrow> s = t \<and> r = r'"
  by (auto simp: name_len_prefix_def of_nat_u32_inj append_eq_append_conv)

lemma ready_group_bytes_prefix [key_simps]:
  "(case g of Data p \<Rightarrow> [1] @ to_be_bytes 2 p | Meta \<Rightarrow> [0, 0, 0 :: u8]) = topology_group_bytes g"
  by (cases g) auto

lemma state_key_bytes_inj:
  assumes "short_name k" "short_name l"
  shows "state_key_bytes k = state_key_bytes l \<longleftrightarrow> k = l"
  using assms name_len_prefix_inj [where r = "[]" and r' = "[]"]
  by (cases k; cases l)
    (simp_all add: state_key_defs key_simps name_len_prefix_inj topology_group_bytes_prefix
      append_eq_append_conv)


lemma node_prefix_selects:
  "starts_with (state_key_bytes k) meta_node_prefix \<longleftrightarrow> (\<exists>n. k = SK_node n)"
  by (cases k) (auto simp: starts_with_iff meta_node_prefix_def state_key_defs key_simps)

lemma search_index_prefix_selects:
  "starts_with (state_key_bytes k) meta_search_index_prefix \<longleftrightarrow> (\<exists>s. k = SK_search s)"
  by (cases k) (auto simp: starts_with_iff state_key_defs key_simps)

lemma search_ready_prefix_selects:
  assumes "short_name k" "length name < 2 ^ 32"
  shows "starts_with (state_key_bytes k) (meta_search_ready_prefix name gen) \<longleftrightarrow>
    (\<exists>g n. k = SK_ready name gen g n)"
  using assms
  by (cases k)
    (auto simp: starts_with_iff state_key_defs key_simps name_len_prefix_inj append_eq_append_conv)

subsection \<open>Group tokens inside keys\<close>

lemma slash_not_in_token: "CHR ''/'' \<notin> set (token g)"
proof (cases g)
  case (Data p)
  have "CHR ''/'' \<noteq> char_of (48 + d)" if "d < (10 :: nat)" for d
  proof
    assume "CHR ''/'' = char_of (48 + d)"
    then have "of_char (CHR ''/'') = (of_char (char_of (48 + d) :: char) :: nat)" by simp
    with that show False by simp
  qed
  with Data show ?thesis by (auto dest: decimal_digits)
qed simp

lemma token_slash_prefix:
  "as_bytes (token g) @ byte CHR ''/'' # r = as_bytes (token h) @ byte CHR ''/'' # s
     \<longleftrightarrow> g = h \<and> r = s"
proof
  assume eq: "as_bytes (token g) @ byte CHR ''/'' # r = as_bytes (token h) @ byte CHR ''/'' # s"
  have no: "byte CHR ''/'' \<notin> set (as_bytes (token g))" for g
    using slash_not_in_token [of g] by (auto simp: as_bytes_def simp del: byte_of_char_inj)
      (metis byte_of_char_inj)
  have take: "takeWhile (\<lambda>x. x \<noteq> byte CHR ''/'') (as_bytes (token g) @ byte CHR ''/'' # r)
      = as_bytes (token g)" for g r
    using no [of g] by (subst takeWhile_append2) auto
  have "as_bytes (token g) = as_bytes (token h)"
    using arg_cong [OF eq, of "takeWhile (\<lambda>x. x \<noteq> byte CHR ''/'')"] by (simp only: take)
  with eq show "g = h \<and> r = s" by simp
qed simp

lemmas search_key_defs = search_prefix_def search_epoch_key_def search_outbox_prefix_def
  search_outbox_epoch_prefix_def search_consumer_prefix_def search_consumer_key_def

lemma search_prefix_eq:
  "search_prefix g @ r = search_prefix h @ s \<longleftrightarrow> g = h \<and> r = s"
  using token_slash_prefix [of g r h s]
  by (simp add: search_prefix_def) (simp add: as_bytes_def)

lemma search_prefix_selects:
  "starts_with (search_prefix h @ r) (search_prefix g) \<longleftrightarrow> g = h"
  by (auto simp: starts_with_iff search_prefix_eq)

lemma decode_search_consumer_key_round_trip:
  assumes "length name < 2 ^ 32" "utf8_valid (as_bytes name)"
  shows "decode_search_consumer_key g (search_consumer_key g name gen) = Ok (name, gen)"
proof -
  have len: "unat (of_nat (length name) :: u32) = length name"
    using assms(1) by (simp add: unat_of_nat take_bit_eq_mod)
  show ?thesis
    using from_utf8_as_bytes [OF assms(2)]
    by (simp add: decode_search_consumer_key_def search_consumer_key_def ok_or_def slice_get_def
        name_len_prefix_def Let_def len)
qed

subsection \<open>Node-local keys\<close>

lemma as_bytes_Cons: "as_bytes (c # cs) = byte c # as_bytes cs" "as_bytes [] = []"
  by (simp_all add: as_bytes_def)

lemma local_key_bytes_inj:
  assumes "short_local_name k" "short_local_name l"
  shows "local_key_bytes k = local_key_bytes l \<longleftrightarrow> k = l"
  using assms
  by (cases k; cases l)
    (simp_all add: local_key_defs as_bytes_Cons token_slash_prefix
      name_len_prefix_inj append_eq_append_conv)

lemma serving_prefix_selects:
  "starts_with (local_key_bytes k) serving_prefix \<longleftrightarrow> (\<exists>g. k = LK_serving g)"
  by (cases k) (auto simp: starts_with_iff serving_prefix_def local_key_defs as_bytes_Cons)

lemma state_cf_pointer_prefix_selects:
  "starts_with (local_key_bytes k) state_cf_pointer_prefix \<longleftrightarrow> (\<exists>g. k = LK_state_cf_pointer g)"
  by (cases k) (auto simp: starts_with_iff state_cf_pointer_prefix_def local_key_defs as_bytes_Cons)

end
