(* ===== verification/Storage.thy ===== *)
theory Storage
  imports Keyspace "HOL-Library.Multiset"
begin

section \<open>Column families and records (storage/rocks.rs, codec.rs)\<close>

text \<open>
  The persisted state the rest of the crate reads and writes: the default column family with
  the node-local records, and the named column families of the groups, each a sequence of
  key/value pairs in key order as RocksDB iterates it.  The typed accessors follow
  \<open>src/src/storage/rocks.rs\<close>; the record codec (bincode) is a parameter, with the round
  trip \<open>codec_ok\<close> as the only fact used of it.  The locale \<open>kv_store\<close> states the
  contract of one column family and what a write batch does to it; it is interpreted on the
  model's column families.
\<close>

record 'a codec =
  enc :: "'a \<Rightarrow> bytes"
  dec :: "bytes \<Rightarrow> 'a result"

definition codec_ok :: "'a codec \<Rightarrow> bool" where
  "codec_ok c \<longleftrightarrow> (\<forall>x. dec c (enc c x) = Ok x)"

subsection \<open>One column family\<close>

type_synonym cf = "(bytes \<times> bytes) list"

definition cf_get :: "cf \<Rightarrow> bytes \<Rightarrow> bytes option" where
  "cf_get cf k = map_of cf k"

definition cf_put :: "bytes \<Rightarrow> bytes \<Rightarrow> cf \<Rightarrow> cf" where
  "cf_put k v cf = upsert_by_key fst cf (k, v)"

definition cf_delete :: "bytes \<Rightarrow> cf \<Rightarrow> cf" where
  "cf_delete k cf = filter (\<lambda>kv. fst kv \<noteq> k) cf"

text \<open>
  \<open>db.iterator(From(prefix, Forward))\<close> with a \<open>break\<close> at the first key outside the
  prefix.
\<close>

definition cf_iter_prefix :: "bytes \<Rightarrow> cf \<Rightarrow> cf" where
  "cf_iter_prefix prefix cf =
     takeWhile (\<lambda>kv. starts_with (fst kv) prefix) (dropWhile (\<lambda>kv. fst kv < prefix) cf)"

abbreviation cf_wf :: "cf \<Rightarrow> bool" where "cf_wf \<equiv> strictly_sorted fst"

datatype state_mutation = MutPut bytes bytes | MutDelete bytes

fun mutation_key :: "state_mutation \<Rightarrow> bytes" where
  "mutation_key (MutPut k v) = k"
| "mutation_key (MutDelete k) = k"

fun mutation_value :: "state_mutation \<Rightarrow> bytes option" where
  "mutation_value (MutPut k v) = Some v"
| "mutation_value (MutDelete k) = None"

fun mutate :: "(bytes \<Rightarrow> bytes \<Rightarrow> 's \<Rightarrow> 's) \<Rightarrow> (bytes \<Rightarrow> 's \<Rightarrow> 's) \<Rightarrow> state_mutation \<Rightarrow> 's \<Rightarrow> 's" where
  "mutate put del (MutPut k v) s = put k v s"
| "mutate put del (MutDelete k) s = del k s"

text \<open>What a sequence of mutations does to each key: the last one wins.\<close>

fun last_write :: "state_mutation list \<Rightarrow> bytes \<Rightarrow> bytes option option" where
  "last_write [] k = None"
| "last_write (m # ms) k =
     (case last_write ms k of
        Some w \<Rightarrow> Some w
      | None \<Rightarrow> if mutation_key m = k then Some (mutation_value m) else None)"

subsection \<open>The database\<close>

text \<open>
  \<open>db_failed\<close> is the database-wide fail-stop latch: the first failure recorded, which
  nothing clears.
\<close>

record storage =
  db_default :: cf
  db_cfs :: "string \<Rightarrow> cf option"
  db_failed :: "string option"

record store_codecs =
  c_string :: "string codec"
  c_u64 :: "u64 codec"
  c_u128 :: "u128 codec"
  c_log_id :: "log_id codec"
  c_serving :: "serving_state codec"

datatype batch_op =
    BPut bytes bytes
  | BDelete bytes
  | BPutCf string bytes bytes
  | BDeleteCf string bytes

fun batch_step :: "batch_op \<Rightarrow> storage \<Rightarrow> storage" where
  "batch_step (BPut k v) st = st\<lparr>db_default := cf_put k v (db_default st)\<rparr>"
| "batch_step (BDelete k) st = st\<lparr>db_default := cf_delete k (db_default st)\<rparr>"
| "batch_step (BPutCf n k v) st =
     st\<lparr>db_cfs := (db_cfs st)(n := map_option (cf_put k v) (db_cfs st n))\<rparr>"
| "batch_step (BDeleteCf n k) st =
     st\<lparr>db_cfs := (db_cfs st)(n := map_option (cf_delete k) (db_cfs st n))\<rparr>"

definition db_write :: "batch_op list \<Rightarrow> storage \<Rightarrow> storage" where
  "db_write batch st = fold batch_step batch st"

text \<open>\<open>Display\<close> of an error.\<close>

fun display :: "error \<Rightarrow> string" where
  "display (Config m) = ''configuration invalid: '' @ m"
| "display (Rocks m) = ''storage: '' @ m"
| "display (Codec m) = ''codec: '' @ m"
| "display (IdentityMismatch fc fn wc wn) =
     ''identity mismatch: data dir holds cluster 0x'' @ hex_digits (unat fc) @ '' node '' @ decimal (unat fn)
     @ '', config expects cluster 0x'' @ hex_digits (unat wc) @ '' node '' @ decimal (unat wn)"
| "display (Corrupt r m) = ''corrupt on-disk record in '' @ r @ '': '' @ m"
| "display (Raft m) = ''raft: '' @ m"
| "display (Search m) = ''search: '' @ m"
| "display (Io m) = ''io: '' @ m"

definition fail_all :: "string \<Rightarrow> storage \<Rightarrow> storage" where
  "fail_all msg st = st\<lparr>db_failed := (case db_failed st of Some first \<Rightarrow> Some first | None \<Rightarrow> Some msg)\<rparr>"

definition poison_raft_error :: "string \<Rightarrow> error \<Rightarrow> storage \<Rightarrow> storage" where
  "poison_raft_error ctxt e st = fail_all (ctxt @ '': '' @ display e) st"

definition require_healthy :: "storage \<Rightarrow> unit result" where
  "require_healthy st = (case db_failed st of Some msg \<Rightarrow> Err (Io msg) | None \<Rightarrow> Ok ())"

text \<open>The records of two databases agree; only the latch may differ.\<close>

definition same_records :: "storage \<Rightarrow> storage \<Rightarrow> bool" where
  "same_records st st' \<longleftrightarrow> db_default st' = db_default st \<and> db_cfs st' = db_cfs st"

definition get_local :: "'a codec \<Rightarrow> storage \<Rightarrow> bytes \<Rightarrow> 'a option result" where
  "get_local c st key =
     (case cf_get (db_default st) key of
        Some bs \<Rightarrow> rbind (dec c bs) (\<lambda>v. Ok (Some v))
      | None \<Rightarrow> Ok None)"

definition put_local :: "'a codec \<Rightarrow> bytes \<Rightarrow> 'a \<Rightarrow> storage \<Rightarrow> storage" where
  "put_local c key v st = st\<lparr>db_default := cf_put key (enc c v) (db_default st)\<rparr>"

definition delete_local :: "bytes \<Rightarrow> storage \<Rightarrow> storage" where
  "delete_local key st = st\<lparr>db_default := cf_delete key (db_default st)\<rparr>"

definition delete_local_prefix :: "bytes \<Rightarrow> storage \<Rightarrow> storage" where
  "delete_local_prefix prefix st =
     db_write (map (\<lambda>kv. BDelete (fst kv)) (cf_iter_prefix prefix (db_default st))) st"

text \<open>
  The state column family a group reads: the one its durable pointer names, or the original
  one.  (The process keeps a cache of this name; it always holds the pointer's value.)
\<close>

definition active_state_cf_name :: "('a store_codecs_scheme) \<Rightarrow> storage \<Rightarrow> group_id \<Rightarrow> string result" where
  "active_state_cf_name C st g =
     rbind (get_local (c_string C) st (state_cf_pointer_key g)) (\<lambda>ptr.
       let name = (case ptr of Some n \<Rightarrow> n | None \<Rightarrow> cf_state g);
           base = cf_state g
       in if name \<noteq> base \<and> \<not> starts_with name (base @ ''__snapshot_'')
          then Err (Corrupt base (''invalid active state CF pointer '' @ debug_str name))
          else Ok name)"

definition state_cf :: "('a store_codecs_scheme) \<Rightarrow> storage \<Rightarrow> group_id \<Rightarrow> (string \<times> cf) result" where
  "state_cf C st g =
     rbind (active_state_cf_name C st g) (\<lambda>name.
       case db_cfs st name of
         Some cf \<Rightarrow> Ok (name, cf)
       | None \<Rightarrow> Err (Corrupt name ''state CF not open''))"

definition log_cf :: "storage \<Rightarrow> group_id \<Rightarrow> (string \<times> cf) result" where
  "log_cf st g =
     (case db_cfs st (cf_log g) of
        Some cf \<Rightarrow> Ok (cf_log g, cf)
      | None \<Rightarrow> Err (Corrupt (cf_log g) ''log CF not open''))"

definition get_state :: "('a store_codecs_scheme) \<Rightarrow> storage \<Rightarrow> group_id \<Rightarrow> bytes \<Rightarrow> bytes option result" where
  "get_state C st g key = rbind (state_cf C st g) (\<lambda>(name, cf). Ok (cf_get cf key))"

definition get_state_record ::
  "('a store_codecs_scheme) \<Rightarrow> 'v codec \<Rightarrow> storage \<Rightarrow> group_id \<Rightarrow> bytes \<Rightarrow> 'v option result" where
  "get_state_record C c st g key =
     rbind (get_state C st g key) (\<lambda>v.
       case v of
         Some bs \<Rightarrow> rbind (dec c bs) (\<lambda>x. Ok (Some x))
       | None \<Rightarrow> Ok None)"

definition last_applied :: "('a store_codecs_scheme) \<Rightarrow> storage \<Rightarrow> group_id \<Rightarrow> log_id option result" where
  "last_applied C st g = get_state_record C (c_log_id C) st g last_applied_key"

definition scan_state :: "('a store_codecs_scheme) \<Rightarrow> storage \<Rightarrow> group_id \<Rightarrow> cf result" where
  "scan_state C st g = rbind (state_cf C st g) (\<lambda>(name, cf). Ok cf)"

definition raft_applied :: "('a store_codecs_scheme) \<Rightarrow> storage \<Rightarrow> group_id \<Rightarrow> bytes option result" where
  "raft_applied C st g = get_state C st g raft_applied_key"

lemma db_failed_write [simp]: "db_failed (db_write batch st) = db_failed st"
proof (induction batch arbitrary: st)
  case (Cons op ops)
  then show ?case by (cases op) (simp_all add: db_write_def)
qed (simp add: db_write_def)

lemma fail_all_records [simp]:
  "db_default (fail_all msg st) = db_default st" "db_cfs (fail_all msg st) = db_cfs st"
  "db_failed (fail_all msg st) \<noteq> None"
  by (simp_all add: fail_all_def split: option.split)

lemma poison_records [simp]:
  "db_default (poison_raft_error ctxt e st) = db_default st" "db_cfs (poison_raft_error ctxt e st) = db_cfs st"
  "db_failed (poison_raft_error ctxt e st) \<noteq> None"
  by (simp_all only: poison_raft_error_def fail_all_records not_False_eq_True)

lemma fail_all_failed: "db_failed st \<noteq> None \<Longrightarrow> fail_all msg st = st"
  by (auto simp: fail_all_def)

lemma poison_failed: "db_failed st \<noteq> None \<Longrightarrow> poison_raft_error ctxt e st = st"
  by (simp add: poison_raft_error_def fail_all_failed)

subsection \<open>Facts about one column family\<close>

lemma cf_wf_Nil [simp]: "cf_wf []"
  by (simp add: strictly_sorted_def)

lemma cf_wf_put: "cf_wf cf \<Longrightarrow> cf_wf (cf_put k v cf)"
  by (simp add: cf_put_def strictly_sorted_upsert)

lemma cf_wf_delete: "cf_wf cf \<Longrightarrow> cf_wf (cf_delete k cf)"
  by (simp add: cf_delete_def strictly_sorted_def sorted_wrt_filter)

lemma cf_get_Some_iff: "cf_wf cf \<Longrightarrow> cf_get cf k = Some v \<longleftrightarrow> (k, v) \<in> set cf"
  by (simp add: cf_get_def strictly_sorted_distinct)

lemma cf_get_put: "cf_wf cf \<Longrightarrow> cf_get (cf_put k v cf) k' = (if k' = k then Some v else cf_get cf k')"
  by (simp add: cf_get_def cf_put_def map_of_upsert)

lemma cf_get_delete: "cf_get (cf_delete k cf) k' = (if k' = k then None else cf_get cf k')"
  by (induction cf) (auto simp: cf_get_def cf_delete_def)

lemma cf_ext: "cf_wf a \<Longrightarrow> cf_wf c \<Longrightarrow> (\<And>k. cf_get a k = cf_get c k) \<Longrightarrow> a = c"
  by (rule sorted_map_of_ext) (simp_all add: cf_get_def)

subsection \<open>The contract of a column family\<close>

locale kv_store =
  fixes inv :: "'s \<Rightarrow> bool"
    and get :: "'s \<Rightarrow> bytes \<Rightarrow> bytes option"
    and put :: "bytes \<Rightarrow> bytes \<Rightarrow> 's \<Rightarrow> 's"
    and del :: "bytes \<Rightarrow> 's \<Rightarrow> 's"
  assumes inv_put: "inv s \<Longrightarrow> inv (put k v s)"
    and inv_del: "inv s \<Longrightarrow> inv (del k s)"
    and get_put: "inv s \<Longrightarrow> get (put k v s) k' = (if k' = k then Some v else get s k')"
    and get_del: "inv s \<Longrightarrow> get (del k s) k' = (if k' = k then None else get s k')"
    and ext: "inv s \<Longrightarrow> inv t \<Longrightarrow> (\<And>k. get s k = get t k) \<Longrightarrow> s = t"
begin

lemma inv_mutate: "inv s \<Longrightarrow> inv (mutate put del m s)"
  by (cases m) (auto simp: inv_put inv_del)

lemma get_mutate:
  "inv s \<Longrightarrow> get (mutate put del m s) k = (if k = mutation_key m then mutation_value m else get s k)"
  by (cases m) (auto simp: get_put get_del)

lemma inv_fold: "inv s \<Longrightarrow> inv (fold (mutate put del) ms s)"
  by (induction ms arbitrary: s) (auto simp: inv_mutate)

lemma get_fold:
  "inv s \<Longrightarrow> get (fold (mutate put del) ms s) k =
     (case last_write ms k of Some w \<Rightarrow> w | None \<Rightarrow> get s k)"
  by (induction ms arbitrary: s) (auto simp: inv_mutate get_mutate split: option.split)

text \<open>Two batches that write the same last value to every key leave the same store.\<close>

lemma fold_cong_last_write:
  "inv s \<Longrightarrow> (\<And>k. last_write ms k = last_write ns k) \<Longrightarrow>
   fold (mutate put del) ms s = fold (mutate put del) ns s"
  by (rule ext) (auto simp: inv_fold get_fold)

end

interpretation cfs: kv_store cf_wf cf_get cf_put cf_delete
  by unfold_locales (auto simp: cf_wf_put cf_wf_delete cf_get_put cf_get_delete intro: cf_ext)

subsection \<open>Distinct keys commute\<close>

lemma last_write_append:
  "last_write (ms @ ns) k = (case last_write ns k of Some w \<Rightarrow> Some w | None \<Rightarrow> last_write ms k)"
  by (induction ms) (auto split: option.split)

lemma last_write_None: "last_write ms k = None \<longleftrightarrow> k \<notin> mutation_key ` set ms"
  by (induction ms) (auto split: option.splits)

lemma last_write_distinct:
  "distinct (map mutation_key ms) \<Longrightarrow> m \<in> set ms \<Longrightarrow> last_write ms (mutation_key m) = Some (mutation_value m)"
proof (induction ms)
  case (Cons a ms)
  show ?case
  proof (cases "m = a")
    case True
    with Cons.prems have "last_write ms (mutation_key m) = None"
      by (simp add: last_write_None)
    with True show ?thesis by simp
  qed (use Cons in simp)
qed simp

lemma last_write_perm:
  assumes "mset ms = mset ns" "distinct (map mutation_key ms)"
  shows "last_write ms k = last_write ns k"
proof -
  have d: "distinct (map mutation_key ns)"
    using assms by (metis mset_eq_imp_distinct_iff mset_map)
  have "set ms = set ns" using assms(1) by (rule mset_eq_setD)
  then show ?thesis
    using last_write_distinct [OF assms(2)] last_write_distinct [OF d]
    by (metis image_iff last_write_None)
qed

subsection \<open>Prefix iteration\<close>

lemma prefix_convex:
  "p \<le> k \<Longrightarrow> k \<le> l \<Longrightarrow> starts_with l p \<Longrightarrow> starts_with k p"
  for p k l :: bytes
proof (induction p arbitrary: k l)
  case (Cons a p)
  then show ?case
    by (cases k; cases l) (auto simp: starts_with_iff)
qed (simp add: starts_with_iff)

lemma prefix_le: "starts_with k p \<Longrightarrow> p \<le> k" for p k :: bytes
proof (induction p arbitrary: k)
  case (Cons a p)
  then show ?case by (cases k) (auto simp: starts_with_iff)
qed simp

lemma takeWhile_prefix_sorted:
  "cf_wf cf \<Longrightarrow> \<forall>kv \<in> set cf. p \<le> fst kv \<Longrightarrow>
   takeWhile (\<lambda>kv. starts_with (fst kv) p) cf = filter (\<lambda>kv. starts_with (fst kv) p) cf"
proof (induction cf)
  case (Cons kv cf)
  show ?case
  proof (cases "starts_with (fst kv) p")
    case True
    with Cons show ?thesis by (simp add: strictly_sorted_def)
  next
    case False
    then have "\<not> starts_with (fst kw) p" if "kw \<in> set cf" for kw
    proof -
      have "fst kv \<le> fst kw" "p \<le> fst kv"
        using Cons.prems that by (auto simp: strictly_sorted_def less_imp_le)
      with False show ?thesis using prefix_convex by blast
    qed
    with False show ?thesis by (simp add: filter_False)
  qed
qed simp

lemma cf_iter_prefix_filter:
  "cf_wf cf \<Longrightarrow> cf_iter_prefix p cf = filter (\<lambda>kv. starts_with (fst kv) p) cf"
proof (induction cf)
  case (Cons kv cf)
  then have wf: "cf_wf cf" by (simp add: strictly_sorted_def)
  show ?case
  proof (cases "fst kv < p")
    case True
    then have "\<not> starts_with (fst kv) p" using prefix_le [of "fst kv" p] by auto
    with True Cons.IH [OF wf] show ?thesis by (simp add: cf_iter_prefix_def)
  next
    case False
    then have "\<forall>kw \<in> set (kv # cf). p \<le> fst kw"
      using Cons.prems by (auto simp: strictly_sorted_def intro: order.trans [OF _ less_imp_le])
    with False Cons.prems show ?thesis
      by (simp add: cf_iter_prefix_def takeWhile_prefix_sorted del: takeWhile.simps)
  qed
qed (simp add: cf_iter_prefix_def)

end
