(* ===== verification/Ref_Codec.thy ===== *)
theory Ref_Codec
  imports Storage
begin

section \<open>A concrete record codec\<close>

text \<open>
  The crate encodes records with bincode, which the development takes as a parameter with the
  round-trip law \<open>codec_ok\<close>.  This theory builds a concrete self-delimiting codec from
  combinators (fixed-width little-endian integers, a tag byte for options and alternatives, a
  continuation byte before each list element), so that the law is shown to be satisfiable for
  every record type and the properties can be evaluated on concrete stores.
\<close>

record 'a pcodec =
  penc :: "'a \<Rightarrow> bytes"
  pdec :: "bytes \<Rightarrow> ('a \<times> bytes) option"

definition pok :: "'a pcodec \<Rightarrow> bool" where
  "pok c \<longleftrightarrow> (\<forall>x r. pdec c (penc c x @ r) = Some (x, r))"

definition whole :: "'a pcodec \<Rightarrow> 'a codec" where
  "whole c = \<lparr>enc = penc c,
     dec = (\<lambda>bs. case pdec c bs of Some (x, []) \<Rightarrow> Ok x | _ \<Rightarrow> Err (Codec ''malformed record''))\<rparr>"

definition p_word :: "nat \<Rightarrow> 'w::len word pcodec" where
  "p_word n = \<lparr>penc = to_le_bytes n,
     pdec = (\<lambda>bs. if length bs < n then None else Some (from_le_bytes (take n bs), drop n bs))\<rparr>"

definition p_pair :: "'a pcodec \<Rightarrow> 'b pcodec \<Rightarrow> ('a \<times> 'b) pcodec" where
  "p_pair c d = \<lparr>penc = (\<lambda>(x, y). penc c x @ penc d y),
     pdec = (\<lambda>bs. Option.bind (pdec c bs) (\<lambda>(x, r). map_option (\<lambda>(y, s). ((x, y), s)) (pdec d r)))\<rparr>"

definition p_sum :: "'a pcodec \<Rightarrow> 'b pcodec \<Rightarrow> ('a + 'b) pcodec" where
  "p_sum c d = \<lparr>penc = (\<lambda>v. case v of Inl x \<Rightarrow> 0 # penc c x | Inr y \<Rightarrow> 1 # penc d y),
     pdec = (\<lambda>bs. case bs of [] \<Rightarrow> None
       | t # r \<Rightarrow> if t = 0 then map_option (\<lambda>(x, s). (Inl x, s)) (pdec c r)
                 else map_option (\<lambda>(y, s). (Inr y, s)) (pdec d r))\<rparr>"

definition p_unit :: "unit pcodec" where
  "p_unit = \<lparr>penc = (\<lambda>_. []), pdec = (\<lambda>bs. Some ((), bs))\<rparr>"

definition p_iso :: "('a \<Rightarrow> 'b) \<Rightarrow> ('b \<Rightarrow> 'a) \<Rightarrow> 'a pcodec \<Rightarrow> 'b pcodec" where
  "p_iso f g c = \<lparr>penc = (\<lambda>y. penc c (g y)),
     pdec = (\<lambda>bs. map_option (\<lambda>(x, r). (f x, r)) (pdec c bs))\<rparr>"

fun list_enc :: "('a \<Rightarrow> bytes) \<Rightarrow> 'a list \<Rightarrow> bytes" where
  "list_enc e [] = [0]"
| "list_enc e (x # xs) = 1 # e x @ list_enc e xs"

fun list_dec :: "nat \<Rightarrow> (bytes \<Rightarrow> ('a \<times> bytes) option) \<Rightarrow> bytes \<Rightarrow> ('a list \<times> bytes) option" where
  "list_dec 0 d bs = None"
| "list_dec (Suc n) d [] = None"
| "list_dec (Suc n) d (t # bs) =
     (if t = 0 then Some ([], bs)
      else Option.bind (d bs) (\<lambda>(x, r). map_option (\<lambda>(xs, s). (x # xs, s)) (list_dec n d r)))"

definition p_list :: "'a pcodec \<Rightarrow> 'a list pcodec" where
  "p_list c = \<lparr>penc = list_enc (penc c), pdec = (\<lambda>bs. list_dec (length bs) (pdec c) bs)\<rparr>"

definition p_option :: "'a pcodec \<Rightarrow> 'a option pcodec" where
  "p_option c =
     p_iso (\<lambda>s. case s of Inl _ \<Rightarrow> None | Inr x \<Rightarrow> Some x)
           (\<lambda>v. case v of None \<Rightarrow> Inl () | Some x \<Rightarrow> Inr x) (p_sum p_unit c)"

definition p_bool :: "bool pcodec" where
  "p_bool = p_iso (\<lambda>s. s = Inr ()) (\<lambda>v. if v then Inr () else Inl ()) (p_sum p_unit p_unit)"

abbreviation p_u8 :: "u8 pcodec" where "p_u8 \<equiv> p_word 1"
abbreviation p_u16 :: "u16 pcodec" where "p_u16 \<equiv> p_word 2"
abbreviation p_u32 :: "u32 pcodec" where "p_u32 \<equiv> p_word 4"
abbreviation p_u64 :: "u64 pcodec" where "p_u64 \<equiv> p_word 8"
abbreviation p_u128 :: "u128 pcodec" where "p_u128 \<equiv> p_word 16"
abbreviation p_bytes :: "bytes pcodec" where "p_bytes \<equiv> p_list p_u8"

definition p_string :: "string pcodec" where
  "p_string = p_iso (map char_of_byte) as_bytes p_bytes"

text \<open>A type with finitely many values, listed.\<close>

definition p_enum :: "'a list \<Rightarrow> ('a \<Rightarrow> nat) \<Rightarrow> 'a pcodec" where
  "p_enum vs ix = p_iso (\<lambda>w. vs ! unat w) (\<lambda>v. of_nat (ix v)) p_u8"

definition p_group :: "group_id pcodec" where
  "p_group = p_iso (\<lambda>s. case s of Inl _ \<Rightarrow> Meta | Inr p \<Rightarrow> Data p)
     (\<lambda>g. case g of Meta \<Rightarrow> Inl () | Data p \<Rightarrow> Inr p) (p_sum p_unit p_u16)"

definition p_log_id :: "log_id pcodec" where
  "p_log_id = p_iso (\<lambda>(t, i). LogId t i) (\<lambda>l. (li_term l, li_index l)) (p_pair p_u64 p_u64)"

definition p_serving :: "serving_state pcodec" where
  "p_serving = p_iso (\<lambda>v. if v then Serving else NonServing) (\<lambda>s. s = Serving) p_bool"

subsection \<open>Round trips\<close>

named_theorems pok_intros \<open>round trips of the codec combinators\<close>

lemma pok_word [pok_intros]: "LENGTH('w) \<le> 8 * n \<Longrightarrow> pok (p_word n :: 'w::len word pcodec)"
  by (simp add: pok_def p_word_def)

lemma pok_pair [pok_intros]: "pok c \<Longrightarrow> pok d \<Longrightarrow> pok (p_pair c d)"
  by (auto simp: pok_def p_pair_def)

lemma pok_sum [pok_intros]: "pok c \<Longrightarrow> pok d \<Longrightarrow> pok (p_sum c d)"
  by (auto simp: pok_def p_sum_def split: sum.split)

lemma pok_unit [pok_intros]: "pok p_unit"
  by (simp add: pok_def p_unit_def)

lemma pok_iso [pok_intros]: "pok c \<Longrightarrow> (\<And>y. f (g y) = y) \<Longrightarrow> pok (p_iso f g c)"
  by (simp add: pok_def p_iso_def)

lemma list_dec_enc:
  assumes "\<And>x r. d (e x @ r) = Some (x, r)"
  shows "length xs < n \<Longrightarrow> list_dec n d (list_enc e xs @ r) = Some (xs, r)"
proof (induction xs arbitrary: n)
  case Nil
  then show ?case by (cases n) auto
next
  case (Cons x xs)
  then show ?case by (cases n) (auto simp: assms)
qed

lemma length_list_enc: "length xs < length (list_enc e xs)"
  by (induction xs) auto

lemma pok_list [pok_intros]: "pok c \<Longrightarrow> pok (p_list c)"
  unfolding pok_def p_list_def
  by (auto intro!: list_dec_enc simp: trans_less_add1 [OF length_list_enc])

lemma pok_option [pok_intros]: "pok c \<Longrightarrow> pok (p_option c)"
  unfolding p_option_def by (intro pok_intros) (auto split: option.split)

lemma pok_bool [pok_intros]: "pok p_bool"
  unfolding p_bool_def by (intro pok_intros) simp

lemma pok_string [pok_intros]: "pok p_string"
  unfolding p_string_def by (intro pok_intros) (simp_all add: as_bytes_def o_def)

lemma pok_enum:
  "(\<And>v. ix v < 256) \<Longrightarrow> (\<And>v. vs ! ix v = v) \<Longrightarrow> pok (p_enum vs ix)"
  unfolding p_enum_def
  by (intro pok_intros) (simp_all add: unat_of_nat take_bit_eq_mod)

lemma pok_group [pok_intros]: "pok p_group"
  unfolding p_group_def by (intro pok_intros) (auto split: group_id.split)

lemma pok_log_id [pok_intros]: "pok p_log_id"
  unfolding p_log_id_def by (intro pok_intros) simp_all

lemma pok_serving [pok_intros]: "pok p_serving"
  unfolding p_serving_def by (intro pok_intros) (metis serving_state.exhaust)

lemma codec_ok_whole: "pok c \<Longrightarrow> codec_ok (whole c)"
  unfolding pok_def codec_ok_def whole_def
  by (metis (no_types, lifting) append_Nil2 case_prod_conv codec.select_convs list.simps(4) option.simps(5))

end
