(* ===== verification/Search_Def.thy ===== *)
theory Search_Def
  imports Ref_Codec "HOL-Library.Char_ord"
begin

section \<open>Search definitions and statistics (search/definition.rs, search/mod.rs)\<close>

text \<open>
  The index definitions the meta group replicates, their validation, generations and catalog
  records, and the shard statistics a coordinator sums.  The record codec and SHA-256 are
  parameters.  The lemmas
  characterise what a validated definition looks like, show that a generation stamped from a
  command passes the integrity check, and that summing shard statistics does not depend on
  the order in which shards answer.
\<close>

definition SEARCH_ENGINE_REVISION :: u32 where "SEARCH_ENGINE_REVISION = 2"
definition SEARCH_MAX_FIELDS :: nat where "SEARCH_MAX_FIELDS = 64"
definition SEARCH_MAX_NAME_BYTES :: nat where "SEARCH_MAX_NAME_BYTES = 128"
definition SEARCH_MAX_PATH_SEGMENTS :: nat where "SEARCH_MAX_PATH_SEGMENTS = 16"
definition SEARCH_MAX_DEFINITION_BYTES :: nat where "SEARCH_MAX_DEFINITION_BYTES = 64 * 1024"
definition SEARCH_MAX_INDEXES :: nat where "SEARCH_MAX_INDEXES = 64"
definition SEARCH_MAX_CATALOG_BYTES :: nat where "SEARCH_MAX_CATALOG_BYTES = 256 * 1024"
definition SEARCH_MAX_RETIRING_GENERATIONS :: nat where "SEARCH_MAX_RETIRING_GENERATIONS = 4096"
definition SEARCH_MAX_QUERY_TERMS :: nat where "SEARCH_MAX_QUERY_TERMS = 1024"
definition SEARCH_MAX_TERM_KEY_BYTES :: nat where "SEARCH_MAX_TERM_KEY_BYTES = 4 * 1024"
definition SEARCH_MAX_STATISTICS_BYTES :: nat where "SEARCH_MAX_STATISTICS_BYTES = 60 * 1024"

subsection \<open>Names\<close>

text \<open>
  \<open>char::is_control\<close> on UTF-8 text: the C0 range, DEL, and the C1 range, which is
  encoded as \<open>C2 80\<close> to \<open>C2 9F\<close>.
\<close>

fun has_control :: "string \<Rightarrow> bool" where
  "has_control [] = False"
| "has_control (c # cs) =
     ((of_char c :: nat) < 0x20 \<or> of_char c = (0x7F :: nat)
      \<or> (of_char c = (0xC2 :: nat)
         \<and> (case cs of [] \<Rightarrow> False | d # _ \<Rightarrow> 0x80 \<le> (of_char d :: nat) \<and> (of_char d :: nat) \<le> 0x9F))
      \<or> has_control cs)"

definition validate_name :: "string \<Rightarrow> string \<Rightarrow> unit result" where
  "validate_name kind name =
     (if name = [] \<or> length name > SEARCH_MAX_NAME_BYTES
      then Err (Search (kind @ '' must be 1..=128 bytes''))
      else if has_control name
      then Err (Search (kind @ '' contains a control character''))
      else Ok ())"

definition ascii_alphanumeric :: "char \<Rightarrow> bool" where
  "ascii_alphanumeric c \<longleftrightarrow>
     (CHR ''0'' \<le> c \<and> c \<le> CHR ''9'') \<or> (CHR ''A'' \<le> c \<and> c \<le> CHR ''Z'') \<or> (CHR ''a'' \<le> c \<and> c \<le> CHR ''z'')"

definition validate_index_name :: "string \<Rightarrow> unit result" where
  "validate_index_name name =
     rbind (validate_name ''index name'' name) (\<lambda>_.
     if \<not> list_all (\<lambda>c. ascii_alphanumeric c \<or> c \<in> {CHR ''-'', CHR ''_'', CHR ''.''}) name
     then Err (Search (''index name may contain only ASCII letters, digits, '-', '_', and '.'' @ [CHR 0x27]))
     else if list_all (\<lambda>c. c = CHR ''.'') name
     then Err (Search ''index name may not consist only of '.' characters'')
     else Ok ())"

subsection \<open>Definitions\<close>

datatype path_segment = PKey string | PIndex u32

datatype field_kind = Text string bool | Keyword | KU64 | KI64 | KF64 | KBool | Date | Facet

fun is_text :: "field_kind \<Rightarrow> bool" where
  "is_text (Text _ _) = True"
| "is_text _ = False"

record search_field =
  sf_name :: string
  sf_source_path :: "path_segment list"
  sf_kind :: field_kind
  sf_required :: bool
  sf_multi_valued :: bool
  sf_indexed :: bool
  sf_stored :: bool
  sf_fast :: bool

record search_index_definition =
  sd_document_type :: string
  sd_fields :: "search_field list"
  sd_default_search_fields :: "string list"

definition validate_segment :: "path_segment \<Rightarrow> unit result" where
  "validate_segment seg = (case seg of PKey key \<Rightarrow> validate_name ''path key'' key | PIndex _ \<Rightarrow> Ok ())"

text \<open>The body of the loop over the fields; \<open>names\<close> is the set of names seen so far.\<close>

definition validate_field :: "string set \<Rightarrow> search_field \<Rightarrow> unit result" where
  "validate_field names f =
     rbind (validate_name ''field'' (sf_name f)) (\<lambda>_.
     if starts_with (sf_name f) ''_'' then Err (Search (''field name '' @ debug_str (sf_name f) @ '' is reserved''))
     else if sf_name f \<in> names then Err (Search (''duplicate field name '' @ debug_str (sf_name f)))
     else if sf_source_path f = [] \<or> length (sf_source_path f) > SEARCH_MAX_PATH_SEGMENTS
     then Err (Search (''field '' @ debug_str (sf_name f) @ '' path must have 1..=16 segments''))
     else rbind (rfor (sf_source_path f) validate_segment) (\<lambda>_.
     if \<not> sf_indexed f \<and> \<not> sf_stored f \<and> \<not> sf_fast f
     then Err (Search (''field '' @ debug_str (sf_name f) @ '' has no index, store, or fast option''))
     else if sf_fast f \<and> is_text (sf_kind f) then Err (Search (''text field '' @ debug_str (sf_name f) @ '' cannot be fast''))
     else if sf_kind f = Facet \<and> (\<not> sf_indexed f \<or> \<not> sf_fast f)
     then Err (Search (''facet field '' @ debug_str (sf_name f) @ '' must be indexed and fast''))
     else case sf_kind f of
            Text tokenizer _ \<Rightarrow>
              rbind (validate_name ''tokenizer'' tokenizer) (\<lambda>_.
              if tokenizer \<notin> {''default'', ''raw'', ''en_stem'', ''whitespace''}
              then Err (Search (''field '' @ debug_str (sf_name f) @ '' uses unsupported tokenizer '' @ debug_str tokenizer))
              else Ok ())
          | _ \<Rightarrow> Ok ()))"

fun validate_fields :: "string set \<Rightarrow> search_field list \<Rightarrow> unit result" where
  "validate_fields names [] = Ok ()"
| "validate_fields names (f # fs) =
     rbind (validate_field names f) (\<lambda>_. validate_fields (insert (sf_name f) names) fs)"

fun validate_defaults :: "search_field list \<Rightarrow> string set \<Rightarrow> string list \<Rightarrow> unit result" where
  "validate_defaults flds seen [] = Ok ()"
| "validate_defaults flds seen (name # names) =
     (if name \<in> seen then Err (Search (''duplicate default search field '' @ debug_str name))
      else case List.find (\<lambda>f. sf_name f = name) flds of
             None \<Rightarrow> Err (Search (''unknown default search field '' @ debug_str name))
           | Some f \<Rightarrow>
               if \<not> sf_indexed f \<or> \<not> (is_text (sf_kind f) \<or> sf_kind f = Keyword)
               then Err (Search (''default search field '' @ debug_str name @ '' must be indexed text or keyword''))
               else validate_defaults flds (insert name seen) names)"

definition validate_definition ::
  "search_index_definition codec \<Rightarrow> search_index_definition \<Rightarrow> unit result" where
  "validate_definition c d =
     rbind (validate_name ''document type'' (sd_document_type d)) (\<lambda>_.
     if sd_fields d = [] \<or> length (sd_fields d) > SEARCH_MAX_FIELDS
     then Err (Search ''an index must define 1..=64 fields'')
     else rbind (validate_fields {} (sd_fields d)) (\<lambda>_.
     rbind (validate_defaults (sd_fields d) {} (sd_default_search_fields d)) (\<lambda>_.
     if length (enc c d) > SEARCH_MAX_DEFINITION_BYTES
     then Err (Search ''encoded index definition exceeds 65536 bytes'')
     else Ok ())))"

definition definition_hash ::
  "(bytes \<Rightarrow> digest32) \<Rightarrow> search_index_definition codec \<Rightarrow> search_index_definition \<Rightarrow> digest32 result" where
  "definition_hash sha256 c d =
     rbind (validate_definition c d) (\<lambda>_. Ok (sha256 (enc c d)))"

subsection \<open>Generations and catalog records\<close>

record search_index_generation =
  sg_id :: u64
  sg_definition_hash :: digest32
  sg_engine_revision :: u32
  sg_definition :: search_index_definition

definition with_revision ::
  "(bytes \<Rightarrow> digest32) \<Rightarrow> search_index_definition codec \<Rightarrow> u64 \<Rightarrow> u32 \<Rightarrow> search_index_definition
    \<Rightarrow> search_index_generation result" where
  "with_revision sha256 c gid engine_revision d =
     (if gid = 0 then Err (Search ''index generation must be non-zero'')
      else if engine_revision = 0 then Err (Search ''index engine revision must be non-zero'')
      else rbind (definition_hash sha256 c d) (\<lambda>h.
        Ok \<lparr>sg_id = gid, sg_definition_hash = h, sg_engine_revision = engine_revision,
            sg_definition = d\<rparr>))"

definition generation_new ::
  "(bytes \<Rightarrow> digest32) \<Rightarrow> search_index_definition codec \<Rightarrow> u64 \<Rightarrow> search_index_definition
    \<Rightarrow> search_index_generation result" where
  "generation_new sha256 c gid d = with_revision sha256 c gid SEARCH_ENGINE_REVISION d"

definition validate_integrity ::
  "(bytes \<Rightarrow> digest32) \<Rightarrow> search_index_definition codec \<Rightarrow> search_index_generation \<Rightarrow> unit result" where
  "validate_integrity sha256 c g =
     (if sg_id g = 0 then Err (Search ''index generation must be non-zero'')
      else if sg_engine_revision g = 0 then Err (Search ''index engine revision must be non-zero'')
      else rbind (definition_hash sha256 c (sg_definition g)) (\<lambda>h.
        if sg_definition_hash g \<noteq> h then Err (Search ''index definition hash mismatch'')
        else Ok ()))"

definition validate_identity ::
  "(bytes \<Rightarrow> digest32) \<Rightarrow> search_index_definition codec \<Rightarrow> search_index_generation \<Rightarrow> unit result" where
  "validate_identity sha256 c g =
     rbind (validate_integrity sha256 c g) (\<lambda>_.
     if sg_engine_revision g \<noteq> SEARCH_ENGINE_REVISION
     then Err (Search ''index engine revision is not supported'')
     else Ok ())"

record search_index_record =
  sr_name :: string
  sr_active :: "search_index_generation option"
  sr_building :: "search_index_generation option"
  sr_retiring :: "u64 list"

definition opt_check :: "('a \<Rightarrow> unit result) \<Rightarrow> 'a option \<Rightarrow> unit result" where
  "opt_check f x = (case x of Some v \<Rightarrow> f v | None \<Rightarrow> Ok ())"

definition validate_record ::
  "(bytes \<Rightarrow> digest32) \<Rightarrow> search_index_definition codec \<Rightarrow> search_index_record codec
    \<Rightarrow> search_index_record \<Rightarrow> unit result" where
  "validate_record sha256 c cr r =
     rbind (validate_index_name (sr_name r)) (\<lambda>_.
     if length (sr_retiring r) > SEARCH_MAX_RETIRING_GENERATIONS
     then Err (Search ''search index has more than 4096 retiring generations'')
     else rbind (opt_check (validate_integrity sha256 c) (sr_active r)) (\<lambda>_.
     rbind (opt_check (validate_integrity sha256 c) (sr_building r)) (\<lambda>_.
     if length (enc cr r) > SEARCH_MAX_CATALOG_BYTES
     then Err (Search ''encoded search catalog record exceeds 262144 bytes'')
     else Ok ())))"

record search_index_ready =
  ry_generation :: u64
  ry_definition_hash :: digest32
  ry_engine_revision :: u32
  ry_group :: group_id
  ry_node_id :: node_id
  ry_voters_log_id :: log_id
  ry_projection_epoch :: u64
  ry_source_log_id :: log_id

subsection \<open>Queries\<close>

datatype search_query = QText string "string list" | MatchAll

fun validate_query_fields :: "string set \<Rightarrow> string list \<Rightarrow> unit result" where
  "validate_query_fields seen [] = Ok ()"
| "validate_query_fields seen (f # fs) =
     rbind (validate_name ''query field'' f) (\<lambda>_.
     if f \<in> seen then Err (Search ''duplicate query field'')
     else validate_query_fields (insert f seen) fs)"

fun validate_query :: "search_query \<Rightarrow> unit result" where
  "validate_query MatchAll = Ok ()"
| "validate_query (QText query flds) =
     (if query = [] \<or> length query > 4 * 1024
      then Err (Search ''text query must be 1..=4096 bytes'')
      else if list_ex (\<lambda>c. c \<in> set ''*?~/[]{}:'') query
      then Err (Search ''wildcard, fuzzy, regex, range, and field-override syntax is disabled'')
      else if length flds > SEARCH_MAX_FIELDS
      then Err (Search ''query fields exceed the 64 field limit'')
      else validate_query_fields {} flds)"

subsection \<open>Shard statistics\<close>

record shard_statistics =
  ss_total_docs :: u64
  ss_field_tokens :: "(string \<times> u64) list"
  ss_term_doc_freq :: "(bytes \<times> u64) list"

definition validate_statistics :: "shard_statistics codec \<Rightarrow> shard_statistics \<Rightarrow> unit result" where
  "validate_statistics c s =
     (if length (ss_term_doc_freq s) > SEARCH_MAX_QUERY_TERMS
         \<or> length (ss_field_tokens s) > SEARCH_MAX_FIELDS + 3
      then Err (Search ''shard statistics exceed the query term or field limit'')
      else rbind (rfor (ss_field_tokens s) (\<lambda>(name, _). validate_name ''statistics field'' name)) (\<lambda>_.
      rbind (rfor (ss_term_doc_freq s) (\<lambda>(term, _).
               if length term > SEARCH_MAX_TERM_KEY_BYTES
               then Err (Search ''statistics term key is too long'') else Ok ())) (\<lambda>_.
      if length (enc c s) > SEARCH_MAX_STATISTICS_BYTES
      then Err (Search ''shard statistics exceed the byte limit'')
      else Ok ())))"

definition merge_sum_one :: "('k::linorder \<times> u64) \<Rightarrow> ('k \<times> u64) list \<Rightarrow> ('k \<times> u64) list" where
  "merge_sum_one kv into =
     (case binary_search_by_key fst into (fst kv) of
        Inr at \<Rightarrow> into[at := (fst (into ! at), saturating_add (snd (into ! at)) (snd kv))]
      | Inl at \<Rightarrow> vec_insert into at kv)"

definition merge_sums :: "('k::linorder \<times> u64) list \<Rightarrow> ('k \<times> u64) list \<Rightarrow> ('k \<times> u64) list" where
  "merge_sums into from = fold merge_sum_one from into"

definition merge :: "shard_statistics \<Rightarrow> shard_statistics \<Rightarrow> shard_statistics" where
  "merge s other =
     s\<lparr>ss_total_docs := saturating_add (ss_total_docs s) (ss_total_docs other),
       ss_field_tokens := merge_sums (ss_field_tokens s) (ss_field_tokens other),
       ss_term_doc_freq := merge_sums (ss_term_doc_freq s) (ss_term_doc_freq other)\<rparr>"

subsection \<open>Validated definitions\<close>

lemma validate_name_Ok:
  "validate_name kind name = Ok () \<longleftrightarrow>
     name \<noteq> [] \<and> length name \<le> SEARCH_MAX_NAME_BYTES \<and> \<not> has_control name"
  by (auto simp: validate_name_def)

lemma validate_index_name_length: "validate_index_name name = Ok () \<Longrightarrow> length name \<le> 128 \<and> name \<noteq> []"
  by (auto simp: validate_index_name_def validate_name_Ok SEARCH_MAX_NAME_BYTES_def)

lemma validate_field_names:
  "validate_field names f = Ok () \<longleftrightarrow> sf_name f \<notin> names \<and> validate_field {} f = Ok ()"
  by (auto simp: validate_field_def)

lemma validate_fields_Ok:
  "validate_fields names fs = Ok () \<longleftrightarrow>
     distinct (map sf_name fs) \<and> sf_name ` set fs \<inter> names = {}
     \<and> (\<forall>f \<in> set fs. validate_field {} f = Ok ())"
proof (induction fs arbitrary: names)
  case (Cons f fs)
  show ?case
    using validate_field_names [of names f] by (auto simp: Cons.IH)
qed simp

lemma validate_defaults_Ok:
  "validate_defaults flds seen names = Ok () \<Longrightarrow>
     distinct names \<and> set names \<inter> seen = {}
     \<and> (\<forall>n \<in> set names. \<exists>f \<in> set flds. sf_name f = n \<and> sf_indexed f \<and> (is_text (sf_kind f) \<or> sf_kind f = Keyword))"
proof (induction names arbitrary: seen)
  case (Cons n names)
  then show ?case
    by (fastforce split: if_splits option.splits simp: find_Some_iff)
qed simp

lemma with_revision_integrity:
  "with_revision sha256 c gid er d = Ok g \<Longrightarrow> validate_integrity sha256 c g = Ok ()"
  by (auto simp: with_revision_def validate_integrity_def split: if_splits)

lemma with_revision_fields:
  "with_revision sha256 c gid er d = Ok g \<Longrightarrow>
     sg_id g = gid \<and> sg_engine_revision g = er \<and> sg_definition g = d \<and> gid \<noteq> 0 \<and> er \<noteq> 0
     \<and> sg_definition_hash g = sha256 (enc c d) \<and> validate_definition c d = Ok ()"
  by (auto simp: with_revision_def definition_hash_def split: if_splits)

subsection \<open>Summing statistics\<close>

lemma merge_sum_one_upsert:
  assumes "strictly_sorted fst into"
  shows "merge_sum_one (k, v) into =
    upsert_by_key fst into (k, case map_of into k of None \<Rightarrow> v | Some u \<Rightarrow> saturating_add u v)"
proof (cases "binary_search_by_key fst into k")
  case (Inl i)
  then have "map_of into k = None"
    using binary_search_found_iff [OF assms, of k] by (simp add: is_err_def map_of_eq_None_iff)
  with Inl show ?thesis by (simp add: merge_sum_one_def upsert_by_key_def)
next
  case (Inr i)
  note found = binary_search_by_key_Inr [OF assms Inr]
  have "into ! i = (k, snd (into ! i))" using found by (metis prod.collapse)
  then have "map_of into k = Some (snd (into ! i))"
    using found(1) sorted_map_of_Some [OF assms] by (metis nth_mem)
  with Inr found show ?thesis by (simp add: merge_sum_one_def upsert_by_key_def)
qed

lemma strictly_sorted_merge_one:
  "strictly_sorted fst into \<Longrightarrow> strictly_sorted fst (merge_sum_one kv into)"
  by (cases kv) (simp add: merge_sum_one_upsert strictly_sorted_upsert)

lemma merge_sum_one_commute:
  assumes "strictly_sorted fst into"
  shows "merge_sum_one x (merge_sum_one y into) = merge_sum_one y (merge_sum_one x into)"
proof (rule sorted_map_of_ext)
  obtain j v k w where [simp]: "x = (j, v)" "y = (k, w)" by (cases x; cases y)
  fix i show "map_of (merge_sum_one x (merge_sum_one y into)) i = map_of (merge_sum_one y (merge_sum_one x into)) i"
    using assms
    by (auto simp: merge_sum_one_upsert map_of_upsert strictly_sorted_upsert
        saturating_add_commute saturating_add_assoc split: option.split)
      (metis saturating_add_assoc saturating_add_commute)
qed (simp_all add: assms strictly_sorted_merge_one)

lemma strictly_sorted_merge_sums:
  "strictly_sorted fst into \<Longrightarrow> strictly_sorted fst (merge_sums into from)"
  unfolding merge_sums_def by (rule fold_invariant) (simp_all add: strictly_sorted_merge_one)

lemma merge_sums_commute:
  assumes "strictly_sorted fst into"
  shows "merge_sums (merge_sums into xs) ys = merge_sums (merge_sums into ys) xs"
proof -
  have "fold merge_sum_one (xs @ ys) into = fold merge_sum_one (ys @ xs) into"
    by (rule fold_permute [where P = "strictly_sorted fst"])
      (simp_all add: assms strictly_sorted_merge_one merge_sum_one_commute)
  then show ?thesis by (simp add: merge_sums_def)
qed

definition statistics_wf :: "shard_statistics \<Rightarrow> bool" where
  "statistics_wf s \<longleftrightarrow> strictly_sorted fst (ss_field_tokens s) \<and> strictly_sorted fst (ss_term_doc_freq s)"

lemma statistics_wf_merge: "statistics_wf s \<Longrightarrow> statistics_wf (merge s t)"
  by (simp add: statistics_wf_def merge_def strictly_sorted_merge_sums)

lemma merge_commute: "statistics_wf s \<Longrightarrow> merge (merge s t) u = merge (merge s u) t"
  by (simp add: statistics_wf_def merge_def merge_sums_commute saturating_add_assoc
      saturating_add_commute [of "ss_total_docs t"])

lemma merge_permute:
  "statistics_wf s \<Longrightarrow> mset xs = mset ys \<Longrightarrow>
   fold (\<lambda>t s. merge s t) xs s = fold (\<lambda>t s. merge s t) ys s"
  by (rule fold_permute [where P = statistics_wf]) (simp_all add: statistics_wf_merge merge_commute)

subsection \<open>Reference codecs\<close>

definition p_segment :: "path_segment pcodec" where
  "p_segment = p_iso (\<lambda>v. case v of Inl s \<Rightarrow> PKey s | Inr i \<Rightarrow> PIndex i)
     (\<lambda>v. case v of PKey s \<Rightarrow> Inl s | PIndex i \<Rightarrow> Inr i) (p_sum p_string p_u32)"

definition p_kind :: "field_kind pcodec" where
  "p_kind = p_iso (\<lambda>v. case v of Inl (t, p) \<Rightarrow> Text t p
       | Inr w \<Rightarrow> [Keyword, KU64, KI64, KF64, KBool, Date, Facet] ! unat (w :: u8))
     (\<lambda>k. case k of Text t p \<Rightarrow> Inl (t, p) | Keyword \<Rightarrow> Inr 0 | KU64 \<Rightarrow> Inr 1 | KI64 \<Rightarrow> Inr 2
       | KF64 \<Rightarrow> Inr 3 | KBool \<Rightarrow> Inr 4 | Date \<Rightarrow> Inr 5 | Facet \<Rightarrow> Inr 6)
     (p_sum (p_pair p_string p_bool) p_u8)"

definition p_field :: "search_field pcodec" where
  "p_field = p_iso
     (\<lambda>(n, ps, k, rq, mv, ix, st, fa). \<lparr>sf_name = n, sf_source_path = ps, sf_kind = k, sf_required = rq,
        sf_multi_valued = mv, sf_indexed = ix, sf_stored = st, sf_fast = fa\<rparr>)
     (\<lambda>f. (sf_name f, sf_source_path f, sf_kind f, sf_required f, sf_multi_valued f, sf_indexed f,
        sf_stored f, sf_fast f))
     (p_pair p_string (p_pair (p_list p_segment) (p_pair p_kind (p_pair p_bool (p_pair p_bool
        (p_pair p_bool (p_pair p_bool p_bool)))))))"

definition p_definition :: "search_index_definition pcodec" where
  "p_definition = p_iso
     (\<lambda>(t, fs, ds). \<lparr>sd_document_type = t, sd_fields = fs, sd_default_search_fields = ds\<rparr>)
     (\<lambda>d. (sd_document_type d, sd_fields d, sd_default_search_fields d))
     (p_pair p_string (p_pair (p_list p_field) (p_list p_string)))"

definition p_generation :: "search_index_generation pcodec" where
  "p_generation = p_iso
     (\<lambda>(i, h, r, d). \<lparr>sg_id = i, sg_definition_hash = h, sg_engine_revision = r, sg_definition = d\<rparr>)
     (\<lambda>g. (sg_id g, sg_definition_hash g, sg_engine_revision g, sg_definition g))
     (p_pair p_u64 (p_pair p_bytes (p_pair p_u32 p_definition)))"

definition p_index_record :: "search_index_record pcodec" where
  "p_index_record = p_iso
     (\<lambda>(n, a, bu, rs). \<lparr>sr_name = n, sr_active = a, sr_building = bu, sr_retiring = rs\<rparr>)
     (\<lambda>r. (sr_name r, sr_active r, sr_building r, sr_retiring r))
     (p_pair p_string (p_pair (p_option p_generation) (p_pair (p_option p_generation) (p_list p_u64))))"

definition p_ready :: "search_index_ready pcodec" where
  "p_ready = p_iso
     (\<lambda>(gn, h, r, g, n, vl, pe, sl). \<lparr>ry_generation = gn, ry_definition_hash = h, ry_engine_revision = r,
        ry_group = g, ry_node_id = n, ry_voters_log_id = vl, ry_projection_epoch = pe, ry_source_log_id = sl\<rparr>)
     (\<lambda>y. (ry_generation y, ry_definition_hash y, ry_engine_revision y, ry_group y, ry_node_id y,
        ry_voters_log_id y, ry_projection_epoch y, ry_source_log_id y))
     (p_pair p_u64 (p_pair p_bytes (p_pair p_u32 (p_pair p_group (p_pair p_u64 (p_pair p_log_id
        (p_pair p_u64 p_log_id)))))))"

lemma pok_segment [pok_intros]: "pok p_segment"
  unfolding p_segment_def by (intro pok_intros) (auto split: path_segment.split)

lemma pok_kind [pok_intros]: "pok p_kind"
  unfolding p_kind_def by (intro pok_intros) (auto split: field_kind.split)

lemma pok_field [pok_intros]: "pok p_field"
  unfolding p_field_def by (intro pok_intros) simp_all

lemma pok_definition [pok_intros]: "pok p_definition"
  unfolding p_definition_def by (intro pok_intros) simp_all

lemma pok_generation [pok_intros]: "pok p_generation"
  unfolding p_generation_def by (intro pok_intros) simp_all

lemma pok_index_record [pok_intros]: "pok p_index_record"
  unfolding p_index_record_def by (intro pok_intros) simp_all

lemma pok_ready [pok_intros]: "pok p_ready"
  unfolding p_ready_def by (intro pok_intros) simp_all

end
