(* ===== verification/Outbox.thy ===== *)
theory Outbox
  imports Search_Def
begin

section \<open>The search outbox and its consumers (search/outbox.rs, storage/rocks.rs)\<close>

text \<open>
  Every applied data mutation leaves a dirty-key row in the default column family; each local
  index generation is a consumer with a durable watermark, and pruning may delete only rows
  that every consumer still holding retention has covered.  The definitions follow
  \<open>search/outbox.rs\<close> and the search section of \<open>storage/rocks.rs\<close>.  The lemmas show
  that outbox keys round-trip and sort by epoch and log index, that the early \<open>break\<close> of
  the pruning scan loses nothing, and that pruning deletes exactly the covered rows and no
  other record.
\<close>

subsection \<open>Rows\<close>

text \<open>openraft's log id: the committed leader (term and node) and the index.\<close>

datatype raft_log_id = RaftLogId (rl_term: u64) (rl_node: node_id) (rl_index: u64)

record search_outbox_entry =
  oe_epoch :: u64
  oe_source_log_id :: raft_log_id
  oe_user_key :: bytes

record index_checkpoint =
  ic_projection_epoch :: u64
  ic_definition_hash :: digest32
  ic_engine_revision :: u32
  ic_source_log_id :: "raft_log_id option"

record search_consumer_state =
  cs_definition_hash :: digest32
  cs_engine_revision :: u32
  cs_checkpoint :: "index_checkpoint option"
  cs_retention_floor :: "(u64 \<times> u64) option"
  cs_needs_rebuild :: bool

definition holds_retention :: "search_consumer_state \<Rightarrow> bool" where
  "holds_retention s \<longleftrightarrow> \<not> cs_needs_rebuild s"

record search_consumer_registration =
  scr_created :: bool
  scr_needs_rebuild :: bool

definition encode_outbox_key :: "group_id \<Rightarrow> u64 \<Rightarrow> raft_log_id \<Rightarrow> bytes \<Rightarrow> bytes result" where
  "encode_outbox_key g epoch lid ukey =
     (if length ukey \<ge> 2 ^ 32
      then Err (Search ''user key is too large for search outbox'')
      else Ok (search_outbox_prefix g
        @ to_be_bytes 8 epoch
        @ to_be_bytes 8 (rl_index lid)
        @ to_be_bytes 8 (rl_term lid)
        @ to_be_bytes 8 (rl_node lid)
        @ to_be_bytes 4 (of_nat (length ukey) :: u32)
        @ ukey))"

definition decode_outbox_key :: "group_id \<Rightarrow> bytes \<Rightarrow> search_outbox_entry result" where
  "decode_outbox_key g key =
     rbind (ok_or (strip_prefix (search_outbox_prefix g) key)
              (Corrupt ''search outbox'' ''key has the wrong group prefix'')) (\<lambda>bs.
     let HEADER = 8 * 4 + 4 in
     if length bs < HEADER
     then Err (Corrupt ''search outbox'' ''key is shorter than its fixed header'')
     else let read_u64 = (\<lambda>at. from_be_bytes (take 8 (drop at bs)) :: u64);
              key_len = unat (from_be_bytes (take 4 (drop 32 bs)) :: u32)
          in if length bs \<noteq> HEADER + key_len
             then Err (Corrupt ''search outbox'' (''encoded user-key length is '' @ decimal key_len
                    @ '', actual is '' @ decimal (length bs - HEADER)))
             else Ok \<lparr>oe_epoch = read_u64 0,
                      oe_source_log_id = RaftLogId (read_u64 16) (read_u64 24) (read_u64 8),
                      oe_user_key = drop HEADER bs\<rparr>)"

subsection \<open>Consumers\<close>

record search_codecs = store_codecs +
  c_consumer :: "search_consumer_state codec"
  c_definition :: "search_index_definition codec"

definition search_projection_epoch :: "('a search_codecs_scheme) \<Rightarrow> storage \<Rightarrow> group_id \<Rightarrow> u64 result" where
  "search_projection_epoch C st g =
     (case g of
        Meta \<Rightarrow> Err (Search ''search projection requires a data group'')
      | Data _ \<Rightarrow> rbind (get_local (c_u64 C) st (search_epoch_key g)) (\<lambda>stored.
          Ok (case stored of Some e \<Rightarrow> e | None \<Rightarrow> 1)))"

definition scan_search_outbox :: "storage \<Rightarrow> group_id \<Rightarrow> u64 \<Rightarrow> search_outbox_entry list result" where
  "scan_search_outbox st g epoch =
     rmapM (\<lambda>kv. decode_outbox_key g (fst kv))
       (cf_iter_prefix (search_outbox_epoch_prefix g epoch) (db_default st))"

definition register_search_consumer ::
  "('a search_codecs_scheme) \<Rightarrow> (bytes \<Rightarrow> digest32) \<Rightarrow> group_id \<Rightarrow> string \<Rightarrow> search_index_generation
    \<Rightarrow> storage \<Rightarrow> storage \<times> search_consumer_registration result" where
  "register_search_consumer C sha256 g name gen st =
     sbind (st, validate_index_name name) (\<lambda>st _.
     sbind (st, validate_identity sha256 (c_definition C) gen) (\<lambda>st _.
     let key = search_consumer_key g name (sg_id gen) in
     sbind (st, get_local (c_consumer C) st key) (\<lambda>st existing.
     case existing of
       Some e \<Rightarrow>
         if cs_definition_hash e \<noteq> sg_definition_hash gen \<or> cs_engine_revision e \<noteq> sg_engine_revision gen
         then (st, Err (Corrupt ''search consumer'' ''consumer identity differs from catalog generation''))
         else (st, Ok \<lparr>scr_created = False, scr_needs_rebuild = (cs_checkpoint e = None)\<rparr>)
     | None \<Rightarrow>
         (put_local (c_consumer C) key
            \<lparr>cs_definition_hash = sg_definition_hash gen, cs_engine_revision = sg_engine_revision gen,
             cs_checkpoint = None, cs_retention_floor = None, cs_needs_rebuild = False\<rparr> st,
          Ok \<lparr>scr_created = True, scr_needs_rebuild = True\<rparr>))))"

definition record_search_consumer_retention_floor ::
  "('a search_codecs_scheme) \<Rightarrow> group_id \<Rightarrow> string \<Rightarrow> u64 \<Rightarrow> u64 \<times> u64 \<Rightarrow> storage
    \<Rightarrow> storage \<times> unit result" where
  "record_search_consumer_retention_floor C g name gen flr st =
     (let key = search_consumer_key g name gen in
      sbind (st, get_local (c_consumer C) st key) (\<lambda>st s.
      case s of
        None \<Rightarrow> (st, Ok ())
      | Some s \<Rightarrow> (put_local (c_consumer C) key (s\<lparr>cs_retention_floor := Some flr\<rparr>) st, Ok ())))"

definition search_consumer_needs_rebuild ::
  "('a search_codecs_scheme) \<Rightarrow> storage \<Rightarrow> group_id \<Rightarrow> string \<Rightarrow> u64 \<Rightarrow> bool result" where
  "search_consumer_needs_rebuild C st g name gen =
     rbind (get_local (c_consumer C) st (search_consumer_key g name gen)) (\<lambda>s.
       Ok (case s of Some s \<Rightarrow> cs_needs_rebuild s | None \<Rightarrow> False))"

definition search_consumer_checkpoint ::
  "('a search_codecs_scheme) \<Rightarrow> storage \<Rightarrow> group_id \<Rightarrow> string \<Rightarrow> u64 \<Rightarrow> index_checkpoint option result" where
  "search_consumer_checkpoint C st g name gen =
     rbind (get_local (c_consumer C) st (search_consumer_key g name gen)) (\<lambda>s.
       Ok (Option.bind s cs_checkpoint))"

definition record_search_consumer_checkpoint ::
  "('a search_codecs_scheme) \<Rightarrow> group_id \<Rightarrow> string \<Rightarrow> u64 \<Rightarrow> index_checkpoint \<Rightarrow> storage
    \<Rightarrow> storage \<times> unit result" where
  "record_search_consumer_checkpoint C g name gen cp st =
     (let key = search_consumer_key g name gen in
      sbind (st, get_local (c_consumer C) st key) (\<lambda>st s.
      case s of
        None \<Rightarrow> (st, Err (Corrupt ''search consumer'' ''checkpoint written for an unregistered consumer''))
      | Some s \<Rightarrow>
          if cs_definition_hash s \<noteq> ic_definition_hash cp \<or> cs_engine_revision s \<noteq> ic_engine_revision cp
          then (st, Err (Corrupt ''search consumer'' ''checkpoint identity differs from consumer''))
          else if cs_needs_rebuild s
          then (st, Err (Search ''search consumer was released from retention while projection was running''))
          else (put_local (c_consumer C) key
                  (s\<lparr>cs_checkpoint := Some cp, cs_needs_rebuild := False\<rparr>) st, Ok ())))"

definition search_outbox_usage :: "storage \<Rightarrow> group_id \<Rightarrow> u64 \<times> u64" where
  "search_outbox_usage st g =
     (let rows = cf_iter_prefix (search_outbox_prefix g) (db_default st)
      in (of_nat (length rows), sum_list (map (\<lambda>kv. of_nat (length (fst kv))) rows)))"

definition search_consumers ::
  "('a search_codecs_scheme) \<Rightarrow> storage \<Rightarrow> group_id \<Rightarrow> (bytes \<times> search_consumer_state) list result" where
  "search_consumers C st g =
     rmapM (\<lambda>kv. rbind (dec (c_consumer C) (snd kv)) (\<lambda>s. Ok (fst kv, s)))
       (cf_iter_prefix (search_consumer_prefix g) (db_default st))"

definition begin_search_consumer_rebuild ::
  "('a search_codecs_scheme) \<Rightarrow> group_id \<Rightarrow> string \<Rightarrow> search_index_generation \<Rightarrow> storage
    \<Rightarrow> storage \<times> unit result" where
  "begin_search_consumer_rebuild C g name gen st =
     (let key = search_consumer_key g name (sg_id gen) in
      sbind (st, get_local (c_consumer C) st key) (\<lambda>st s.
      case s of
        None \<Rightarrow> (st, Err (Corrupt ''search consumer'' ''rebuild started for an unregistered consumer''))
      | Some s \<Rightarrow>
          if cs_definition_hash s \<noteq> sg_definition_hash gen \<or> cs_engine_revision s \<noteq> sg_engine_revision gen
          then (st, Err (Corrupt ''search consumer'' ''rebuild identity differs from consumer''))
          else (put_local (c_consumer C) key
                  (s\<lparr>cs_checkpoint := None, cs_needs_rebuild := False\<rparr>) st, Ok ())))"

subsection \<open>Pruning\<close>

text \<open>
  The watermark of one consumer that holds retention; \<open>None\<close> is the early return that
  keeps every row.
\<close>

definition prune_watermark :: "u64 \<Rightarrow> search_consumer_state \<Rightarrow> u64 option" where
  "prune_watermark epoch s =
     (case (cs_checkpoint s, cs_retention_floor s) of
        (Some cp, _) \<Rightarrow>
          if ic_projection_epoch cp \<noteq> epoch then None
          else map_option rl_index (ic_source_log_id cp)
      | (None, Some (floor_epoch, flr)) \<Rightarrow> if floor_epoch = epoch then Some flr else None
      | (None, None) \<Rightarrow> None)"

fun prune_minimum :: "u64 \<Rightarrow> u64 option \<Rightarrow> search_consumer_state list \<Rightarrow> u64 option option" where
  "prune_minimum epoch minimum [] = Some minimum"
| "prune_minimum epoch minimum (c # cs) =
     (case prune_watermark epoch c of
        None \<Rightarrow> None
      | Some w \<Rightarrow> prune_minimum epoch (Some (case minimum of None \<Rightarrow> w | Some lowest \<Rightarrow> min lowest w)) cs)"

definition covered :: "search_consumer_state list \<Rightarrow> u64 \<Rightarrow> u64 option \<Rightarrow> search_outbox_entry \<Rightarrow> bool" where
  "covered consumers epoch minimum e \<longleftrightarrow>
     consumers = [] \<or> oe_epoch e < epoch
     \<or> (oe_epoch e = epoch
        \<and> (case minimum of Some m \<Rightarrow> rl_index (oe_source_log_id e) \<le> m | None \<Rightarrow> False))"

fun prune_scan :: "(search_outbox_entry \<Rightarrow> bool) \<Rightarrow> group_id \<Rightarrow> bytes list \<Rightarrow> bytes list result" where
  "prune_scan cov g [] = Ok []"
| "prune_scan cov g (k # ks) =
     rbind (decode_outbox_key g k) (\<lambda>e.
       if cov e then rbind (prune_scan cov g ks) (\<lambda>ds. Ok (k # ds)) else Ok [])"

definition prune_search_outbox ::
  "('a search_codecs_scheme) \<Rightarrow> group_id \<Rightarrow> storage \<Rightarrow> storage \<times> nat result" where
  "prune_search_outbox C g st =
     sbind (st, search_consumers C st g) (\<lambda>st all.
     let consumers = filter holds_retention (map snd all) in
     sbind (st, search_projection_epoch C st g) (\<lambda>st epoch.
     case prune_minimum epoch None consumers of
       None \<Rightarrow> (st, Ok 0)
     | Some minimum \<Rightarrow>
         sbind (st, prune_scan (covered consumers epoch minimum) g
                      (map fst (cf_iter_prefix (search_outbox_prefix g) (db_default st)))) (\<lambda>st deleted.
         (if deleted \<noteq> [] then db_write (map BDelete deleted) st else st, Ok (length deleted)))))"

definition unregister_search_consumer ::
  "('a search_codecs_scheme) \<Rightarrow> group_id \<Rightarrow> string \<Rightarrow> u64 \<Rightarrow> storage \<Rightarrow> storage \<times> unit result" where
  "unregister_search_consumer C g name gen st =
     sbind (prune_search_outbox C g (delete_local (search_consumer_key g name gen) st)) (\<lambda>st _. (st, Ok ()))"

subsection \<open>The lag budget\<close>

definition lag_watermark :: "u64 \<Rightarrow> search_consumer_state \<Rightarrow> u64" where
  "lag_watermark epoch s =
     (case (cs_checkpoint s, cs_retention_floor s) of
        (Some cp, _) \<Rightarrow> (case ic_source_log_id cp of Some lid \<Rightarrow> rl_index lid | None \<Rightarrow> 0)
      | (None, Some (floor_epoch, flr)) \<Rightarrow> if floor_epoch = epoch then flr else 0
      | (None, None) \<Rightarrow> 0)"

fun laggard_step ::
  "u64 \<Rightarrow> bytes \<times> search_consumer_state \<Rightarrow> (bytes \<times> search_consumer_state \<times> u64) option
    \<Rightarrow> (bytes \<times> search_consumer_state \<times> u64) option" where
  "laggard_step epoch (key, s) laggard =
     (if \<not> holds_retention s then laggard
      else let w = lag_watermark epoch s in
           case laggard of
             None \<Rightarrow> Some (key, s, w)
           | Some (k', s', lowest) \<Rightarrow> if w < lowest then Some (key, s, w) else laggard)"

definition enforce_search_outbox_bounds ::
  "('a search_codecs_scheme) \<Rightarrow> group_id \<Rightarrow> u64 \<Rightarrow> u64 \<Rightarrow> storage
    \<Rightarrow> storage \<times> (string \<times> u64) option result" where
  "enforce_search_outbox_bounds C g max_entries max_bytes st =
     (let (entries, size) = search_outbox_usage st g in
      if entries \<le> max_entries \<and> size \<le> max_bytes then (st, Ok None)
      else
      sbind (st, search_projection_epoch C st g) (\<lambda>st epoch.
      sbind (st, search_consumers C st g) (\<lambda>st consumers.
      case fold (laggard_step epoch) consumers None of
        None \<Rightarrow> (st, Ok None)
      | Some (key, s, _) \<Rightarrow>
          let st = put_local (c_consumer C) key
                     (s\<lparr>cs_needs_rebuild := True, cs_checkpoint := None, cs_retention_floor := None\<rparr>) st in
          sbind (st, decode_search_consumer_key g key) (\<lambda>st identity.
          sbind (prune_search_outbox C g st) (\<lambda>st _.
          (st, Ok (Some identity)))))))"

subsection \<open>Key layout\<close>

lemma decode_encode_outbox_key:
  assumes "encode_outbox_key g epoch lid ukey = Ok k"
  shows "decode_outbox_key g k =
    Ok \<lparr>oe_epoch = epoch, oe_source_log_id = lid, oe_user_key = ukey\<rparr>"
proof -
  have len: "length ukey < 2 ^ 32"
    and k: "k = search_outbox_prefix g @ to_be_bytes 8 epoch @ to_be_bytes 8 (rl_index lid)
      @ to_be_bytes 8 (rl_term lid) @ to_be_bytes 8 (rl_node lid)
      @ to_be_bytes 4 (of_nat (length ukey) :: u32) @ ukey"
    using assms by (simp_all add: encode_outbox_key_def split: if_splits)
  have "unat (of_nat (length ukey) :: u32) = length ukey"
    using len by (simp add: unat_of_nat take_bit_eq_mod)
  then show ?thesis
    by (simp add: k decode_outbox_key_def ok_or_def Let_def)
qed

lemma decode_outbox_key_shape:
  assumes "decode_outbox_key g k = Ok e"
  obtains r where "k = search_outbox_prefix g @ to_be_bytes 8 (oe_epoch e)
    @ to_be_bytes 8 (rl_index (oe_source_log_id e)) @ r"
proof -
  obtain bs where bs: "strip_prefix (search_outbox_prefix g) k = Some bs"
    using assms by (cases "strip_prefix (search_outbox_prefix g) k") (simp_all add: decode_outbox_key_def ok_or_def)
  then have k: "k = search_outbox_prefix g @ bs" by (simp only: strip_prefix_Some)
  have len: "16 \<le> length bs"
    using assms bs by (simp add: decode_outbox_key_def ok_or_def Let_def split: if_splits)
  have "Ok e = (Ok \<lparr>oe_epoch = from_be_bytes (take 8 (drop 0 bs)),
      oe_source_log_id = RaftLogId (from_be_bytes (take 8 (drop 16 bs)))
        (from_be_bytes (take 8 (drop 24 bs))) (from_be_bytes (take 8 (drop 8 bs))),
      oe_user_key = drop (8 * 4 + 4) bs\<rparr> :: search_outbox_entry result)"
    using assms unfolding decode_outbox_key_def bs ok_or_def option.case rbind.simps Let_def
    by (metis (no_types, lifting) Inl_Inr_False)
  then have e: "oe_epoch e = from_be_bytes (take 8 bs)"
      "rl_index (oe_source_log_id e) = from_be_bytes (take 8 (drop 8 bs))"
    by simp_all
  have "take 8 (drop 8 bs) @ drop 16 bs = drop 8 bs"
    using append_take_drop_id [of 8 "drop 8 bs"] by simp
  moreover have "to_be_bytes 8 (oe_epoch e) = take 8 bs"
    "to_be_bytes 8 (rl_index (oe_source_log_id e)) = take 8 (drop 8 bs)"
    using len by (simp_all add: e to_be_from_be)
  ultimately have "k = search_outbox_prefix g @ to_be_bytes 8 (oe_epoch e)
      @ to_be_bytes 8 (rl_index (oe_source_log_id e)) @ drop 16 bs"
    by (simp add: k)
  then show thesis by (rule that)
qed

lemma decode_outbox_key_prefix: "decode_outbox_key g k = Ok e \<Longrightarrow> starts_with k (search_outbox_prefix g)"
  by (metis decode_outbox_key_shape starts_with_append)

text \<open>Keys of one group sort by epoch, then by log index.\<close>

lemma outbox_key_order:
  assumes "decode_outbox_key g k = Ok e" "decode_outbox_key g l = Ok f" "k < l"
  shows "oe_epoch e < oe_epoch f \<or>
    oe_epoch e = oe_epoch f \<and> rl_index (oe_source_log_id e) \<le> rl_index (oe_source_log_id f)"
proof -
  obtain r where k: "k = search_outbox_prefix g @ to_be_bytes 8 (oe_epoch e)
    @ to_be_bytes 8 (rl_index (oe_source_log_id e)) @ r"
    using decode_outbox_key_shape [OF assms(1)] .
  obtain s where l: "l = search_outbox_prefix g @ to_be_bytes 8 (oe_epoch f)
    @ to_be_bytes 8 (rl_index (oe_source_log_id f)) @ s"
    using decode_outbox_key_shape [OF assms(2)] .
  show ?thesis
    using assms(3) unfolding k l by (auto simp: append_less_iff to_be_bytes_less)
qed

lemma covered_downward:
  assumes "covered cs epoch m f"
    and "oe_epoch e < oe_epoch f \<or>
      oe_epoch e = oe_epoch f \<and> rl_index (oe_source_log_id e) \<le> rl_index (oe_source_log_id f)"
  shows "covered cs epoch m e"
  using assms by (auto simp: covered_def split: option.splits)

subsection \<open>The scan stops early without losing rows\<close>

definition outbox_readable :: "group_id \<Rightarrow> cf \<Rightarrow> bool" where
  "outbox_readable g cf \<longleftrightarrow>
     (\<forall>kv \<in> set cf. starts_with (fst kv) (search_outbox_prefix g) \<longrightarrow> (\<exists>e. decode_outbox_key g (fst kv) = Ok e))"

definition prunable :: "(search_outbox_entry \<Rightarrow> bool) \<Rightarrow> group_id \<Rightarrow> bytes \<Rightarrow> bool" where
  "prunable cov g k \<longleftrightarrow> (case decode_outbox_key g k of Inr e \<Rightarrow> cov e | Inl _ \<Rightarrow> False)"

lemma prune_scan_takeWhile:
  "\<forall>k \<in> set ks. \<exists>e. decode_outbox_key g k = Ok e \<Longrightarrow>
   prune_scan cov g ks = Ok (takeWhile (prunable cov g) ks)"
  by (induction ks) (auto simp: prunable_def)

lemma takeWhile_filter_downward:
  "sorted_wrt R xs \<Longrightarrow> (\<And>x y. x \<in> set xs \<Longrightarrow> y \<in> set xs \<Longrightarrow> R x y \<Longrightarrow> P y \<Longrightarrow> P x) \<Longrightarrow>
   takeWhile P xs = filter P xs"
proof (induction xs)
  case (Cons x xs)
  show ?case
  proof (cases "P x")
    case False
    with Cons.prems have "\<forall>y \<in> set xs. \<not> P y" by auto
    with False show ?thesis by (simp add: filter_False)
  qed (use Cons in auto)
qed simp

lemma prune_scan_filter:
  assumes "cf_wf cf" "outbox_readable g cf"
  shows "prune_scan (covered cs epoch m) g (map fst (cf_iter_prefix (search_outbox_prefix g) cf)) =
    Ok (filter (prunable (covered cs epoch m) g) (map fst cf))"
proof -
  let ?p = "search_outbox_prefix g" and ?P = "prunable (covered cs epoch m) g"
  let ?ks = "filter (\<lambda>k. starts_with k ?p) (map fst cf)"
  have rows: "map fst (cf_iter_prefix ?p cf) = ?ks"
    by (simp add: cf_iter_prefix_filter [OF assms(1)] filter_map o_def)
  have readable: "\<exists>e. decode_outbox_key g k = Ok e" if "k \<in> set ?ks" for k
    using that assms(2) by (auto simp: outbox_readable_def)
  have sorted: "sorted_wrt (<) ?ks"
    using assms(1) by (simp add: strictly_sorted_def sorted_wrt_filter sorted_wrt_map)
  have down: "?P k" if kl: "k \<in> set ?ks" "l \<in> set ?ks" "k < l" "?P l" for k l
  proof -
    obtain e f where ef: "decode_outbox_key g k = Ok e" "decode_outbox_key g l = Ok f"
      using readable [OF kl(1)] readable [OF kl(2)] by blast
    with kl(4) have "covered cs epoch m f" by (simp add: prunable_def)
    from covered_downward [OF this outbox_key_order [OF ef kl(3)]] ef show ?thesis
      by (simp add: prunable_def)
  qed
  have "prune_scan (covered cs epoch m) g ?ks = Ok (filter ?P ?ks)"
    using readable sorted down prune_scan_takeWhile [of ?ks g] takeWhile_filter_downward [of "(<)" ?ks ?P]
    by simp
  moreover have "filter ?P ?ks = filter ?P (map fst cf)"
    by (auto simp: prunable_def intro!: filter_cong split: sum.splits dest: decode_outbox_key_prefix)
  ultimately show ?thesis by (simp add: rows)
qed

lemma db_write_deletes:
  "db_write (map BDelete ks) st = st\<lparr>db_default := filter (\<lambda>kv. fst kv \<notin> set ks) (db_default st)\<rparr>"
proof (induction ks arbitrary: st)
  case (Cons k ks)
  have "db_write (map BDelete (k # ks)) st = db_write (map BDelete ks) (batch_step (BDelete k) st)"
    by (simp add: db_write_def)
  then show ?case
    by (simp add: Cons.IH cf_delete_def)
qed (simp add: db_write_def)

subsection \<open>Reference codecs\<close>

definition p_raft_log_id :: "raft_log_id pcodec" where
  "p_raft_log_id = p_iso (\<lambda>(t, n, i). RaftLogId t n i) (\<lambda>l. (rl_term l, rl_node l, rl_index l))
     (p_pair p_u64 (p_pair p_u64 p_u64))"

definition p_checkpoint :: "index_checkpoint pcodec" where
  "p_checkpoint = p_iso
     (\<lambda>(e, h, r, l). \<lparr>ic_projection_epoch = e, ic_definition_hash = h, ic_engine_revision = r, ic_source_log_id = l\<rparr>)
     (\<lambda>c. (ic_projection_epoch c, ic_definition_hash c, ic_engine_revision c, ic_source_log_id c))
     (p_pair p_u64 (p_pair p_bytes (p_pair p_u32 (p_option p_raft_log_id))))"

definition p_consumer :: "search_consumer_state pcodec" where
  "p_consumer = p_iso
     (\<lambda>(h, r, cp, fl, nr). \<lparr>cs_definition_hash = h, cs_engine_revision = r, cs_checkpoint = cp,
        cs_retention_floor = fl, cs_needs_rebuild = nr\<rparr>)
     (\<lambda>c. (cs_definition_hash c, cs_engine_revision c, cs_checkpoint c, cs_retention_floor c, cs_needs_rebuild c))
     (p_pair p_bytes (p_pair p_u32 (p_pair (p_option p_checkpoint)
        (p_pair (p_option (p_pair p_u64 p_u64)) p_bool))))"

definition ref_search_codecs :: search_codecs where
  "ref_search_codecs = \<lparr>c_string = whole p_string, c_u64 = whole p_u64, c_u128 = whole p_u128,
     c_log_id = whole p_log_id, c_serving = whole p_serving,
     c_consumer = whole p_consumer, c_definition = whole p_definition\<rparr>"

definition search_codecs_ok :: "('a search_codecs_scheme) \<Rightarrow> bool" where
  "search_codecs_ok C \<longleftrightarrow> codec_ok (c_string C) \<and> codec_ok (c_u64 C) \<and> codec_ok (c_u128 C)
     \<and> codec_ok (c_log_id C) \<and> codec_ok (c_serving C) \<and> codec_ok (c_consumer C) \<and> codec_ok (c_definition C)"

lemma pok_raft_log_id [pok_intros]: "pok p_raft_log_id"
  unfolding p_raft_log_id_def by (intro pok_intros) simp_all

lemma pok_checkpoint [pok_intros]: "pok p_checkpoint"
  unfolding p_checkpoint_def by (intro pok_intros) simp_all

lemma pok_consumer [pok_intros]: "pok p_consumer"
  unfolding p_consumer_def by (intro pok_intros) simp_all

lemma ref_search_codecs_ok: "search_codecs_ok ref_search_codecs"
  by (auto simp: search_codecs_ok_def ref_search_codecs_def intro!: codec_ok_whole pok_intros)

subsection \<open>Pruning is exact\<close>

text \<open>A consumer still needs a row unless the row is from an older epoch or at or below its watermark.\<close>

definition needs :: "u64 \<Rightarrow> search_outbox_entry \<Rightarrow> search_consumer_state \<Rightarrow> bool" where
  "needs epoch e c \<longleftrightarrow>
     \<not> oe_epoch e < epoch
     \<and> \<not> (oe_epoch e = epoch
          \<and> (case prune_watermark epoch c of Some w \<Rightarrow> rl_index (oe_source_log_id e) \<le> w | None \<Rightarrow> False))"

lemma prune_minimum_None:
  "prune_minimum epoch m0 cs = None \<longleftrightarrow> (\<exists>c \<in> set cs. prune_watermark epoch c = None)"
  by (induction cs arbitrary: m0) (auto split: option.splits)

lemma prune_minimum_Some:
  "prune_minimum epoch m0 cs = Some m \<Longrightarrow>
     (m = None \<longleftrightarrow> m0 = None \<and> cs = [])
     \<and> (\<forall>x. (case m of Some l \<Rightarrow> x \<le> l | None \<Rightarrow> True) \<longleftrightarrow>
          (case m0 of Some l \<Rightarrow> x \<le> l | None \<Rightarrow> True)
          \<and> (\<forall>c \<in> set cs. \<exists>w. prune_watermark epoch c = Some w \<and> x \<le> w))"
proof (induction cs arbitrary: m0)
  case (Cons c cs)
  then obtain w where w: "prune_watermark epoch c = Some w" by (auto split: option.splits)
  let ?m1 = "Some (case m0 of None \<Rightarrow> w | Some lowest \<Rightarrow> min lowest w)"
  have "prune_minimum epoch ?m1 cs = Some m" using Cons.prems w by simp
  note IH = Cons.IH [OF this]
  show ?case using IH w by (cases m0) auto
qed simp

lemma covered_iff_not_needed:
  assumes "prune_minimum epoch None cs = Some m"
  shows "covered cs epoch m e \<longleftrightarrow> (\<forall>c \<in> set cs. \<not> needs epoch e c)"
proof (cases "cs = []")
  case False
  then obtain l where l: "m = Some l" using prune_minimum_Some [OF assms] by auto
  have bound: "x \<le> l \<longleftrightarrow> (\<forall>c \<in> set cs. \<exists>w. prune_watermark epoch c = Some w \<and> x \<le> w)" for x
    using prune_minimum_Some [OF assms] l by simp
  have wm: "\<forall>c \<in> set cs. \<exists>w. prune_watermark epoch c = Some w"
    using prune_minimum_None [of epoch None cs] assms by auto
  have "(\<forall>c \<in> set cs. \<not> needs epoch e c) \<longleftrightarrow>
      oe_epoch e < epoch \<or> oe_epoch e = epoch \<and> rl_index (oe_source_log_id e) \<le> l"
    using False wm unfolding bound needs_def by (fastforce simp: neq_Nil_conv)
  with False l show ?thesis by (auto simp: covered_def)
qed (simp add: covered_def)

lemma prune_search_outbox_eq:
  assumes "cf_wf (db_default st)" "outbox_readable g (db_default st)"
    and "search_consumers C st g = Ok all" "search_projection_epoch C st g = Ok epoch"
    and "prune_minimum epoch None (filter holds_retention (map snd all)) = Some m"
  shows "\<exists>n. prune_search_outbox C g st =
    (st\<lparr>db_default := filter (\<lambda>kv. \<not> prunable (covered (filter holds_retention (map snd all)) epoch m) g (fst kv))
        (db_default st)\<rparr>, Ok n)"
proof -
  let ?cs = "filter holds_retention (map snd all)"
  let ?P = "prunable (covered ?cs epoch m) g"
  let ?ds = "filter ?P (map fst (db_default st))"
  have run: "prune_search_outbox C g st =
      (if ?ds \<noteq> [] then db_write (map BDelete ?ds) st else st, Ok (length ?ds))"
    using assms(3-5) prune_scan_filter [OF assms(1,2), of ?cs epoch m]
    by (simp add: prune_search_outbox_def Let_def)
  have "(if ?ds \<noteq> [] then db_write (map BDelete ?ds) st else st) = db_write (map BDelete ?ds) st"
    by (cases "?ds = []") (simp_all only: db_write_def list.map fold_simps if_True if_False refl not_True_eq_False not_False_eq_True)
  also have "\<dots> = st\<lparr>db_default := filter (\<lambda>kv. fst kv \<notin> set ?ds) (db_default st)\<rparr>"
    by (rule db_write_deletes)
  also have "filter (\<lambda>kv. fst kv \<notin> set ?ds) (db_default st) = filter (\<lambda>kv. \<not> ?P (fst kv)) (db_default st)"
    by (rule filter_cong) auto
  finally have "(if ?ds \<noteq> [] then db_write (map BDelete ?ds) st else st) =
      st\<lparr>db_default := filter (\<lambda>kv. \<not> ?P (fst kv)) (db_default st)\<rparr>" .
  with run show ?thesis by simp
qed

text \<open>C6: Pruning the search outbox of a group deletes exactly the rows that no consumer holding
  retention still needs (and nothing when some such consumer has no usable watermark): every
  other record of the default column family, and every other column family, is untouched.\<close>

theorem prune_outbox_exact:
  assumes "cf_wf (db_default st)" "outbox_readable g (db_default st)"
    and "search_consumers C st g = Ok all" "search_projection_epoch C st g = Ok epoch"
  shows "\<exists>st' n. prune_search_outbox C g st = (st', Ok n) \<and> db_cfs st' = db_cfs st
    \<and> set (db_default st') =
      {kv \<in> set (db_default st).
        \<not> (\<exists>e. decode_outbox_key g (fst kv) = Ok e
             \<and> (\<forall>c \<in> set (map snd all). holds_retention c \<longrightarrow>
                  prune_watermark epoch c \<noteq> None \<and> \<not> needs epoch e c))}"
proof (cases "prune_minimum epoch None (filter holds_retention (map snd all))")
  case None
  then have "prune_search_outbox C g st = (st, Ok 0)"
    using assms(3,4) by (simp add: prune_search_outbox_def Let_def)
  moreover from None obtain c where "c \<in> set (map snd all)" "holds_retention c" "prune_watermark epoch c = None"
    by (auto simp: prune_minimum_None)
  ultimately show ?thesis by blast
next
  case (Some m)
  let ?cs = "filter holds_retention (map snd all)"
  have "prune_watermark epoch c \<noteq> None" if "c \<in> set ?cs" for c
    using Some that prune_minimum_None [of epoch None ?cs] by force
  then have "prunable (covered ?cs epoch m) g k \<longleftrightarrow>
      (\<exists>e. decode_outbox_key g k = Ok e
        \<and> (\<forall>c \<in> set (map snd all). holds_retention c \<longrightarrow> prune_watermark epoch c \<noteq> None \<and> \<not> needs epoch e c))" for k
    unfolding prunable_def covered_iff_not_needed [OF Some] by (cases "decode_outbox_key g k") auto
  with prune_search_outbox_eq [OF assms Some] show ?thesis by auto
qed


definition demo_consumer :: search_consumer_state where
  "demo_consumer = \<lparr>cs_definition_hash = [], cs_engine_revision = 2,
     cs_checkpoint = Some \<lparr>ic_projection_epoch = 1, ic_definition_hash = [], ic_engine_revision = 2,
       ic_source_log_id = Some (RaftLogId 1 1 7)\<rparr>,
     cs_retention_floor = None, cs_needs_rebuild = False\<rparr>"

definition demo_row :: "u64 \<Rightarrow> bytes" where
  "demo_row i = (case encode_outbox_key (Data 3) 1 (RaftLogId 1 1 i) [42] of Inr k \<Rightarrow> k | Inl _ \<Rightarrow> [])"

definition demo_store :: storage where
  "demo_store = \<lparr>db_default =
     [(search_consumer_key (Data 3) ''ix'' 1, enc (c_consumer ref_search_codecs) demo_consumer),
      (demo_row 5, []), (demo_row 9, [])],
     db_cfs = (\<lambda>_. None), db_failed = None\<rparr>"

lemma demo_row_eq: "demo_row i = search_prefix (Data 3) @ as_bytes ''outbox/'' @ to_be_bytes 8 (1 :: u64)
    @ to_be_bytes 8 i @ to_be_bytes 8 (1 :: u64) @ to_be_bytes 8 (1 :: u64) @ to_be_bytes 4 (1 :: u32) @ [42]"
  by (simp add: demo_row_def encode_outbox_key_def search_outbox_prefix_def)

lemma demo_row_decode: "decode_outbox_key (Data 3) (demo_row i) =
    Ok \<lparr>oe_epoch = 1, oe_source_log_id = RaftLogId 1 1 i, oe_user_key = [42]\<rparr>"
  by (rule decode_encode_outbox_key) (simp add: demo_row_def encode_outbox_key_def)

lemma demo_consumer_key_eq: "search_consumer_key (Data 3) ''ix'' 1 =
    search_prefix (Data 3) @ as_bytes ''consumer/'' @ name_len_prefix ''ix'' @ as_bytes ''ix'' @ to_be_bytes 8 (1 :: u64)"
  by (simp add: search_consumer_key_def search_consumer_prefix_def)

lemma search_epoch_key_not_demo:
  "search_epoch_key (Data 3) \<noteq> demo_row i" "search_epoch_key (Data 3) \<noteq> search_consumer_key (Data 3) ''ix'' 1"
  by (simp_all add: search_epoch_key_def demo_row_eq demo_consumer_key_eq as_bytes_Cons)

lemma demo_store_wf: "cf_wf (db_default demo_store)"
  by (simp add: demo_store_def strictly_sorted_def demo_row_eq demo_consumer_key_eq append_less_iff
      to_be_bytes_less as_bytes_Cons byte_of_char_def)

lemma demo_store_consumers:
  "search_consumers ref_search_codecs demo_store (Data 3) =
     Ok [(search_consumer_key (Data 3) ''ix'' 1, demo_consumer)]"
proof -
  have "\<not> starts_with (demo_row i) (search_consumer_prefix (Data 3))" for i
    by (simp add: starts_with_iff demo_row_eq search_consumer_prefix_def as_bytes_Cons)
  moreover have "starts_with (search_consumer_key (Data 3) ''ix'' 1) (search_consumer_prefix (Data 3))"
    by (simp add: search_consumer_key_def)
  moreover have "dec (c_consumer ref_search_codecs) (enc (c_consumer ref_search_codecs) demo_consumer) = Ok demo_consumer"
    using ref_search_codecs_ok by (simp add: search_codecs_ok_def codec_ok_def)
  ultimately show ?thesis
    using cf_iter_prefix_filter [OF demo_store_wf, of "search_consumer_prefix (Data 3)"]
    by (simp add: search_consumers_def demo_store_def)
qed

lemma demo_store_readable: "outbox_readable (Data 3) (db_default demo_store)"
proof -
  have "\<not> starts_with (search_consumer_key (Data 3) ''ix'' 1) (search_outbox_prefix (Data 3))"
    by (simp add: starts_with_iff demo_consumer_key_eq search_outbox_prefix_def as_bytes_Cons)
  then show ?thesis by (simp add: outbox_readable_def demo_store_def demo_row_decode)
qed

lemma demo_store_epoch: "search_projection_epoch ref_search_codecs demo_store (Data 3) = Ok 1"
  using search_epoch_key_not_demo
  by (simp add: search_projection_epoch_def get_local_def demo_store_def cf_get_def)

theorem prune_outbox_exact_witness:
  "\<exists>st' n. prune_search_outbox ref_search_codecs (Data 3) demo_store = (st', Ok n)
     \<and> (demo_row 5, []) \<notin> set (db_default st') \<and> (demo_row 9, []) \<in> set (db_default st')"
  using prune_outbox_exact [OF demo_store_wf demo_store_readable demo_store_consumers demo_store_epoch]
  by (auto simp: demo_store_def demo_row_decode demo_consumer_def needs_def prune_watermark_def holds_retention_def)

end
