(* ===== verification/Batch.thy ===== *)
theory Batch
  imports Outbox
begin

section \<open>Atomic state writes (storage/batch.rs)\<close>

text \<open>
  The two helpers every applier goes through: a group's mutations, its applied marker, its
  committed marker and the dirty-key rows of the search outbox in one atomic write batch.  The
  parameter \<open>fault\<close> injects a failure at a named boundary (the crate's failpoints, a refused
  admission, a failing database write or flush).  The lemmas give the column families after a successful write and
  show that any failure leaves either the old or the new state, never a mixture.
\<close>

definition KEY_COMMITTED :: bytes where "KEY_COMMITTED = [0x00, byte CHR ''c'']"

definition SEARCH_OUTBOX_PRUNE_APPLIES :: u64 where "SEARCH_OUTBOX_PRUNE_APPLIES = 4096"

definition crossed_search_prune_boundary :: "u64 \<Rightarrow> nat \<Rightarrow> bool" where
  "crossed_search_prune_boundary applied_index n =
     (let applied_entries = (if n < 2 ^ 64 then of_nat n else - 1 :: u64);
          previous_index = saturating_sub applied_index applied_entries
      in applied_index div SEARCH_OUTBOX_PRUNE_APPLIES > previous_index div SEARCH_OUTBOX_PRUNE_APPLIES)"

type_synonym faults = "string \<Rightarrow> error option"

definition crash_point :: "faults \<Rightarrow> string \<Rightarrow> unit result" where
  "crash_point fault name = (case fault name of Some e \<Rightarrow> Err e | None \<Rightarrow> Ok ())"

text \<open>
  A synchronous write, and the state batch handed to the durability worker: refused when the
  latch is set or the group's budget does not admit it, poisoning the database when the write
  (or, for the meta group, the flush it waits for) fails.
\<close>

definition write_opt :: "faults \<Rightarrow> batch_op list \<Rightarrow> storage \<Rightarrow> storage \<times> unit result" where
  "write_opt fault batch st =
     (case fault ''write'' of Some e \<Rightarrow> (st, Err e) | None \<Rightarrow> (db_write batch st, Ok ()))"

text \<open>The text of the I/O error inside a write failure.\<close>

definition io_text :: "error \<Rightarrow> string" where
  "io_text e = (case e of Io m \<Rightarrow> m | _ \<Rightarrow> display e)"

definition write_state_batch :: "faults \<Rightarrow> group_id \<Rightarrow> batch_op list \<Rightarrow> storage \<Rightarrow> storage \<times> unit result" where
  "write_state_batch fault g batch st =
     sbind (st, require_healthy st) (\<lambda>st _.
     sbind (st, crash_point fault ''begin'') (\<lambda>st _.
     case fault ''write'' of
       Some e \<Rightarrow> (fail_all (io_text e) st, Err e)
     | None \<Rightarrow>
         let st = db_write batch st in
         if g \<noteq> Meta then (st, Ok ())
         else case fault ''durable'' of
           Some e \<Rightarrow> (fail_all (io_text e) st, Err e)
         | None \<Rightarrow> (st, Ok ())))"

fun mutation_op :: "string \<Rightarrow> state_mutation \<Rightarrow> batch_op" where
  "mutation_op name (MutPut k v) = BPutCf name k v"
| "mutation_op name (MutDelete k) = BDeleteCf name k"

definition apply_state ::
  "('a store_codecs_scheme) \<Rightarrow> faults \<Rightarrow> group_id \<Rightarrow> state_mutation list \<Rightarrow> log_id \<Rightarrow> storage
    \<Rightarrow> storage \<times> unit result" where
  "apply_state C fault g mutations applied st =
     sbind (st, state_cf C st g) (\<lambda>st (name, _).
     let batch = map (mutation_op name) mutations
                 @ [BPutCf name last_applied_key (enc (c_log_id C) applied)] in
     sbind (st, crash_point fault ''apply_state::before_write'') (\<lambda>st _.
     sbind (write_opt fault batch st) (\<lambda>st _.
     sbind (st, crash_point fault ''apply_state::after_write'') (\<lambda>st _.
     (st, Ok ())))))"

definition outbox_row ::
  "group_id \<Rightarrow> u64 \<Rightarrow> raft_log_id \<Rightarrow> state_mutation \<Rightarrow> batch_op list result" where
  "outbox_row g epoch lid m =
     (case strip_prefix [TAG_USER] (mutation_key m) of
        Some ukey \<Rightarrow> rbind (encode_outbox_key g epoch lid ukey) (\<lambda>k. Ok [BPut k []])
      | None \<Rightarrow> Ok [])"

definition outbox_ops ::
  "('a search_codecs_scheme) \<Rightarrow> storage \<Rightarrow> group_id \<Rightarrow> raft_log_id \<Rightarrow> state_mutation list
    \<Rightarrow> batch_op list result" where
  "outbox_ops C st g lid mutations =
     (case g of
        Meta \<Rightarrow> Ok []
      | Data _ \<Rightarrow>
          rbind (get_local (c_u64 C) st (search_epoch_key g)) (\<lambda>stored.
          let epoch = (case stored of Some e \<Rightarrow> e | None \<Rightarrow> 1);
              first = (if stored = None then [BPut (search_epoch_key g) (enc (c_u64 C) epoch)] else [])
          in rbind (rmapM (outbox_row g epoch lid) mutations) (\<lambda>rows. Ok (first @ concat rows))))"

text \<open>The prune after an apply; its own write to the database may fail as well.\<close>

definition prune_or_fail :: "('a search_codecs_scheme) \<Rightarrow> faults \<Rightarrow> group_id \<Rightarrow> storage \<Rightarrow> storage \<times> nat result" where
  "prune_or_fail C fault g st =
     (case fault ''prune'' of Some e \<Rightarrow> (st, Err e) | None \<Rightarrow> prune_search_outbox C g st)"

definition apply_raft ::
  "('a search_codecs_scheme) \<Rightarrow> faults \<Rightarrow> group_id \<Rightarrow> state_mutation list \<Rightarrow> raft_log_id
    \<Rightarrow> bytes \<Rightarrow> bytes \<Rightarrow> nat \<Rightarrow> storage \<Rightarrow> storage \<times> unit result" where
  "apply_raft C fault g mutations lid applied_record committed_record applied_entries st =
     sbind (st, state_cf C st g) (\<lambda>st (name, _).
     sbind (st, log_cf st g) (\<lambda>st (log_name, _).
     sbind (st, outbox_ops C st g lid mutations) (\<lambda>st rows.
     let batch = map (mutation_op name) mutations @ rows
                 @ [BPutCf name raft_applied_key applied_record,
                    BPutCf log_name KEY_COMMITTED committed_record] in
     sbind (st, crash_point fault ''apply_state::before_write'') (\<lambda>st _.
     sbind (write_state_batch fault g batch st) (\<lambda>st _.
     sbind (st, crash_point fault ''apply_state::after_write'') (\<lambda>st _.
     if g \<noteq> Meta \<and> crossed_search_prune_boundary (rl_index lid) applied_entries
     then (case prune_or_fail C fault g st of
             (st, Inr _) \<Rightarrow> (st, Ok ())
           | (st, Inl e) \<Rightarrow> (poison_raft_error ''search outbox prune failed'' e st, Ok ()))
     else (st, Ok ())))))))"

subsection \<open>What a batch does to each column family\<close>

lemma db_write_append: "db_write (xs @ ys) st = db_write ys (db_write xs st)"
  by (simp add: db_write_def)

lemma db_write_mutations_default [simp]: "db_default (db_write (map (mutation_op n) ms) st) = db_default st"
proof (induction ms arbitrary: st)
  case (Cons m ms)
  then show ?case by (cases m) (simp_all add: db_write_def)
qed (simp add: db_write_def)

lemma mutate_partial: "mutate put del (MutPut k v) = put k v" "mutate put del (MutDelete k) = del k"
  by (rule ext, simp)+

lemma db_write_mutations_cfs:
  "db_cfs (db_write (map (mutation_op n) ms) st) =
     (db_cfs st)(n := map_option (fold (mutate cf_put cf_delete) ms) (db_cfs st n))"
proof (induction ms arbitrary: st)
  case (Cons m ms)
  show ?case
  proof (rule ext)
    fix x
    show "db_cfs (db_write (map (mutation_op n) (m # ms)) st) x =
      ((db_cfs st)(n := map_option (fold (mutate cf_put cf_delete) (m # ms)) (db_cfs st n))) x"
      using fun_cong [OF Cons.IH [of "batch_step (mutation_op n m) st"], of x]
      by (cases m; cases "x = n") (simp_all add: db_write_def option.map_comp mutate_partial)
  qed
qed (simp add: db_write_def option.map_id)

definition default_op :: "batch_op \<Rightarrow> bool" where
  "default_op op \<longleftrightarrow> (\<exists>k v. op = BPut k v \<and> starts_with k (as_bytes ''local/search/''))"

lemma db_write_default_cfs [simp]: "list_all default_op ops \<Longrightarrow> db_cfs (db_write ops st) = db_cfs st"
  by (induction ops arbitrary: st) (auto simp: db_write_def default_op_def)

text \<open>Two default column families that differ in search records only.\<close>

definition search_only :: "cf \<Rightarrow> cf \<Rightarrow> bool" where
  "search_only a c \<longleftrightarrow>
     (\<forall>k. \<not> starts_with k (as_bytes ''local/search/'') \<longrightarrow> cf_get c k = cf_get a k)"

lemma search_only_refl [simp]: "search_only a a"
  by (simp add: search_only_def)

lemma search_only_trans: "search_only a c \<Longrightarrow> search_only c d \<Longrightarrow> search_only a d"
  by (simp add: search_only_def)

lemma db_write_default_wf:
  "cf_wf (db_default st) \<Longrightarrow> list_all default_op ops \<Longrightarrow>
   cf_wf (db_default (db_write ops st)) \<and> search_only (db_default st) (db_default (db_write ops st))"
proof (induction ops arbitrary: st)
  case (Cons op ops)
  then obtain k v where op: "op = BPut k v" and k: "starts_with k (as_bytes ''local/search/'')"
    by (auto simp: default_op_def)
  let ?st = "batch_step op st"
  have wf: "cf_wf (db_default ?st)" and so: "search_only (db_default st) (db_default ?st)"
    using Cons.prems(1) k by (auto simp: op cf_wf_put search_only_def cf_get_put)
  from Cons.IH [OF wf] Cons.prems(2) so show ?case
    by (auto simp: db_write_def intro: search_only_trans)
qed (simp add: db_write_def)

lemma search_prefix_local: "starts_with (search_prefix g @ r) (as_bytes ''local/search/'')"
  by (simp add: search_prefix_def starts_with_iff as_bytes_Cons)

lemma outbox_key_local: "encode_outbox_key g epoch lid ukey = Ok k \<Longrightarrow> starts_with k (as_bytes ''local/search/'')"
  by (auto simp: encode_outbox_key_def search_outbox_prefix_def search_prefix_local split: if_splits)

lemma outbox_row_default: "outbox_row g epoch lid m = Ok ops \<Longrightarrow> list_all default_op ops"
  by (auto simp: outbox_row_def default_op_def dest: outbox_key_local split: option.splits)

lemma rmapM_InrD: "rmapM f xs = Inr ys \<Longrightarrow> y \<in> set ys \<Longrightarrow> \<exists>x \<in> set xs. f x = Inr y"
  by (induction xs arbitrary: ys) auto

lemma outbox_ops_default:
  assumes "outbox_ops C st g lid ms = Ok ops"
  shows "list_all default_op ops"
proof (cases g)
  case (Data p)
  from assms obtain stored rows epoch where rows: "rmapM (outbox_row g epoch lid) ms = Ok rows"
    and ops: "ops = (if stored = None then [BPut (search_epoch_key g) (enc (c_u64 C) epoch)] else []) @ concat rows"
    by (force simp: outbox_ops_def Data Let_def)
  have "list_all default_op y" if "y \<in> set rows" for y
    using rmapM_InrD [OF rows that] by (auto dest: outbox_row_default)
  then show ?thesis
    by (auto simp: ops list_all_iff default_op_def search_epoch_key_def search_prefix_local)
qed (use assms in \<open>simp add: outbox_ops_def\<close>)

subsection \<open>Pruning touches outbox rows only\<close>

lemma prune_scan_subset: "prune_scan cov g ks = Ok ds \<Longrightarrow> set ds \<subseteq> set ks"
  by (induction ks arbitrary: ds) (auto split: if_splits)

lemma prune_cases:
  "\<exists>ds. fst (prune_search_outbox C g st) = db_write (map BDelete ds) st
     \<and> (\<forall>k \<in> set ds. starts_with k (search_outbox_prefix g))"
proof -
  have same: "\<exists>ds. st = db_write (map BDelete ds) st \<and> (\<forall>k \<in> set ds. starts_with k (search_outbox_prefix g))"
    by (rule exI [where x = "[]"]) (simp add: db_write_def)
  let ?ks = "map fst (cf_iter_prefix (search_outbox_prefix g) (db_default st))"
  have keys: "\<forall>k \<in> set ?ks. starts_with k (search_outbox_prefix g)"
    by (auto simp: cf_iter_prefix_def dest: set_takeWhileD)
  have scan: "\<exists>ds. fst (sbind (st, prune_scan cov g ?ks)
       (\<lambda>st deleted. (if deleted \<noteq> [] then db_write (map BDelete deleted) st else st, Ok (length deleted))))
       = db_write (map BDelete ds) st \<and> (\<forall>k \<in> set ds. starts_with k (search_outbox_prefix g))" for cov
  proof (cases "prune_scan cov g ?ks")
    case (Inr ds)
    with prune_scan_subset [OF Inr] keys show ?thesis
      by (intro exI [where x = ds]) (auto simp: db_write_def)
  qed (use same in simp)
  show ?thesis
  proof (cases "search_consumers C st g")
    case cs: (Inr all)
    show ?thesis
    proof (cases "search_projection_epoch C st g")
      case (Inr epoch)
      with cs scan same show ?thesis
        by (auto simp: prune_search_outbox_def Let_def split: option.split)
    qed (use cs same in \<open>simp add: prune_search_outbox_def Let_def\<close>)
  qed (use same in \<open>simp add: prune_search_outbox_def\<close>)
qed

lemma outbox_prefix_local:
  "starts_with k (search_outbox_prefix g) \<Longrightarrow> starts_with k (as_bytes ''local/search/'')"
  by (auto simp: starts_with_iff search_outbox_prefix_def search_prefix_def as_bytes_Cons)

lemma prune_frame:
  assumes "cf_wf (db_default st)" and st'_def: "st' = fst (prune_search_outbox C g st)"
  shows "db_cfs st' = db_cfs st" "cf_wf (db_default st')" "search_only (db_default st) (db_default st')"
    "\<And>k. \<not> starts_with k (search_outbox_prefix g) \<Longrightarrow> cf_get (db_default st') k = cf_get (db_default st) k"
proof -
  obtain ds where st': "st' = db_write (map BDelete ds) st"
    and ds: "\<forall>k \<in> set ds. starts_with k (search_outbox_prefix g)"
    using prune_cases [of C g st] by (auto simp: st'_def)
  have get: "cf_get (filter (\<lambda>kv. fst kv \<notin> set ds) cf) k = cf_get cf k" if "k \<notin> set ds" for k cf
    using that by (induction cf) (auto simp: cf_get_def)
  show "db_cfs st' = db_cfs st" by (simp add: st' db_write_deletes)
  show "cf_wf (db_default st')"
    using assms(1) by (simp add: st' db_write_deletes strictly_sorted_def sorted_wrt_filter)
  show *: "cf_get (db_default st') k = cf_get (db_default st) k"
    if "\<not> starts_with k (search_outbox_prefix g)" for k
    using that ds get [of k] by (auto simp: st' db_write_deletes)
  show "search_only (db_default st) (db_default st')"
    using * outbox_prefix_local by (auto simp: search_only_def)
qed

subsection \<open>Open groups\<close>

definition group_open ::
  "('a search_codecs_scheme) \<Rightarrow> storage \<Rightarrow> group_id \<Rightarrow> string \<Rightarrow> cf \<Rightarrow> cf \<Rightarrow> bool" where
  "group_open C st g name cf lcf \<longleftrightarrow>
     cf_wf (db_default st) \<and> state_cf C st g = Ok (name, cf) \<and> cf_wf cf
     \<and> db_cfs st (cf_log g) = Some lcf \<and> cf_wf lcf
     \<and> (g \<noteq> Meta \<longrightarrow> (\<exists>e. get_local (c_u64 C) st (search_epoch_key g) = Ok e))"

lemma state_cf_Ok:
  "state_cf C st g = Ok (name, cf) \<longleftrightarrow> active_state_cf_name C st g = Ok name \<and> db_cfs st name = Some cf"
  by (auto simp: state_cf_def split: option.splits)

lemma active_name_not_log: "active_state_cf_name C st g = Ok name \<Longrightarrow> name \<noteq> cf_log h"
  by (auto simp: active_state_cf_name_def Let_def cf_log_def cf_state_def starts_with_iff split: if_splits)

lemma pointer_not_search: "\<not> starts_with (state_cf_pointer_key g) (as_bytes ''local/search/'')"
  by (simp add: state_cf_pointer_key_def starts_with_iff as_bytes_Cons)

lemma active_name_transfer:
  "search_only (db_default st) (db_default st') \<Longrightarrow> active_state_cf_name C st' g = active_state_cf_name C st g"
  using pointer_not_search by (simp add: active_state_cf_name_def get_local_def search_only_def)

lemma search_epoch_key_not_outbox: "\<not> starts_with (search_epoch_key g) (search_outbox_prefix h)"
  by (auto simp: starts_with_iff search_epoch_key_def search_outbox_prefix_def search_prefix_eq as_bytes_Cons)

lemma rmapM_total: "(\<And>x. x \<in> set xs \<Longrightarrow> \<exists>y. f x = Inr y) \<Longrightarrow> \<exists>ys. rmapM f xs = Inr ys"
proof (induction xs)
  case (Cons x xs)
  then obtain y ys where "f x = Inr y" "rmapM f xs = Inr ys" by fastforce
  then show ?case by simp
qed simp

lemma outbox_row_total:
  assumes "length (mutation_key m) \<le> 2 ^ 32"
  shows "\<exists>y. outbox_row g epoch lid m = Ok y"
proof (cases "strip_prefix [TAG_USER] (mutation_key m)")
  case (Some u)
  then have "length (mutation_key m) = Suc (length u)" by (simp add: strip_prefix_Some)
  with assms have "\<not> 2 ^ 32 \<le> length u" by (simp only: Suc_le_eq not_le)
  with Some show ?thesis by (simp add: outbox_row_def encode_outbox_key_def)
qed (simp add: outbox_row_def)

lemma outbox_ops_Ok:
  assumes "g \<noteq> Meta \<longrightarrow> (\<exists>e. get_local (c_u64 C) st (search_epoch_key g) = Ok e)"
    and "g \<noteq> Meta \<longrightarrow> (\<forall>m \<in> set ms. length (mutation_key m) \<le> 2 ^ 32)"
  shows "\<exists>ops. outbox_ops C st g lid ms = Ok ops"
proof (cases g)
  case (Data p)
  with assms(1) obtain stored where "get_local (c_u64 C) st (search_epoch_key g) = Ok stored" by auto
  moreover have "\<exists>ys. rmapM (outbox_row g epoch lid) ms = Ok ys" for epoch
    using assms(2) Data outbox_row_total by (intro rmapM_total) blast
  ultimately show ?thesis using Data by (simp add: outbox_ops_def Let_def)
qed (simp add: outbox_ops_def)

lemma epoch_put_readable:
  assumes "codec_ok (c_u64 C)" "outbox_ops C st g lid ms = Ok ops" "cf_wf (db_default st)" "g \<noteq> Meta"
  shows "\<exists>e. get_local (c_u64 C) (db_write ops st) (search_epoch_key g) = Ok e"
proof -
  obtain p where g: "g = Data p" using assms(4) by (cases g) auto
  have key: "k \<noteq> search_epoch_key g" if "encode_outbox_key g e lid u = Ok k" for e u k
    using that search_epoch_key_not_outbox [of g g]
    by (metis decode_encode_outbox_key decode_outbox_key_prefix)
  have row: "\<exists>k v. op = BPut k v \<and> k \<noteq> search_epoch_key g"
    if "outbox_row g e lid m = Ok y" "op \<in> set y" for e m y op
    using that by (auto simp: outbox_row_def dest: key split: option.splits)
  have keep: "cf_get (db_default (db_write os s)) (search_epoch_key g) = cf_get (db_default s) (search_epoch_key g)"
    if "cf_wf (db_default s)" "\<forall>op \<in> set os. \<exists>k v. op = BPut k v \<and> k \<noteq> search_epoch_key g" for os s
    using that
  proof (induction os arbitrary: s)
    case (Cons op os)
    then show ?case by (auto simp: db_write_def cf_get_put cf_wf_put)
  qed (simp add: db_write_def)
  obtain stored rows where stored: "get_local (c_u64 C) st (search_epoch_key g) = Ok stored"
    and rows: "rmapM (outbox_row g (case stored of Some e \<Rightarrow> e | None \<Rightarrow> 1) lid) ms = Ok rows"
    and ops: "ops = (if stored = None then [BPut (search_epoch_key g) (enc (c_u64 C) (case stored of Some e \<Rightarrow> e | None \<Rightarrow> 1))] else []) @ concat rows"
    using assms(2) by (force simp: outbox_ops_def g Let_def)
  have rs: "\<forall>op \<in> set (concat rows). \<exists>k v. op = BPut k v \<and> k \<noteq> search_epoch_key g"
    using rmapM_InrD [OF rows] row by fastforce
  show ?thesis
  proof (cases stored)
    case None
    let ?s = "db_write [BPut (search_epoch_key g) (enc (c_u64 C) 1)] st"
    have "cf_get (db_default (db_write ops st)) (search_epoch_key g) = Some (enc (c_u64 C) 1)"
      using keep [of ?s "concat rows"] rs assms(3) None
      by (simp add: ops db_write_append cf_wf_put cf_get_put db_write_def)
    then show ?thesis using assms(1) by (simp add: get_local_def codec_ok_def)
  next
    case (Some e)
    then show ?thesis
      using keep [OF assms(3) rs] stored by (simp add: ops get_local_def)
  qed
qed


subsection \<open>Applied batches\<close>

definition raft_batch ::
  "string \<Rightarrow> string \<Rightarrow> state_mutation list \<Rightarrow> batch_op list \<Rightarrow> bytes \<Rightarrow> bytes \<Rightarrow> batch_op list" where
  "raft_batch name log_name ms rows ar cr =
     map (mutation_op name) ms @ rows @ [BPutCf name raft_applied_key ar, BPutCf log_name KEY_COMMITTED cr]"

lemma db_write_default_only:
  "list_all default_op ops \<Longrightarrow> db_default s = db_default t \<Longrightarrow>
   db_default (db_write ops s) = db_default (db_write ops t)"
proof (induction ops arbitrary: s t)
  case (Cons op ops)
  obtain k v where op: "op = BPut k v" using Cons.prems(1) by (auto simp: default_op_def)
  have "db_default (batch_step op s) = db_default (batch_step op t)"
    using Cons.prems(2) by (simp add: op)
  from Cons.IH [OF _ this] Cons.prems(1) show ?case by (simp add: db_write_def)
qed (simp add: db_write_def)

lemma raft_batch_effect:
  assumes "group_open C st g name cf lcf" "outbox_ops C st g lid ms = Ok ops" "codec_ok (c_u64 C)"
    and st'_def: "st' = db_write (raft_batch name (cf_log g) ms ops ar cr) st"
  shows "group_open C st' g name (cf_put raft_applied_key ar (fold (mutate cf_put cf_delete) ms cf))
      (cf_put KEY_COMMITTED cr lcf)"
    and "search_only (db_default st) (db_default st')"
    and "n \<noteq> name \<Longrightarrow> n \<noteq> cf_log g \<Longrightarrow> db_cfs st' n = db_cfs st n"
proof -
  have open_cf: "active_state_cf_name C st g = Ok name" "db_cfs st name = Some cf"
    "db_cfs st (cf_log g) = Some lcf" "cf_wf (db_default st)" "cf_wf cf" "cf_wf lcf"
    using assms(1) by (auto simp: group_open_def state_cf_Ok)
  note ne = active_name_not_log [OF open_cf(1), of g]
  let ?s1 = "db_write (map (mutation_op name) ms) st"
  let ?s2 = "db_write ops ?s1"
  have d1: "db_default ?s1 = db_default st" by simp
  note dop = outbox_ops_default [OF assms(2)]
  have d2: "cf_wf (db_default ?s2)" "search_only (db_default st) (db_default ?s2)"
    using db_write_default_wf [of ?s1 ops] dop open_cf(4) d1 by auto
  have st': "st' = batch_step (BPutCf (cf_log g) KEY_COMMITTED cr) (batch_step (BPutCf name raft_applied_key ar) ?s2)"
    by (simp only: st'_def raft_batch_def db_write_append) (simp only: db_write_def fold_simps)
  have written: "db_cfs st' name = Some (cf_put raft_applied_key ar (fold (mutate cf_put cf_delete) ms cf))"
    "db_cfs st' (cf_log g) = Some (cf_put KEY_COMMITTED cr lcf)"
    using ne open_cf dop by (simp_all add: st' db_write_mutations_cfs)
  show other: "db_cfs st' n = db_cfs st n" if "n \<noteq> name" "n \<noteq> cf_log g" for n
    using that dop by (simp add: st' db_write_mutations_cfs)
  have "db_default st' = db_default ?s2" by (simp add: st')
  with d2 show so: "search_only (db_default st) (db_default st')" by simp
  have same_default: "db_default ?s2 = db_default (db_write ops st)"
    by (rule db_write_default_only [OF dop d1])
  have "\<exists>e. get_local (c_u64 C) st' (search_epoch_key g) = Ok e" if "g \<noteq> Meta"
    using epoch_put_readable [OF assms(3,2) open_cf(4) that] \<open>db_default st' = db_default ?s2\<close> same_default
    by (simp add: get_local_def)
  then show "group_open C st' g name (cf_put raft_applied_key ar (fold (mutate cf_put cf_delete) ms cf))
      (cf_put KEY_COMMITTED cr lcf)"
    using written d2 \<open>db_default st' = db_default ?s2\<close> open_cf active_name_transfer [OF so, of C g]
    by (simp add: group_open_def state_cf_Ok cf_wf_put cfs.inv_fold)
qed

lemma prune_group_open:
  assumes "group_open C st h name cf lcf"
  shows "group_open C (fst (prune_search_outbox C g st)) h name cf lcf"
proof -
  let ?st = "fst (prune_search_outbox C g st)"
  have wf: "cf_wf (db_default st)" using assms by (simp add: group_open_def)
  note fr = prune_frame [OF wf, where C = C and g = g, OF refl]
  have "get_local (c_u64 C) ?st (search_epoch_key h) = get_local (c_u64 C) st (search_epoch_key h)"
    using fr(4) search_epoch_key_not_outbox by (simp add: get_local_def)
  with assms fr(1,2) active_name_transfer [OF fr(3), of C h] show ?thesis
    by (simp add: group_open_def state_cf_Ok)
qed

definition no_fault :: faults where "no_fault = (\<lambda>_. None)"

text \<open>The state a group's column families have after an applied batch.\<close>

abbreviation applied_cf :: "state_mutation list \<Rightarrow> bytes \<Rightarrow> cf \<Rightarrow> cf" where
  "applied_cf ms ar cf \<equiv> cf_put raft_applied_key ar (fold (mutate cf_put cf_delete) ms cf)"

lemma group_open_records: "same_records st st' \<Longrightarrow> group_open C st g name cf lcf \<Longrightarrow> group_open C st' g name cf lcf"
  by (simp add: same_records_def group_open_def state_cf_Ok active_state_cf_name_def get_local_def)

lemma write_state_batch_cases:
  assumes "write_state_batch fault g batch st = (st', r)"
  shows "r \<noteq> Ok () \<and> same_records st st' \<or> same_records (db_write batch st) st'"
  using assms
  by (auto simp: write_state_batch_def same_records_def require_healthy_def crash_point_def Let_def
      split: option.splits if_splits)

lemma apply_raft_run:
  assumes "group_open C st g name cf lcf" "outbox_ops C st g lid ms = Ok ops"
  shows "apply_raft C fault g ms lid ar cr n st =
      sbind (st, crash_point fault ''apply_state::before_write'') (\<lambda>st _.
      sbind (write_state_batch fault g (raft_batch name (cf_log g) ms ops ar cr) st) (\<lambda>st _.
      sbind (st, crash_point fault ''apply_state::after_write'') (\<lambda>st _.
      if g \<noteq> Meta \<and> crossed_search_prune_boundary (rl_index lid) n
      then (case prune_or_fail C fault g st of
             (st, Inr _) \<Rightarrow> (st, Ok ())
           | (st, Inl e) \<Rightarrow> (poison_raft_error ''search outbox prune failed'' e st, Ok ()))
      else (st, Ok ()))))"
proof -
  have "state_cf C st g = Ok (name, cf)" "log_cf st g = Ok (cf_log g, lcf)"
    using assms(1) by (simp_all add: group_open_def log_cf_def)
  with assms(2) show ?thesis by (simp add: apply_raft_def raft_batch_def Let_def)
qed

text \<open>Every failure leaves the records as they were, or the whole batch applied.\<close>

lemma apply_raft_cases:
  assumes "group_open C st g name cf lcf" "codec_ok (c_u64 C)"
    and "apply_raft C fault g ms lid ar cr n st = (st', r)"
  shows "r \<noteq> Ok () \<and> same_records st st' \<or>
    group_open C st' g name (applied_cf ms ar cf) (cf_put KEY_COMMITTED cr lcf)
    \<and> search_only (db_default st) (db_default st')
    \<and> (\<forall>x. x \<noteq> name \<and> x \<noteq> cf_log g \<longrightarrow> db_cfs st' x = db_cfs st x)"
proof (cases "outbox_ops C st g lid ms")
  case (Inl e)
  then show ?thesis
    using assms(1,3) by (auto simp: apply_raft_def group_open_def log_cf_def same_records_def)
next
  case (Inr ops)
  let ?batch = "raft_batch name (cf_log g) ms ops ar cr"
  let ?done = "\<lambda>s. group_open C s g name (applied_cf ms ar cf) (cf_put KEY_COMMITTED cr lcf)
    \<and> search_only (db_default st) (db_default s)
    \<and> (\<forall>x. x \<noteq> name \<and> x \<noteq> cf_log g \<longrightarrow> db_cfs s x = db_cfs st x)"
  note eff = raft_batch_effect [OF assms(1) Inr assms(2), where ar = ar and cr = cr, OF refl]
  have records: "?done s'" if sr: "same_records s s'" and d: "?done s" for s s'
  proof -
    have "group_open C s' g name (applied_cf ms ar cf) (cf_put KEY_COMMITTED cr lcf)"
      using group_open_records [OF sr] d by blast
    with sr d show ?thesis by (simp add: same_records_def)
  qed
  have written: "?done (db_write ?batch st)" using eff by blast
  have pruned: "?done (fst (prune_search_outbox C g s))" if d: "?done s" for s
  proof -
    have wf: "cf_wf (db_default s)" using d by (simp add: group_open_def)
    show ?thesis
      using d prune_group_open [of C s g name _ _ g] prune_frame [OF wf, where C = C and g = g, OF refl] search_only_trans
      by auto
  qed
  have poisoned: "same_records s (poison_raft_error c e s)" for s c e by (simp add: same_records_def)
  obtain s1 r1 where w: "write_state_batch fault g ?batch st = (s1, r1)" by force
  consider "r1 \<noteq> Ok ()" "same_records st s1" | "?done s1"
    using write_state_batch_cases [OF w] records [OF _ written] by blast
  then show ?thesis
  proof cases
    case 1
    then show ?thesis
      using assms(3) w unfolding apply_raft_run [OF assms(1) Inr]
      by (cases r1) (auto simp: crash_point_def same_records_def split: option.splits)
  next
    case 2
    obtain s2 r2 where p: "prune_or_fail C fault g s1 = (s2, r2)" by force
    have d2: "?done s2" using pruned [OF 2] 2 p by (auto simp: prune_or_fail_def split: option.splits)
    have "st' = st \<and> r \<noteq> Ok () \<or> st' = s1 \<or> st' = s2 \<or> (\<exists>c e. st' = poison_raft_error c e s2)"
      using assms(3) w p unfolding apply_raft_run [OF assms(1) Inr]
      by (cases r1) (auto simp: crash_point_def split: option.splits if_splits sum.splits)
    then show ?thesis
      using 2 d2 records [OF poisoned d2] by (auto simp: same_records_def)
  qed
qed

lemma apply_state_cases:
  assumes "state_cf C st g = Ok (name, cf)"
    and "apply_state C fault g ms l st = (st', r)"
  shows "r \<noteq> Ok () \<and> st' = st \<or>
    state_cf C st' g = Ok (name, cf_put last_applied_key (enc (c_log_id C) l) (fold (mutate cf_put cf_delete) ms cf))
    \<and> db_default st' = db_default st \<and> (\<forall>x. x \<noteq> name \<longrightarrow> db_cfs st' x = db_cfs st x)"
proof -
  let ?batch = "map (mutation_op name) ms @ [BPutCf name last_applied_key (enc (c_log_id C) l)]"
  let ?w = "db_write ?batch st"
  have cf: "active_state_cf_name C st g = Ok name" "db_cfs st name = Some cf"
    using assms(1) by (simp_all add: state_cf_Ok)
  have w: "?w = batch_step (BPutCf name last_applied_key (enc (c_log_id C) l)) (db_write (map (mutation_op name) ms) st)"
    by (simp only: db_write_append) (simp only: db_write_def fold_simps)
  have d: "db_default ?w = db_default st" by (simp add: w)
  then have "active_state_cf_name C ?w g = Ok name"
    using cf(1) by (simp add: active_state_cf_name_def get_local_def)
  moreover have "db_cfs ?w name = Some (cf_put last_applied_key (enc (c_log_id C) l) (fold (mutate cf_put cf_delete) ms cf))"
    by (simp add: w db_write_mutations_cfs cf(2))
  moreover have "\<forall>x. x \<noteq> name \<longrightarrow> db_cfs ?w x = db_cfs st x"
    by (simp add: w db_write_mutations_cfs)
  ultimately have written: "state_cf C ?w g = Ok (name, cf_put last_applied_key (enc (c_log_id C) l) (fold (mutate cf_put cf_delete) ms cf))
    \<and> db_default ?w = db_default st \<and> (\<forall>x. x \<noteq> name \<longrightarrow> db_cfs ?w x = db_cfs st x)"
    using d by (simp add: state_cf_Ok)
  have run: "apply_state C fault g ms l st =
      sbind (st, crash_point fault ''apply_state::before_write'') (\<lambda>st _.
      sbind (write_opt fault ?batch st) (\<lambda>st _.
      sbind (st, crash_point fault ''apply_state::after_write'') (\<lambda>st _. (st, Ok ()))))"
    by (simp add: apply_state_def assms(1) Let_def)
  show ?thesis
    using assms(2) written unfolding run
    by (cases "fault ''apply_state::before_write''"; cases "fault ''write''"; cases "fault ''apply_state::after_write''")
      (auto simp: crash_point_def write_opt_def)
qed

subsection \<open>A healthy group keeps applying\<close>

text \<open>
  Pruning succeeds while the group's outbox rows and consumer records decode; both survive every
  applied batch, so the latch stays open.
\<close>

definition outbox_ok :: "('a search_codecs_scheme) \<Rightarrow> storage \<Rightarrow> group_id \<Rightarrow> bool" where
  "outbox_ok C st g \<longleftrightarrow> g \<noteq> Meta \<longrightarrow>
     outbox_readable g (db_default st) \<and> (\<exists>all. search_consumers C st g = Ok all)"

lemma prune_Ok:
  assumes "group_open C st g name cf lcf" "outbox_ok C st g" "g \<noteq> Meta"
  shows "\<exists>n. prune_search_outbox C g st = (fst (prune_search_outbox C g st), Ok n)"
proof -
  obtain p where g: "g = Data p" using assms(3) by (cases g) auto
  obtain stored where "get_local (c_u64 C) st (search_epoch_key g) = Ok stored"
    using assms(1,3) by (auto simp: group_open_def)
  then obtain epoch where ep: "search_projection_epoch C st g = Ok epoch" by (simp add: search_projection_epoch_def g)
  obtain all where all: "search_consumers C st g = Ok all" using assms(2,3) by (auto simp: outbox_ok_def)
  show ?thesis
  proof (cases "prune_minimum epoch None (filter holds_retention (map snd all))")
    case None
    then show ?thesis using all ep by (simp add: prune_search_outbox_def Let_def)
  next
    case (Some m)
    have "cf_wf (db_default st)" "outbox_readable g (db_default st)"
      using assms by (auto simp: group_open_def outbox_ok_def)
    from prune_search_outbox_eq [OF this all ep Some] show ?thesis by auto
  qed
qed

lemma filter_prefix_put:
  "cf_wf c \<Longrightarrow> \<not> starts_with k p \<Longrightarrow>
   filter (\<lambda>kv. starts_with (fst kv) p) (cf_put k v c) = filter (\<lambda>kv. starts_with (fst kv) p) c"
proof (rule cf_ext)
  assume wf: "cf_wf c" and k: "\<not> starts_with k p"
  let ?P = "\<lambda>kv. starts_with (fst kv) p"
  have wf': "cf_wf (filter ?P d)" if "cf_wf d" for d
    using that by (simp add: strictly_sorted_def sorted_wrt_filter)
  show "cf_wf (filter ?P (cf_put k v c))" "cf_wf (filter ?P c)" using wf by (simp_all add: wf' cf_wf_put)
  have get: "cf_get (filter ?P d) x = (if starts_with x p then cf_get d x else None)" for d x
    by (induction d) (auto simp: cf_get_def)
  show "cf_get (filter ?P (cf_put k v c)) x = cf_get (filter ?P c) x" for x
    using k by (simp add: get cf_get_put wf)
qed

lemma consumers_put:
  assumes "cf_wf (db_default st)" "\<not> starts_with k (search_consumer_prefix g)"
  shows "search_consumers C (batch_step (BPut k v) st) g = search_consumers C st g"
  using assms by (simp add: search_consumers_def cf_iter_prefix_filter cf_wf_put filter_prefix_put)

text \<open>The default-column-family writes of an applied batch: outbox rows of the group, or its epoch.\<close>

definition outbox_put :: "group_id \<Rightarrow> batch_op \<Rightarrow> bool" where
  "outbox_put g op \<longleftrightarrow> (\<exists>k v. op = BPut k v \<and> \<not> starts_with k (search_consumer_prefix g)
     \<and> (starts_with k (search_outbox_prefix g) \<longrightarrow> (\<exists>e. decode_outbox_key g k = Ok e)))"

lemma epoch_not_consumer: "\<not> starts_with (search_epoch_key g) (search_consumer_prefix g)"
  by (simp add: starts_with_iff search_epoch_key_def search_consumer_prefix_def as_bytes_Cons)

lemma outbox_not_consumer:
  assumes "starts_with k (search_outbox_prefix g)"
  shows "\<not> starts_with k (search_consumer_prefix g)"
proof
  assume "starts_with k (search_consumer_prefix g)"
  with assms obtain r s where "search_prefix g @ as_bytes ''outbox/'' @ r = search_prefix g @ as_bytes ''consumer/'' @ s"
    unfolding starts_with_iff search_outbox_prefix_def search_consumer_prefix_def append_assoc by metis
  then show False by (simp add: as_bytes_Cons)
qed

lemma outbox_ops_put:
  assumes "outbox_ops C st g lid ms = Ok ops"
  shows "list_all (outbox_put g) ops"
proof (cases g)
  case (Data p)
  have row: "list_all (outbox_put g) y" if "outbox_row g e lid m = Ok y" for e m y
    using that decode_encode_outbox_key decode_outbox_key_prefix outbox_not_consumer
    by (fastforce simp: outbox_row_def outbox_put_def split: option.splits)
  from assms obtain stored rows epoch where rows: "rmapM (outbox_row g epoch lid) ms = Ok rows"
    and ops: "ops = (if stored = None then [BPut (search_epoch_key g) (enc (c_u64 C) epoch)] else []) @ concat rows"
    by (force simp: outbox_ops_def Data Let_def)
  have "list_all (outbox_put g) y" if "y \<in> set rows" for y
    using rmapM_InrD [OF rows that] row by blast
  moreover have "outbox_put g (BPut (search_epoch_key g) v)" for v
    using epoch_not_consumer search_epoch_key_not_outbox by (simp add: outbox_put_def)
  ultimately show ?thesis by (auto simp: ops list_all_iff)
qed (use assms in \<open>simp add: outbox_ops_def\<close>)

lemma outbox_ok_puts:
  assumes "cf_wf (db_default st)" "list_all (outbox_put g) ops" "outbox_ok C st g"
  shows "outbox_ok C (db_write ops st) g"
  using assms
proof (induction ops arbitrary: st)
  case (Cons op ops)
  then obtain k v where op: "op = BPut k v" "\<not> starts_with k (search_consumer_prefix g)"
    "starts_with k (search_outbox_prefix g) \<longrightarrow> (\<exists>e. decode_outbox_key g k = Ok e)"
    by (auto simp: outbox_put_def)
  have "set (cf_put k v (db_default st)) \<subseteq> insert (k, v) (set (db_default st))"
    using Cons.prems(1) by (auto simp: cf_get_Some_iff [symmetric] cf_get_put cf_wf_put split: if_splits)
  then have "outbox_readable g (cf_put k v (db_default st))" if "outbox_readable g (db_default st)"
    using that op(3) unfolding outbox_readable_def by fastforce
  then have "outbox_ok C (batch_step op st) g"
    using Cons.prems(3) consumers_put [OF Cons.prems(1) op(2), of C v] by (auto simp: op(1) outbox_ok_def)
  from Cons.IH [OF _ _ this] Cons.prems(1,2) show ?case by (simp add: op(1) db_write_def cf_wf_put)
qed (simp add: db_write_def)

lemma outbox_ok_default: "db_default st' = db_default st \<Longrightarrow> outbox_ok C st' g = outbox_ok C st g"
  by (simp add: outbox_ok_def search_consumers_def)

lemma outbox_ok_batch:
  assumes "cf_wf (db_default st)" "outbox_ops C st g lid ms = Ok ops" "outbox_ok C st g"
  shows "outbox_ok C (db_write (raft_batch name lname ms ops ar cr) st) g"
proof -
  let ?s1 = "db_write (map (mutation_op name) ms) st"
  have 1: "outbox_ok C (db_write ops ?s1) g"
  proof (rule outbox_ok_puts)
    show "cf_wf (db_default ?s1)" using assms(1) by simp
    show "list_all (outbox_put g) ops" by (rule outbox_ops_put [OF assms(2)])
    show "outbox_ok C ?s1 g" using outbox_ok_default [of ?s1 st C g] assms(3) by simp
  qed
  have tail: "db_default (db_write [BPutCf a k v, BPutCf c l w] s) = db_default s" for a k v c l w s
    by (simp add: db_write_def)
  have "db_default (db_write (raft_batch name lname ms ops ar cr) st) = db_default (db_write ops ?s1)"
    by (simp only: raft_batch_def db_write_append tail)
  from outbox_ok_default [OF this, of C g] 1 show ?thesis by simp
qed

lemma outbox_ok_prune:
  assumes "cf_wf (db_default st)" "outbox_ok C st g"
  shows "outbox_ok C (fst (prune_search_outbox C g st)) g"
proof -
  obtain ds where st': "fst (prune_search_outbox C g st) = db_write (map BDelete ds) st"
    and ds: "\<forall>k \<in> set ds. starts_with k (search_outbox_prefix g)"
    using prune_cases by blast
  have "filter (\<lambda>kv. starts_with (fst kv) (search_consumer_prefix g)) (filter (\<lambda>kv. fst kv \<notin> set ds) (db_default st)) =
      filter (\<lambda>kv. starts_with (fst kv) (search_consumer_prefix g)) (db_default st)"
    using ds outbox_not_consumer by (auto intro!: filter_cong)
  moreover have "cf_wf (filter (\<lambda>kv. fst kv \<notin> set ds) (db_default st))"
    using assms(1) by (simp add: strictly_sorted_def sorted_wrt_filter)
  ultimately show ?thesis
    using assms by (auto simp: st' db_write_deletes outbox_ok_def outbox_readable_def search_consumers_def cf_iter_prefix_filter)
qed

lemma prune_failed [simp]: "db_failed (fst (prune_search_outbox C g st)) = db_failed st"
  using prune_cases [of C g st] by auto

text \<open>A group that is open, decodable and on a healthy database.\<close>

definition group_ready ::
  "('a search_codecs_scheme) \<Rightarrow> storage \<Rightarrow> group_id \<Rightarrow> string \<Rightarrow> cf \<Rightarrow> cf \<Rightarrow> bool" where
  "group_ready C st g name cf lcf \<longleftrightarrow> group_open C st g name cf lcf \<and> outbox_ok C st g \<and> db_failed st = None"

lemma apply_raft_Ok:
  assumes "group_ready C st g name cf lcf" "codec_ok (c_u64 C)"
    and "g \<noteq> Meta \<longrightarrow> (\<forall>m \<in> set ms. length (mutation_key m) \<le> 2 ^ 32)"
  obtains st' where "apply_raft C no_fault g ms lid ar cr n st = (st', Ok ())"
    and "group_ready C st' g name (applied_cf ms ar cf) (cf_put KEY_COMMITTED cr lcf)"
    and "search_only (db_default st) (db_default st')"
    and "\<forall>x. x \<noteq> name \<and> x \<noteq> cf_log g \<longrightarrow> db_cfs st' x = db_cfs st x"
proof -
  have op: "group_open C st g name cf lcf" "outbox_ok C st g" "db_failed st = None"
    using assms(1) by (simp_all add: group_ready_def)
  obtain ops where ops: "outbox_ops C st g lid ms = Ok ops"
    using outbox_ops_Ok op(1) assms(3) by (metis group_open_def)
  let ?w = "db_write (raft_batch name (cf_log g) ms ops ar cr) st"
  let ?st' = "if g \<noteq> Meta \<and> crossed_search_prune_boundary (rl_index lid) n then fst (prune_search_outbox C g ?w) else ?w"
  note w = raft_batch_effect [OF op(1) ops assms(2), where ar = ar and cr = cr, OF refl]
  have wf: "cf_wf (db_default ?w)" and ok: "outbox_ok C ?w g"
    using w(1) outbox_ok_batch [OF _ ops op(2)] op(1) by (auto simp: group_open_def)
  have run: "apply_raft C no_fault g ms lid ar cr n st = (?st', Ok ())"
    using prune_Ok [OF w(1) ok] op(3)
    unfolding apply_raft_run [OF op(1) ops]
    by (auto simp: crash_point_def no_fault_def write_state_batch_def require_healthy_def prune_or_fail_def Let_def
        split: prod.splits sum.splits)
  have "outbox_ok C ?st' g" "db_failed ?st' = None"
    using ok outbox_ok_prune [OF wf ok] op(3) by auto
  with apply_raft_cases [OF op(1) assms(2) run] show thesis
    by (intro that [OF run]) (auto simp: group_ready_def)
qed

text \<open>Once the latch is set, nothing is written.\<close>

lemma apply_raft_failed:
  assumes "db_failed st \<noteq> None"
  shows "\<exists>e. apply_raft C fault g ms lid ar cr n st = (st, Err e)"
proof -
  obtain msg where msg: "db_failed st = Some msg" using assms by blast
  show ?thesis
    by (cases "state_cf C st g"; cases "log_cf st g"; cases "outbox_ops C st g lid ms")
      (auto simp: apply_raft_def Let_def crash_point_def write_state_batch_def require_healthy_def msg split: option.split)
qed

end
