(* ===== verification/Data_SM.thy ===== *)
theory Data_SM
  imports Batch
begin

section \<open>The data state machine (partition/state_machine.rs)\<close>

text \<open>
  Puts, deletes, numeric and create-only compare-and-set, and the per-client idempotency
  records, as \<open>src/src/partition/state_machine.rs\<close> decides them through its read seam: a
  reader is the committed column family or an overlay of staged writes on top of it.  The
  second half states the specification the machine implements, on a typed view (keys, client
  records, recovery epoch), and proves that \<open>evaluate\<close> refines it for every reader.
\<close>

subsection \<open>Reading through storage or an overlay\<close>

record state_overlay =
  ov_storage :: storage
  ov_pending :: "(bytes \<times> bytes option) list"

definition overlay_new :: "storage \<Rightarrow> state_overlay" where
  "overlay_new st = \<lparr>ov_storage = st, ov_pending = []\<rparr>"

text \<open>\<open>HashMap::insert\<close>: replace the value of a present key, or add the key.\<close>

fun hash_insert :: "'k \<Rightarrow> 'v \<Rightarrow> ('k \<times> 'v) list \<Rightarrow> ('k \<times> 'v) list" where
  "hash_insert k v [] = [(k, v)]"
| "hash_insert k v ((k', v') # kvs) = (if k' = k then (k, v) # kvs else (k', v') # hash_insert k v kvs)"

fun stage_one :: "state_mutation \<Rightarrow> (bytes \<times> bytes option) list \<Rightarrow> (bytes \<times> bytes option) list" where
  "stage_one (MutPut k v) pending = hash_insert k (Some v) pending"
| "stage_one (MutDelete k) pending = hash_insert k None pending"

definition stage :: "state_mutation list \<Rightarrow> state_overlay \<Rightarrow> state_overlay" where
  "stage mutations ov = ov\<lparr>ov_pending := fold stage_one mutations (ov_pending ov)\<rparr>"

text \<open>
  \<open>HashMap::into_iter\<close> yields the entries in an unspecified order: \<open>iter\<close> is a
  parameter, of which only that it permutes the entries is used.
\<close>

definition into_mutations ::
  "((bytes \<times> bytes option) list \<Rightarrow> (bytes \<times> bytes option) list) \<Rightarrow> state_overlay \<Rightarrow> state_mutation list" where
  "into_mutations iter ov =
     map (\<lambda>(key, value). case value of Some v \<Rightarrow> MutPut key v | None \<Rightarrow> MutDelete key) (iter (ov_pending ov))"

datatype reader = OnStorage storage | OnOverlay state_overlay

fun read_state ::
  "('a store_codecs_scheme) \<Rightarrow> 'v codec \<Rightarrow> reader \<Rightarrow> group_id \<Rightarrow> bytes \<Rightarrow> 'v option result" where
  "read_state C c (OnStorage st) g key = get_state_record C c st g key"
| "read_state C c (OnOverlay ov) g key =
     (case map_of (ov_pending ov) key of
        Some (Some bs) \<Rightarrow> rbind (dec c bs) (\<lambda>v. Ok (Some v))
      | Some None \<Rightarrow> Ok None
      | None \<Rightarrow> get_state_record C c (ov_storage ov) g key)"

subsection \<open>Records and results\<close>

record key_record =
  kr_version :: version
  kr_value :: bytes

record seq_record =
  sq_highest :: sequence
  sq_digest :: u128
  sq_result :: mutation_result

record sequence_outcome =
  so_highest :: sequence
  so_digest :: u128
  so_result :: mutation_result

datatype reject_reason =
    RecoveryEpochMismatch u128 u128
  | SequenceGap sequence sequence
  | StaleSequence sequence sequence
  | SequenceMismatch
  | Malformed
  | SequenceExhausted

datatype apply_result =
    Decided mutation_result
  | Replayed mutation_result
  | Rejected reject_reason
  | NoOp

fun mutation :: "apply_result \<Rightarrow> mutation_result option" where
  "mutation (Decided r) = Some r"
| "mutation (Replayed r) = Some r"
| "mutation (Rejected _) = None"
| "mutation NoOp = None"

record apply_observation =
  ao_group :: group_id
  ao_log_id :: raft_log_id
  ao_client_id :: client_id
  ao_sequence :: sequence
  ao_digest :: u128
  ao_result :: apply_result

text \<open>The codecs of the data records and \<open>xxh3_128\<close> (crate xxhash-rust): parameters.\<close>

record data_env = search_codecs +
  c_key :: "key_record codec"
  c_seq :: "seq_record codec"
  c_op :: "data_op codec"
  xxh3_128 :: "bytes \<Rightarrow> u128"

definition digest :: "('a data_env_scheme) \<Rightarrow> data_op \<Rightarrow> u128" where
  "digest E op = xxh3_128 E (enc (c_op E) op)"

subsection \<open>Operations\<close>

definition key_record_of :: "('a data_env_scheme) \<Rightarrow> group_id \<Rightarrow> reader \<Rightarrow> bytes \<Rightarrow> key_record option result" where
  "key_record_of E g reader key = read_state E (c_key E) reader g (user_key key)"

definition seq_record_of :: "('a data_env_scheme) \<Rightarrow> group_id \<Rightarrow> reader \<Rightarrow> client_id \<Rightarrow> seq_record option result" where
  "seq_record_of E g reader client = read_state E (c_seq E) reader g (seq_key client)"

definition inspect_sequence ::
  "('a data_env_scheme) \<Rightarrow> group_id \<Rightarrow> reader \<Rightarrow> client_id \<Rightarrow> sequence_outcome option result" where
  "inspect_sequence E g reader client =
     rbind (seq_record_of E g reader client) (\<lambda>r.
       Ok (map_option (\<lambda>s. \<lparr>so_highest = sq_highest s, so_digest = sq_digest s, so_result = sq_result s\<rparr>) r))"

definition data_get :: "('a data_env_scheme) \<Rightarrow> group_id \<Rightarrow> reader \<Rightarrow> bytes \<Rightarrow> (version \<times> bytes) option result" where
  "data_get E g reader key =
     rbind (key_record_of E g reader key) (\<lambda>r. Ok (map_option (\<lambda>k. (kr_version k, kr_value k)) r))"

definition put_condition :: "key_record option \<Rightarrow> if_version option \<Rightarrow> bool" where
  "put_condition current if_version =
     (case if_version of
        None \<Rightarrow> True
      | Some (Number v) \<Rightarrow> (case current of Some r \<Rightarrow> kr_version r = v | None \<Rightarrow> False)
      | Some AbsentOnly \<Rightarrow> current = None)"

definition delete_condition :: "key_record option \<Rightarrow> if_version option \<Rightarrow> bool" where
  "delete_condition current if_version =
     (case if_version of
        None \<Rightarrow> True
      | Some (Number v) \<Rightarrow> (case current of Some r \<Rightarrow> kr_version r = v | None \<Rightarrow> False)
      | Some AbsentOnly \<Rightarrow> False)"

definition decide ::
  "('a data_env_scheme) \<Rightarrow> group_id \<Rightarrow> reader \<Rightarrow> data_op \<Rightarrow> u64
    \<Rightarrow> (mutation_result \<times> state_mutation option) result" where
  "decide E g reader op log_index =
     rbind (key_record_of E g reader (op_key op)) (\<lambda>current.
     let presence = (case current of Some r \<Rightarrow> Present (kr_version r) | None \<Rightarrow> Absent) in
     case op of
       OpPut key value if_version \<Rightarrow>
         if \<not> put_condition current if_version then Ok (ConditionFailed presence, None)
         else Ok (Applied log_index,
                  Some (MutPut (user_key key) (enc (c_key E) \<lparr>kr_version = log_index, kr_value = value\<rparr>)))
     | OpDelete key if_version \<Rightarrow>
         if \<not> delete_condition current if_version then Ok (ConditionFailed presence, None)
         else Ok (Applied log_index,
                  if current \<noteq> None then Some (MutDelete (user_key key)) else None))"

definition oversized :: "data_op \<Rightarrow> bool" where
  "oversized op = (case op of OpPut _ value _ \<Rightarrow> length value > MAX_VALUE_BYTES | OpDelete _ _ \<Rightarrow> False)"

definition absent_delete :: "data_op \<Rightarrow> bool" where
  "absent_delete op = (case op of OpDelete _ (Some AbsentOnly) \<Rightarrow> True | _ \<Rightarrow> False)"

definition evaluate ::
  "('a data_env_scheme) \<Rightarrow> group_id \<Rightarrow> reader \<Rightarrow> data_request \<Rightarrow> u64
    \<Rightarrow> (apply_result \<times> state_mutation list) result" where
  "evaluate E g reader req log_index =
     rbind (read_state E (c_u128 E) reader g recovery_epoch_key) (\<lambda>stored.
     let recovery_epoch = (case stored of Some e \<Rightarrow> e | None \<Rightarrow> 0) in
     if dr_recovery_epoch req \<noteq> recovery_epoch
     then Ok (Rejected (RecoveryEpochMismatch recovery_epoch (dr_recovery_epoch req)), [])
     else if oversized (dr_op req) then Ok (Rejected Malformed, [])
     else if absent_delete (dr_op req) then Ok (Rejected Malformed, [])
     else
     rbind (seq_record_of E g reader (dr_client_id req)) (\<lambda>seq.
     let highest = (case seq of Some s \<Rightarrow> sq_highest s | None \<Rightarrow> 0) in
     if dr_sequence req = highest then
       Ok (case seq of
             Some s \<Rightarrow> if sq_digest s = digest E (dr_op req) then (Replayed (sq_result s), [])
                      else (Rejected SequenceMismatch, [])
           | None \<Rightarrow> (Rejected (StaleSequence highest (dr_sequence req)), []))
     else if dr_sequence req < highest
     then Ok (Rejected (StaleSequence highest (dr_sequence req)), [])
     else case checked_add1 highest of
       None \<Rightarrow> Ok (Rejected SequenceExhausted, [])
     | Some expected \<Rightarrow>
         if dr_sequence req > expected
         then Ok (Rejected (SequenceGap expected (dr_sequence req)), [])
         else
         rbind (decide E g reader (dr_op req) log_index) (\<lambda>(result, key_mutation).
         let seq_record = \<lparr>sq_highest = dr_sequence req, sq_digest = digest E (dr_op req), sq_result = result\<rparr>
         in Ok (Decided result,
                (case key_mutation of Some m \<Rightarrow> [m] | None \<Rightarrow> [])
                @ [MutPut (seq_key (dr_client_id req)) (enc (c_seq E) seq_record)]))))"

definition data_log_id :: "u64 \<Rightarrow> log_id" where
  "data_log_id index = LogId 0 index"

definition data_apply ::
  "('a data_env_scheme) \<Rightarrow> faults \<Rightarrow> group_id \<Rightarrow> data_request \<Rightarrow> u64 \<Rightarrow> storage
    \<Rightarrow> storage \<times> apply_result result" where
  "data_apply E fault g req log_index st =
     sbind (st, evaluate E g (OnStorage st) req log_index) (\<lambda>st (result, muts).
     sbind (apply_state E fault g muts (data_log_id log_index) st) (\<lambda>st _.
     (st, Ok result)))"

subsection \<open>Specification\<close>

record data_view =
  dv_keys :: "bytes \<Rightarrow> key_record option"
  dv_seqs :: "client_id \<Rightarrow> seq_record option"
  dv_epoch :: "u128 option"

definition spec_condition :: "key_record option \<Rightarrow> data_op \<Rightarrow> bool" where
  "spec_condition current op \<longleftrightarrow>
     (case op_if_version op of
        None \<Rightarrow> True
      | Some (Number v) \<Rightarrow> map_option kr_version current = Some v
      | Some AbsentOnly \<Rightarrow> current = None \<and> is_OpPut op)"

definition spec_effect :: "data_op \<Rightarrow> u64 \<Rightarrow> key_record option" where
  "spec_effect op i = (case op of OpPut _ v _ \<Rightarrow> Some \<lparr>kr_version = i, kr_value = v\<rparr> | OpDelete _ _ \<Rightarrow> None)"

definition spec_decide :: "key_record option \<Rightarrow> data_op \<Rightarrow> u64 \<Rightarrow> mutation_result \<times> key_record option" where
  "spec_decide current op i =
     (if spec_condition current op then (Applied i, spec_effect op i)
      else (ConditionFailed (case current of Some r \<Rightarrow> Present (kr_version r) | None \<Rightarrow> Absent), current))"

text \<open>What the sequence gate does with a request, given the client's record.\<close>

datatype gate = Fresh | Answer apply_result

definition spec_gate :: "(data_op \<Rightarrow> u128) \<Rightarrow> data_view \<Rightarrow> data_request \<Rightarrow> gate" where
  "spec_gate dg v req =
     (let epoch = (case dv_epoch v of Some e \<Rightarrow> e | None \<Rightarrow> 0);
          seq = dv_seqs v (dr_client_id req);
          highest = (case seq of Some s \<Rightarrow> sq_highest s | None \<Rightarrow> 0);
          s = dr_sequence req
      in if dr_recovery_epoch req \<noteq> epoch
         then Answer (Rejected (RecoveryEpochMismatch epoch (dr_recovery_epoch req)))
         else if oversized (dr_op req) \<or> absent_delete (dr_op req) then Answer (Rejected Malformed)
         else if s = highest then
           Answer (case seq of None \<Rightarrow> Rejected (StaleSequence highest s)
             | Some r \<Rightarrow> if sq_digest r = dg (dr_op req) then Replayed (sq_result r) else Rejected SequenceMismatch)
         else if s < highest then Answer (Rejected (StaleSequence highest s))
         else if unat s = Suc (unat highest) then Fresh
         else Answer (Rejected (SequenceGap (highest + 1) s)))"

definition spec_step :: "(data_op \<Rightarrow> u128) \<Rightarrow> data_view \<Rightarrow> u64 \<times> data_request \<Rightarrow> data_view \<times> apply_result" where
  "spec_step dg v = (\<lambda>(i, req).
     case spec_gate dg v req of
       Answer r \<Rightarrow> (v, r)
     | Fresh \<Rightarrow>
         let (result, new) = spec_decide (dv_keys v (op_key (dr_op req))) (dr_op req) i
         in (v\<lparr>dv_keys := (dv_keys v)(op_key (dr_op req) := new),
               dv_seqs := (dv_seqs v)(dr_client_id req \<mapsto>
                 \<lparr>sq_highest = dr_sequence req, sq_digest = dg (dr_op req), sq_result = result\<rparr>)\<rparr>,
             Decided result))"

subsection \<open>Readers\<close>

lemma map_of_hash_insert: "map_of (hash_insert k v kvs) = (map_of kvs)(k \<mapsto> v)"
  by (induction kvs) (auto simp: fun_eq_iff)

lemma keys_hash_insert: "fst ` set (hash_insert k v kvs) = insert k (fst ` set kvs)"
proof (induction kvs)
  case (Cons kv kvs)
  then show ?case by (cases kv) (simp add: insert_commute)
qed simp

lemma distinct_hash_insert:
  "distinct (map fst kvs) \<Longrightarrow> distinct (map fst (hash_insert k v kvs))"
  by (induction kvs) (auto simp: keys_hash_insert)

lemma stage_one_eq: "stage_one m = hash_insert (mutation_key m) (mutation_value m)"
  by (cases m) auto

lemma map_of_stage:
  "map_of (fold stage_one ms pending) k = (case last_write ms k of Some w \<Rightarrow> Some w | None \<Rightarrow> map_of pending k)"
  by (induction ms arbitrary: pending) (auto simp: stage_one_eq map_of_hash_insert split: option.split)

lemma distinct_stage: "distinct (map fst pending) \<Longrightarrow> distinct (map fst (fold stage_one ms pending))"
  by (induction ms arbitrary: pending) (auto simp: stage_one_eq distinct_hash_insert)

text \<open>The bytes a reader sees, once its group's column family is resolved.\<close>

fun raw_read :: "('a store_codecs_scheme) \<Rightarrow> reader \<Rightarrow> group_id \<Rightarrow> bytes \<Rightarrow> bytes option result" where
  "raw_read C (OnStorage st) g key = get_state C st g key"
| "raw_read C (OnOverlay ov) g key =
     (case map_of (ov_pending ov) key of Some w \<Rightarrow> Ok w | None \<Rightarrow> get_state C (ov_storage ov) g key)"

lemma read_state_raw:
  "read_state C c reader g key =
     rbind (raw_read C reader g key) (\<lambda>v. case v of Some bs \<Rightarrow> rbind (dec c bs) (\<lambda>x. Ok (Some x)) | None \<Rightarrow> Ok None)"
  by (cases reader) (auto simp: get_state_record_def split: option.split)

definition sees :: "('a store_codecs_scheme) \<Rightarrow> group_id \<Rightarrow> reader \<Rightarrow> (bytes \<Rightarrow> bytes option) \<Rightarrow> bool" where
  "sees C g reader content \<longleftrightarrow> (\<forall>k. raw_read C reader g k = Ok (content k))"

definition written :: "state_mutation list \<Rightarrow> (bytes \<Rightarrow> bytes option) \<Rightarrow> bytes \<Rightarrow> bytes option" where
  "written ms content k = (case last_write ms k of Some w \<Rightarrow> w | None \<Rightarrow> content k)"

lemma sees_storage: "state_cf C st g = Ok (name, cf) \<Longrightarrow> sees C g (OnStorage st) (cf_get cf)"
  by (simp add: sees_def get_state_def)

lemma sees_overlay_new: "sees C g (OnStorage st) content \<Longrightarrow> sees C g (OnOverlay (overlay_new st)) content"
  by (simp add: sees_def overlay_new_def)

lemma sees_stage:
  "sees C g (OnOverlay ov) content \<Longrightarrow> sees C g (OnOverlay (stage ms ov)) (written ms content)"
  unfolding sees_def
proof (rule allI)
  fix k
  assume "\<forall>k. raw_read C (OnOverlay ov) g k = Ok (content k)"
  then have "raw_read C (OnOverlay ov) g k = Ok (content k)" ..
  then show "raw_read C (OnOverlay (stage ms ov)) g k = Ok (written ms content k)"
    by (simp add: stage_def map_of_stage written_def split: option.splits)
qed

lemma written_append: "written (ms @ ns) content = written ns (written ms content)"
  by (auto simp: written_def last_write_append fun_eq_iff split: option.split)

lemma written_Nil [simp]: "written [] content = content"
  by (simp add: written_def fun_eq_iff)

subsection \<open>The view a column family represents\<close>

definition data_codecs_ok :: "('a data_env_scheme) \<Rightarrow> bool" where
  "data_codecs_ok E \<longleftrightarrow> search_codecs_ok E \<and> codec_ok (c_key E) \<and> codec_ok (c_seq E) \<and> codec_ok (c_op E)"

definition data_rep :: "('a data_env_scheme) \<Rightarrow> (bytes \<Rightarrow> bytes option) \<Rightarrow> data_view \<Rightarrow> bool" where
  "data_rep E content v \<longleftrightarrow>
     (\<forall>k. content (user_key k) = map_option (enc (c_key E)) (dv_keys v k))
     \<and> (\<forall>c. content (seq_key c) = map_option (enc (c_seq E)) (dv_seqs v c))
     \<and> content recovery_epoch_key = map_option (enc (c_u128 E)) (dv_epoch v)"

lemma user_seq_keys [key_simps]:
  "user_key k \<noteq> seq_key c" "seq_key c \<noteq> user_key k" "user_key k \<noteq> recovery_epoch_key"
  "recovery_epoch_key \<noteq> user_key k" "seq_key c \<noteq> recovery_epoch_key" "recovery_epoch_key \<noteq> seq_key c"
  "user_key k = user_key k' \<longleftrightarrow> k = k'" "seq_key c = seq_key c' \<longleftrightarrow> c = c'"
  by (simp_all add: user_key_def seq_key_def recovery_epoch_key_def tag_defs)

lemma read_typed:
  assumes "sees C g reader content" "codec_ok c" "content k = map_option (enc c) x"
  shows "read_state C c reader g k = Ok x"
  using assms by (cases x) (auto simp: read_state_raw sees_def codec_ok_def)

lemma data_reads:
  assumes "sees E g reader content" "data_codecs_ok E" "data_rep E content v"
  shows "key_record_of E g reader k = Ok (dv_keys v k)"
    "seq_record_of E g reader c = Ok (dv_seqs v c)"
    "read_state E (c_u128 E) reader g recovery_epoch_key = Ok (dv_epoch v)"
  using assms
  by (auto simp: key_record_of_def seq_record_of_def data_codecs_ok_def search_codecs_ok_def data_rep_def
      intro!: read_typed)

subsection \<open>Refinement\<close>

lemma decide_refines:
  assumes "sees E g reader content" "data_codecs_ok E" "data_rep E content v" "\<not> absent_delete op"
    and "spec_decide (dv_keys v (op_key op)) op i = (result, new)"
  obtains m where "decide E g reader op i = Ok (result, m)"
    and "written (case m of Some x \<Rightarrow> [x] | None \<Rightarrow> []) content =
      content(user_key (op_key op) := map_option (enc (c_key E)) new)"
    and "\<forall>x. m = Some x \<longrightarrow> mutation_key x = user_key (op_key op)"
proof -
  note current = data_reads(1) [OF assms(1-3), of "op_key op"]
  have content: "content (user_key k) = map_option (enc (c_key E)) (dv_keys v k)" for k
    using assms(3) by (simp add: data_rep_def)
  show thesis
  proof (cases op)
    case (OpPut key val ifv)
    have cond: "put_condition (dv_keys v key) ifv \<longleftrightarrow> spec_condition (dv_keys v key) op"
      by (auto simp: OpPut put_condition_def spec_condition_def split: option.split if_version.split)
    show thesis
      using assms(5) current cond content
      by (intro that [of "if spec_condition (dv_keys v key) op
            then Some (MutPut (user_key key) (enc (c_key E) \<lparr>kr_version = i, kr_value = val\<rparr>)) else None"])
        (auto simp: OpPut decide_def Let_def spec_decide_def spec_effect_def written_def fun_eq_iff
          split: if_splits option.splits)
  next
    case (OpDelete key ifv)
    have cond: "delete_condition (dv_keys v key) ifv \<longleftrightarrow> spec_condition (dv_keys v key) op"
      using assms(4)
      by (auto simp: OpDelete delete_condition_def spec_condition_def absent_delete_def split: option.split if_version.split)
    show thesis
      using assms(5) current cond content
      by (intro that [of "if spec_condition (dv_keys v key) op \<and> dv_keys v key \<noteq> None
            then Some (MutDelete (user_key key)) else None"])
        (auto simp: OpDelete decide_def Let_def spec_decide_def spec_effect_def written_def fun_eq_iff
          split: if_splits option.splits)
  qed
qed

lemma gate_arith:
  "\<not> s \<le> (h :: u64) \<Longrightarrow> checked_add1 h = Some (h + 1) \<and> (s > h + 1 \<longleftrightarrow> unat s \<noteq> Suc (unat h))"
proof -
  assume "\<not> s \<le> h"
  then have less: "unat h < unat s" by (simp add: word_le_nat_alt)
  have "h \<noteq> - 1"
  proof
    assume "h = - 1"
    then have "s \<le> h" by simp
    with \<open>\<not> s \<le> h\<close> show False by simp
  qed
  with less show ?thesis by (auto simp: checked_add1_def unat_inc word_less_nat_alt)
qed

lemma evaluate_refines:
  assumes "sees E g reader content" "data_codecs_ok E" "data_rep E content v"
  obtains ms where "evaluate E g reader req i = Ok (snd (spec_step (digest E) v (i, req)), ms)"
    and "data_rep E (written ms content) (fst (spec_step (digest E) v (i, req)))"
    and "\<forall>m \<in> set ms. mutation_key m = user_key (op_key (dr_op req)) \<or> mutation_key m = seq_key (dr_client_id req)"
    and "(\<forall>r. snd (spec_step (digest E) v (i, req)) \<noteq> Decided r) \<Longrightarrow> ms = []"
proof -
  note reads = data_reads [OF assms]
  let ?seq = "dv_seqs v (dr_client_id req)"
  let ?h = "case ?seq of Some s \<Rightarrow> sq_highest s | None \<Rightarrow> 0"
  have arith: "dr_sequence req \<noteq> ?h \<Longrightarrow> \<not> dr_sequence req < ?h \<Longrightarrow>
      checked_add1 ?h = Some (?h + 1) \<and> (dr_sequence req > ?h + 1 \<longleftrightarrow> unat (dr_sequence req) \<noteq> Suc (unat ?h))"
    using gate_arith [of "dr_sequence req" ?h] by simp
  show thesis
  proof (cases "spec_gate (digest E) v req")
    case (Answer r)
    then have "evaluate E g reader req i = Ok (r, [])"
      using arith reads
      by (auto simp: evaluate_def spec_gate_def Let_def split: if_splits option.splits)
    then show thesis
      using that [of "[]"] assms(3) by (simp add: spec_step_def Answer)
  next
    case Fresh
    let ?op = "dr_op req"
    obtain result new where d: "spec_decide (dv_keys v (op_key ?op)) ?op i = (result, new)" by force
    have fresh: "\<not> absent_delete ?op" "\<not> oversized ?op" "unat (dr_sequence req) = Suc (unat ?h)"
      "dr_recovery_epoch req = (case dv_epoch v of Some e \<Rightarrow> e | None \<Rightarrow> 0)" "dr_sequence req \<noteq> ?h" "\<not> dr_sequence req < ?h"
      using Fresh by (auto simp: spec_gate_def Let_def split: if_splits option.splits)
    obtain m where m: "decide E g reader ?op i = Ok (result, m)"
      "written (case m of Some x \<Rightarrow> [x] | None \<Rightarrow> []) content =
        content(user_key (op_key ?op) := map_option (enc (c_key E)) new)"
      "\<forall>x. m = Some x \<longrightarrow> mutation_key x = user_key (op_key ?op)"
      using decide_refines [OF assms fresh(1) d] .
    let ?sq = "\<lparr>sq_highest = dr_sequence req, sq_digest = digest E ?op, sq_result = result\<rparr>"
    let ?ms = "(case m of Some x \<Rightarrow> [x] | None \<Rightarrow> []) @ [MutPut (seq_key (dr_client_id req)) (enc (c_seq E) ?sq)]"
    have step: "spec_step (digest E) v (i, req) =
        (v\<lparr>dv_keys := (dv_keys v)(op_key ?op := new), dv_seqs := (dv_seqs v)(dr_client_id req \<mapsto> ?sq)\<rparr>, Decided result)"
      by (simp add: spec_step_def Fresh d)
    have "evaluate E g reader req i = Ok (Decided result, ?ms)"
      using arith [OF fresh(5,6)] fresh reads m(1) by (simp add: evaluate_def Let_def)
    moreover have "data_rep E (written ?ms content) (fst (spec_step (digest E) v (i, req)))"
      using assms(3) unfolding written_append m(2)
      by (auto simp: data_rep_def step written_def key_simps)
    moreover have "\<forall>x \<in> set ?ms. mutation_key x = user_key (op_key ?op) \<or> mutation_key x = seq_key (dr_client_id req)"
      using m(3) by (auto split: option.splits)
    ultimately show thesis using that [of ?ms] by (simp add: step)
  qed
qed

end
