(* ===== verification/Log_Machine.thy ===== *)
theory Log_Machine
  imports Prelude
begin

section \<open>Replicated logs\<close>

text \<open>
  What the two state machines share: a deterministic step consumes committed entries in order
  and answers each.  \<open>run_log\<close> is the run over a log; the locales give the two induction
  principles the components use, an invariant every step keeps, and an invariant indexed by the
  log position when indices increase.
\<close>

fun run_log :: "('s \<Rightarrow> 'e \<Rightarrow> 's \<times> 'r) \<Rightarrow> 's \<Rightarrow> 'e list \<Rightarrow> 's \<times> 'r list" where
  "run_log step s [] = (s, [])"
| "run_log step s (e # es) =
     (let (s1, r) = step s e; (s2, rs) = run_log step s1 es in (s2, r # rs))"

lemma run_log_Cons:
  "run_log step s (e # es) =
     (fst (run_log step (fst (step s e)) es), snd (step s e) # snd (run_log step (fst (step s e)) es))"
  by (simp add: split_beta Let_def)

lemma run_log_append:
  "run_log step s (es @ fs) =
     (fst (run_log step (fst (run_log step s es)) fs),
      snd (run_log step s es) @ snd (run_log step (fst (run_log step s es)) fs))"
  by (induction es arbitrary: s) (simp_all add: split_beta Let_def)

lemma length_run_log [simp]: "length (snd (run_log step s es)) = length es"
  by (induction es arbitrary: s) (simp_all add: split_beta Let_def)

lemma run_log_nth:
  assumes "j < length es"
  shows "snd (run_log step s es) ! j = snd (step (fst (run_log step s (take j es))) (es ! j))"
proof -
  let ?s' = "fst (run_log step s (take j es))"
  have "es = take j es @ es ! j # drop (Suc j) es" using assms by (rule id_take_nth_drop)
  then have "snd (run_log step s es) ! j =
      (snd (run_log step s (take j es)) @ snd (run_log step ?s' (es ! j # drop (Suc j) es))) ! j"
    by (metis run_log_append snd_conv)
  also have "\<dots> = snd (step ?s' (es ! j))"
    using assms by (simp add: nth_append run_log_Cons del: run_log.simps)
  finally show ?thesis .
qed

text \<open>The same machine, keeping the history of entries and answers beside its state.\<close>

definition recorded :: "('s \<Rightarrow> 'e \<Rightarrow> 's \<times> 'r) \<Rightarrow> 's \<times> ('e \<times> 'r) list \<Rightarrow> 'e \<Rightarrow> ('s \<times> ('e \<times> 'r) list) \<times> 'r" where
  "recorded step = (\<lambda>(s, h) e. let (s', r) = step s e in ((s', h @ [(e, r)]), r))"

lemma run_recorded:
  "run_log (recorded step) (s, h) es =
     ((fst (run_log step s es), h @ zip es (snd (run_log step s es))), snd (run_log step s es))"
  by (induction es arbitrary: s h) (simp_all add: recorded_def split_beta Let_def)

locale log_machine =
  fixes step :: "'s \<Rightarrow> 'e \<Rightarrow> 's \<times> 'r"
    and inv :: "'s \<Rightarrow> bool"
  assumes inv_step: "inv s \<Longrightarrow> inv (fst (step s e))"
begin

lemma inv_run: "inv s \<Longrightarrow> inv (fst (run_log step s es))"
  by (induction es arbitrary: s) (simp_all add: inv_step split_beta Let_def)

text \<open>Every entry is answered in a state that satisfies the invariant.\<close>

lemma run_nth:
  assumes "inv s" "j < length es"
  shows "\<exists>s'. inv s' \<and> s' = fst (run_log step s (take j es))
    \<and> snd (run_log step s es) ! j = snd (step s' (es ! j))"
  by (rule exI [of _ "fst (run_log step s (take j es))"]) (simp add: inv_run [OF assms(1)] run_log_nth [OF assms(2)])

end

locale indexed_log =
  fixes step :: "'s \<Rightarrow> 'e \<Rightarrow> 's \<times> 'r"
    and idx :: "'e \<Rightarrow> nat"
    and inv :: "nat \<Rightarrow> 's \<Rightarrow> bool"
  assumes inv_step: "inv n s \<Longrightarrow> n \<le> idx e \<Longrightarrow> inv (Suc (idx e)) (fst (step s e))"
begin

lemma inv_run:
  "inv n s \<Longrightarrow> sorted_wrt (\<lambda>e f. idx e < idx f) es \<Longrightarrow> \<forall>e \<in> set es. n \<le> idx e \<Longrightarrow>
   inv (if es = [] then n else Suc (idx (last es))) (fst (run_log step s es))"
proof (induction es arbitrary: n s)
  case (Cons e es)
  have "inv (Suc (idx e)) (fst (step s e))" using Cons.prems by (simp add: inv_step)
  from Cons.IH [OF this] Cons.prems(2) show ?case
    by (auto simp: run_log_Cons Suc_le_eq simp del: run_log.simps)
qed simp

end

end
