(* ===== verification/Oracles.thy ===== *)
theory Oracles
  imports Types
begin

section \<open>Whole-run oracles (verify/oracles.rs)\<close>

text \<open>
  The checks the verification harness runs over what it recorded: exactly-once application,
  placement convergence, and no acknowledged write lost.  The lemmas say what each oracle
  accepts, independently of the order in which observations were recorded.
\<close>

record applied_obs =
  ap_client_id :: u128
  ap_partition :: u16
  ap_sequence :: u64
  ap_digest :: u128
  ap_fresh :: bool

definition applied_key :: "applied_obs \<Rightarrow> u128 \<times> u16 \<times> u64" where
  "applied_key a = (ap_client_id a, ap_partition a, ap_sequence a)"

definition debug_key :: "u128 \<times> u16 \<times> u64 \<Rightarrow> string" where
  "debug_key = (\<lambda>(c, p, q). ''('' @ comma_separated [decimal (unat c), decimal (unat p), decimal (unat q)] @ '')'')"

definition debug_bytes :: "bytes \<Rightarrow> string" where
  "debug_bytes bs = ''['' @ comma_separated (map (\<lambda>b. decimal (unat b)) bs) @ '']''"

definition debug_ids :: "node_id set \<Rightarrow> string" where
  "debug_ids ns = ''{'' @ comma_separated (map (\<lambda>n. decimal (unat n)) (sorted_list_of_set ns)) @ ''}''"

fun exactly_once_from ::
  "(u128 \<times> u16 \<times> u64 \<rightharpoonup> u128 \<times> bool) \<Rightarrow> applied_obs list \<Rightarrow> string + unit" where
  "exactly_once_from seen [] = Ok ()"
| "exactly_once_from seen (a # as) =
     (case seen (applied_key a) of
        Some (dig, fresh_seen) \<Rightarrow>
          if dig \<noteq> ap_digest a then Err (''sequence '' @ debug_key (applied_key a) @ '' applied for two different commands (0x''
                 @ hex_digits (unat dig) @ '' vs 0x'' @ hex_digits (unat (ap_digest a)) @ '')'')
          else if fresh_seen \<and> ap_fresh a then Err (''sequence '' @ debug_key (applied_key a) @ '' was reported as freshly decided more than once'')
          else exactly_once_from (seen(applied_key a \<mapsto> (dig, fresh_seen \<or> ap_fresh a))) as
      | None \<Rightarrow> exactly_once_from (seen(applied_key a \<mapsto> (ap_digest a, ap_fresh a))) as)"

definition exactly_once :: "applied_obs list \<Rightarrow> string + unit" where
  "exactly_once applied = exactly_once_from (\<lambda>_. None) applied"

record partition_state =
  ps_partition :: u16
  ps_meta_voters :: "node_id set"
  ps_data_voters :: "node_id set"
  ps_plan :: "bool option"

definition converged :: "partition_state list \<Rightarrow> string + unit" where
  "converged states =
     rfor states (\<lambda>s.
       if ps_meta_voters s \<noteq> ps_data_voters s then Err (''partition '' @ decimal (unat (ps_partition s)) @ '' diverged: meta '' @ debug_ids (ps_meta_voters s)
              @ '' != data '' @ debug_ids (ps_data_voters s))
       else if (case ps_plan s of Some aborting \<Rightarrow> \<not> aborting | None \<Rightarrow> False)
       then Err (''partition '' @ decimal (unat (ps_partition s)) @ '' left with a live non-aborting plan'')
       else Ok ())"

definition no_lost_write :: "(bytes \<times> u64) list \<Rightarrow> (bytes \<rightharpoonup> u64) \<Rightarrow> string + unit" where
  "no_lost_write acknowledged final_state =
     rfor acknowledged (\<lambda>(key, acked_version).
       case final_state key of
         Some final_version \<Rightarrow>
           if final_version \<ge> acked_version then Ok ()
           else Err (''key '' @ debug_bytes key @ '' regressed: acked version '' @ decimal (unat acked_version)
                  @ '', final '' @ decimal (unat final_version))
       | None \<Rightarrow> Err (''key '' @ debug_bytes key @ '' acked at version '' @ decimal (unat acked_version)
                  @ '' but absent at end''))"

subsection \<open>What the exactly-once oracle accepts\<close>

definition fresh_count :: "(u128 \<times> u16 \<times> u64) \<Rightarrow> applied_obs list \<Rightarrow> nat" where
  "fresh_count k as = length (filter (\<lambda>a. applied_key a = k \<and> ap_fresh a) as)"

lemma fresh_count_simps [simp]:
  "fresh_count k [] = 0"
  "fresh_count k (a # as) = (if applied_key a = k \<and> ap_fresh a then Suc (fresh_count k as) else fresh_count k as)"
  by (simp_all add: fresh_count_def)

lemma fresh_count_append [simp]: "fresh_count k (as @ bs) = fresh_count k as + fresh_count k bs"
  by (simp add: fresh_count_def)

lemma fresh_count_pos: "0 < fresh_count k as \<longleftrightarrow> (\<exists>a \<in> set as. applied_key a = k \<and> ap_fresh a)"
  by (auto simp: fresh_count_def filter_empty_conv)

text \<open>At most one fresh decision per sequence, and one command per sequence.\<close>

definition once :: "applied_obs list \<Rightarrow> bool" where
  "once as \<longleftrightarrow>
     (\<forall>a \<in> set as. \<forall>c \<in> set as. applied_key a = applied_key c \<longrightarrow> ap_digest a = ap_digest c)
     \<and> (\<forall>k. fresh_count k as \<le> 1)"

lemma onceD: "once as \<Longrightarrow> a \<in> set as \<Longrightarrow> c \<in> set as \<Longrightarrow> applied_key a = applied_key c \<Longrightarrow> ap_digest a = ap_digest c"
  unfolding once_def by blast

lemma once_fresh: "once as \<Longrightarrow> fresh_count k as \<le> 1"
  unfolding once_def by blast

lemma onceI:
  "(\<And>a c. a \<in> set as \<Longrightarrow> c \<in> set as \<Longrightarrow> applied_key a = applied_key c \<Longrightarrow> ap_digest a = ap_digest c) \<Longrightarrow>
   (\<And>k. fresh_count k as \<le> 1) \<Longrightarrow> once as"
  unfolding once_def by blast

text \<open>The map the loop holds after a prefix.\<close>

definition seen_after :: "applied_obs list \<Rightarrow> u128 \<times> u16 \<times> u64 \<rightharpoonup> u128 \<times> bool" where
  "seen_after pre k =
     (case filter (\<lambda>a. applied_key a = k) pre of
        [] \<Rightarrow> None
      | a # _ \<Rightarrow> Some (ap_digest a, 0 < fresh_count k pre))"

lemma seen_after_None: "seen_after pre k = None \<longleftrightarrow> (\<forall>a \<in> set pre. applied_key a \<noteq> k)"
  using filter_empty_conv [of "\<lambda>a. applied_key a = k" pre]
  by (cases "filter (\<lambda>a. applied_key a = k) pre") (simp_all add: seen_after_def)

lemma seen_after_Some:
  assumes "once pre" "seen_after pre k = Some (d, f)"
  shows "f = (0 < fresh_count k pre)" "\<exists>a \<in> set pre. applied_key a = k"
    "\<forall>a \<in> set pre. applied_key a = k \<longrightarrow> ap_digest a = d"
proof -
  obtain a as where fa: "filter (\<lambda>a. applied_key a = k) pre = a # as"
    and d: "d = ap_digest a" and f: "f = (0 < fresh_count k pre)"
    using assms(2) by (auto simp: seen_after_def split: list.splits)
  have "a \<in> set (filter (\<lambda>a. applied_key a = k) pre)" unfolding fa by simp
  then have a: "a \<in> set pre" "applied_key a = k" by simp_all
  show "f = (0 < fresh_count k pre)" "\<exists>a \<in> set pre. applied_key a = k" using f a by auto
  show "\<forall>a \<in> set pre. applied_key a = k \<longrightarrow> ap_digest a = d"
  proof (intro ballI impI)
    fix c assume c: "c \<in> set pre" "applied_key c = k"
    then have "applied_key c = applied_key a" using a(2) by simp
    from onceD [OF assms(1) c(1) a(1) this] show "ap_digest c = d" unfolding d .
  qed
qed

lemma seen_after_snoc:
  "seen_after (pre @ [a]) = (seen_after pre)(applied_key a \<mapsto>
     (case seen_after pre (applied_key a) of
        Some (d, f) \<Rightarrow> (d, f \<or> ap_fresh a) | None \<Rightarrow> (ap_digest a, ap_fresh a)))"
proof (rule ext)
  fix k
  show "seen_after (pre @ [a]) k = ((seen_after pre)(applied_key a \<mapsto>
     (case seen_after pre (applied_key a) of
        Some (d, f) \<Rightarrow> (d, f \<or> ap_fresh a) | None \<Rightarrow> (ap_digest a, ap_fresh a)))) k"
  proof (cases "k = applied_key a")
    case True
    show ?thesis
    proof (cases "filter (\<lambda>c. applied_key c = k) pre")
      case Nil
      then have "fresh_count k pre = 0" by (auto simp: fresh_count_def filter_empty_conv)
      with Nil True show ?thesis by (simp add: seen_after_def)
    next
      case (Cons c cs)
      with True show ?thesis by (auto simp: seen_after_def)
    qed
  qed (simp add: seen_after_def split: list.split)
qed

lemma once_snoc:
  assumes "once pre"
  shows "once (pre @ [a]) \<longleftrightarrow>
    (case seen_after pre (applied_key a) of
       Some (d, f) \<Rightarrow> d = ap_digest a \<and> \<not> (f \<and> ap_fresh a) | None \<Rightarrow> True)"
proof (cases "seen_after pre (applied_key a)")
  case None
  then have new: "\<forall>c \<in> set pre. applied_key c \<noteq> applied_key a" by (simp add: seen_after_None)
  then have zero: "fresh_count (applied_key a) pre = 0"
    by (metis fresh_count_pos gr0I)
  have "once (pre @ [a])"
  proof (rule onceI)
    fix x c assume "x \<in> set (pre @ [a])" "c \<in> set (pre @ [a])" "applied_key x = applied_key c"
    then consider "x = c" | "x \<in> set pre" "c \<in> set pre" using new by force
    then show "ap_digest x = ap_digest c"
      using onceD [OF assms] \<open>applied_key x = applied_key c\<close> by cases blast+
  next
    fix k show "fresh_count k (pre @ [a]) \<le> 1"
      using zero once_fresh [OF assms, of k] by auto
  qed
  with None show ?thesis by simp
next
  case (Some df)
  obtain d f where df: "seen_after pre (applied_key a) = Some (d, f)" using Some by (cases df) auto
  note s = seen_after_Some [OF assms df]
  have pre: "fresh_count k pre \<le> 1" for k by (rule once_fresh [OF assms])
  have "(\<forall>k. fresh_count k (pre @ [a]) \<le> 1) \<longleftrightarrow> fresh_count (applied_key a) (pre @ [a]) \<le> 1"
  proof (intro iffI allI)
    fix k assume "fresh_count (applied_key a) (pre @ [a]) \<le> 1"
    then show "fresh_count k (pre @ [a]) \<le> 1"
      using pre [of k] by (cases "k = applied_key a") auto
  qed blast
  also have "\<dots> \<longleftrightarrow> \<not> (f \<and> ap_fresh a)"
    using s(1) pre [of "applied_key a"] by auto
  finally have count: "(\<forall>k. fresh_count k (pre @ [a]) \<le> 1) \<longleftrightarrow> \<not> (f \<and> ap_fresh a)" .
  have digests: "(\<forall>x \<in> set (pre @ [a]). \<forall>c \<in> set (pre @ [a]). applied_key x = applied_key c \<longrightarrow> ap_digest x = ap_digest c)
      \<longleftrightarrow> d = ap_digest a" (is "?L \<longleftrightarrow> ?R")
  proof
    assume L: ?L
    obtain c where c: "c \<in> set pre" "applied_key c = applied_key a" using s(2) by blast
    with s(3) have "ap_digest c = d" by blast
    moreover have "ap_digest c = ap_digest a"
      using bspec [OF bspec [OF L, of c], of a] c by simp
    ultimately show ?R by simp
  next
    assume R: ?R
    have same: "ap_digest y = d" if "y \<in> set (pre @ [a])" "applied_key y = applied_key a" for y
      using that R s(3) by auto
    show ?L
    proof (intro ballI impI)
      fix x c assume xc: "x \<in> set (pre @ [a])" "c \<in> set (pre @ [a])" "applied_key x = applied_key c"
      show "ap_digest x = ap_digest c"
      proof (cases "applied_key x = applied_key a")
        case True
        with same xc show ?thesis by simp
      next
        case False
        then have "x \<noteq> a" "c \<noteq> a" using xc(3) by metis+
        with xc(1,2) have "x \<in> set pre" "c \<in> set pre" by simp_all
        with xc(3) show ?thesis by (rule onceD [OF assms, rotated -1])
      qed
    qed
  qed
  show ?thesis unfolding once_def count digests df by simp
qed

lemma once_prefix: "once (as @ bs) \<Longrightarrow> once as"
  unfolding once_def fresh_count_append set_append by (meson UnI1 add_leD1)

lemma exactly_once_from_iff:
  "once pre \<Longrightarrow> exactly_once_from (seen_after pre) as = Ok () \<longleftrightarrow> once (pre @ as)"
proof (induction as arbitrary: pre)
  case (Cons a as)
  show ?case
  proof (cases "once (pre @ [a])")
    case True
    then have "exactly_once_from (seen_after pre) (a # as) = exactly_once_from (seen_after (pre @ [a])) as"
      using once_snoc [OF Cons.prems, of a]
      by (auto simp: seen_after_snoc split: option.splits)
    then show ?thesis using Cons.IH [OF True] by simp
  next
    case False
    then have "\<not> once (pre @ a # as)" using once_prefix [of "pre @ [a]" as] by auto
    moreover have "exactly_once_from (seen_after pre) (a # as) \<noteq> Ok ()"
      using once_snoc [OF Cons.prems, of a] False by (auto split: option.splits prod.splits)
    ultimately show ?thesis by simp
  qed
qed simp

lemma exactly_once_iff: "exactly_once as = Ok () \<longleftrightarrow> once as"
proof -
  have "seen_after [] = (\<lambda>_. None)" by (simp add: seen_after_def fun_eq_iff)
  then show ?thesis
    using exactly_once_from_iff [of "[]" as] by (simp add: exactly_once_def once_def)
qed

lemma once_permute: "mset as = mset bs \<Longrightarrow> once as \<longleftrightarrow> once bs"
proof -
  assume eq: "mset as = mset bs"
  have "fresh_count k as = fresh_count k bs" for k
    unfolding fresh_count_def by (rule mset_eq_length) (simp add: eq)
  moreover have "set as = set bs" using eq by (rule mset_eq_setD)
  ultimately show ?thesis by (simp add: once_def)
qed

end
