(* ===== verification/Apply.thy ===== *)
theory Apply
  imports Data_SM Log_Machine
begin

section \<open>Applying committed entries (partition/sm.rs)\<close>

text \<open>
  The Raft applier of a data group: the coalesced path decides bounded chunks against an
  overlay and writes each chunk once, the per-entry path writes after every entry.  Entries,
  memberships and encoded sizes belong to openraft and the codec: parameters of
  \<open>apply_env\<close>.  The lemmas show that both paths run the specification of the data state
  machine over the log, and therefore agree on every answer and on both column families.
\<close>

datatype 'm payload = Blank | Normal data_request | Membership 'm

record 'm entry =
  en_log_id :: raft_log_id
  en_payload :: "'m payload"

type_synonym 'm stored_membership = "raft_log_id option \<times> 'm"
type_synonym 'm applied = "raft_log_id option \<times> 'm stored_membership"

record 'm apply_env = data_env +
  c_applied :: "'m applied codec"
  c_committed :: "raft_log_id option codec"
  default_membership :: 'm
  encoded_len :: "'m entry \<Rightarrow> nat"

definition MAX_PENDING_STATE_ENTRIES :: nat where "MAX_PENDING_STATE_ENTRIES = 4096"
definition MAX_PENDING_STATE_BYTES :: nat where "MAX_PENDING_STATE_BYTES = 64 * 1024 * 1024"
definition APPLY_CHUNK_INPUT_BYTES :: nat where "APPLY_CHUNK_INPUT_BYTES = MAX_PENDING_STATE_BYTES div 2"
definition APPLY_CHUNK_ENTRIES :: nat where "APPLY_CHUNK_ENTRIES = MAX_PENDING_STATE_ENTRIES div 2"

text \<open>The storage, and what the apply observer (if one is installed) has been told.\<close>

record world =
  w_storage :: storage
  w_observed :: "apply_observation list"

definition observe_applies :: "apply_observation list \<Rightarrow> world \<Rightarrow> world" where
  "observe_applies obs w = w\<lparr>w_observed := w_observed w @ obs\<rparr>"

definition with_storage :: "(storage \<Rightarrow> storage \<times> 'a result) \<Rightarrow> world \<Rightarrow> world \<times> 'a result" where
  "with_storage f w = (let (st, r) = f (w_storage w) in (w\<lparr>w_storage := st\<rparr>, r))"

text \<open>\<open>read_failure\<close> and \<open>write_failure\<close>: a failure trips the fail-stop latch on its way out.\<close>

definition fail_stop :: "string \<Rightarrow> world \<times> 'a result \<Rightarrow> world \<times> 'a result" where
  "fail_stop ctxt wr =
     (case wr of
        (w, Inl e) \<Rightarrow> (w\<lparr>w_storage := poison_raft_error ctxt e (w_storage w)\<rparr>, Inl e)
      | (w, Inr x) \<Rightarrow> (w, Inr x))"

definition read_applied :: "('m, 'a) apply_env_scheme \<Rightarrow> group_id \<Rightarrow> world \<Rightarrow> world \<times> 'm applied result" where
  "read_applied E g w =
     sbind (fail_stop ''state-machine health check failed'' (w, require_healthy (w_storage w))) (\<lambda>w _.
     sbind (fail_stop ''state-machine applied record read failed'' (w, raft_applied E (w_storage w) g)) (\<lambda>w v.
     case v of
       Some bs \<Rightarrow> fail_stop ''state-machine applied record decode failed'' (w, dec (c_applied E) bs)
     | None \<Rightarrow> (w, Ok (None, (None, default_membership E)))))"

text \<open>
  One entry decided through a reader: the answer, its mutations, the request tuple kept for an
  installed observer, and the membership after it.
\<close>

definition decide_entry ::
  "('m, 'a) apply_env_scheme \<Rightarrow> group_id \<Rightarrow> bool \<Rightarrow> reader \<Rightarrow> 'm stored_membership \<Rightarrow> 'm entry
    \<Rightarrow> (apply_result \<times> state_mutation list \<times> (client_id \<times> sequence \<times> u128) option \<times> 'm stored_membership) result" where
  "decide_entry E g observer reader membership entry =
     (case en_payload entry of
        Blank \<Rightarrow> Ok (NoOp, [], None, membership)
      | Normal req \<Rightarrow>
          let request = (if observer then Some (dr_client_id req, dr_sequence req, digest E (dr_op req)) else None) in
          rbind (evaluate E g reader req (rl_index (en_log_id entry))) (\<lambda>(result, mutations).
          Ok (result, mutations, request, membership))
      | Membership m \<Rightarrow> Ok (NoOp, [], None, (Some (en_log_id entry), m)))"

definition observation_of ::
  "group_id \<Rightarrow> raft_log_id \<Rightarrow> apply_result \<Rightarrow> (client_id \<times> sequence \<times> u128) option \<Rightarrow> apply_observation list" where
  "observation_of g lid result request =
     (case request of
        Some (c, s, d) \<Rightarrow>
          [\<lparr>ao_group = g, ao_log_id = lid, ao_client_id = c, ao_sequence = s, ao_digest = d, ao_result = result\<rparr>]
      | None \<Rightarrow> [])"

record 'm chunk_state =
  ck_membership :: "'m stored_membership"
  ck_overlay :: state_overlay
  ck_results :: "apply_result list"
  ck_observations :: "apply_observation list"
  ck_last :: "raft_log_id option"

fun chunk_loop ::
  "('m, 'a) apply_env_scheme \<Rightarrow> group_id \<Rightarrow> bool \<Rightarrow> 'm entry list \<Rightarrow> 'm chunk_state \<Rightarrow> 'm chunk_state result" where
  "chunk_loop E g observer [] s = Ok s"
| "chunk_loop E g observer (entry # entries) s =
     rbind (decide_entry E g observer (OnOverlay (ck_overlay s)) (ck_membership s) entry)
       (\<lambda>(result, muts, request, membership).
     chunk_loop E g observer entries
       \<lparr>ck_membership = membership, ck_overlay = stage muts (ck_overlay s),
        ck_results = ck_results s @ [result],
        ck_observations = ck_observations s @ observation_of g (en_log_id entry) result request,
        ck_last = Some (en_log_id entry)\<rparr>)"

definition apply_coalesced_chunk ::
  "('m, 'a) apply_env_scheme \<Rightarrow> faults \<Rightarrow> ((bytes \<times> bytes option) list \<Rightarrow> (bytes \<times> bytes option) list)
    \<Rightarrow> group_id \<Rightarrow> bool \<Rightarrow> 'm entry list \<Rightarrow> world \<Rightarrow> world \<times> apply_result list result" where
  "apply_coalesced_chunk E fault iter g observer entries w =
     sbind (read_applied E g w) (\<lambda>w (_, membership).
     sbind (fail_stop ''state-machine evaluation failed''
              (w, chunk_loop E g observer entries
                \<lparr>ck_membership = membership, ck_overlay = overlay_new (w_storage w), ck_results = [],
                 ck_observations = [], ck_last = None\<rparr>)) (\<lambda>w s.
     case ck_last s of
       None \<Rightarrow> (w, Ok (ck_results s))
     | Some lid \<Rightarrow>
         sbind (fail_stop ''state-machine apply write failed''
                  (with_storage (apply_raft E fault g (into_mutations iter (ck_overlay s)) lid
                    (enc (c_applied E) (Some lid, ck_membership s)) (enc (c_committed E) (Some lid))
                    (length (ck_results s))) w)) (\<lambda>w _.
         (observe_applies (ck_observations s) w, Ok (ck_results s)))))"

definition usize_saturating_add :: "nat \<Rightarrow> nat \<Rightarrow> nat" where
  "usize_saturating_add a c = min (a + c) (2 ^ 64 - 1)"

fun coalesce_loop ::
  "('m, 'a) apply_env_scheme \<Rightarrow> faults \<Rightarrow> ((bytes \<times> bytes option) list \<Rightarrow> (bytes \<times> bytes option) list)
    \<Rightarrow> group_id \<Rightarrow> bool \<Rightarrow> apply_result list \<Rightarrow> 'm entry list \<Rightarrow> nat \<Rightarrow> 'm entry list \<Rightarrow> world
    \<Rightarrow> world \<times> apply_result list result" where
  "coalesce_loop E fault iter g observer all_results chunk chunk_bytes [] w =
     (if chunk \<noteq> [] then
        sbind (apply_coalesced_chunk E fault iter g observer chunk w) (\<lambda>w rs. (w, Ok (all_results @ rs)))
      else (w, Ok all_results))"
| "coalesce_loop E fault iter g observer all_results chunk chunk_bytes (entry # entries) w =
     (let entry_bytes = encoded_len E entry;
          would_exceed = (chunk \<noteq> []
            \<and> (length chunk \<ge> APPLY_CHUNK_ENTRIES
               \<or> usize_saturating_add chunk_bytes entry_bytes > APPLY_CHUNK_INPUT_BYTES))
      in if would_exceed then
           sbind (apply_coalesced_chunk E fault iter g observer chunk w) (\<lambda>w rs.
           coalesce_loop E fault iter g observer (all_results @ rs) [entry]
             (usize_saturating_add 0 entry_bytes) entries w)
         else coalesce_loop E fault iter g observer all_results (chunk @ [entry])
                (usize_saturating_add chunk_bytes entry_bytes) entries w)"

definition apply_coalesced ::
  "('m, 'a) apply_env_scheme \<Rightarrow> faults \<Rightarrow> ((bytes \<times> bytes option) list \<Rightarrow> (bytes \<times> bytes option) list)
    \<Rightarrow> group_id \<Rightarrow> bool \<Rightarrow> 'm entry list \<Rightarrow> world \<Rightarrow> world \<times> apply_result list result" where
  "apply_coalesced E fault iter g observer entries w =
     coalesce_loop E fault iter g observer [] [] 0 entries w"

fun per_entry_loop ::
  "('m, 'a) apply_env_scheme \<Rightarrow> faults \<Rightarrow> group_id \<Rightarrow> bool \<Rightarrow> 'm stored_membership \<Rightarrow> apply_result list
    \<Rightarrow> 'm entry list \<Rightarrow> world \<Rightarrow> world \<times> apply_result list result" where
  "per_entry_loop E fault g observer membership results [] w = (w, Ok results)"
| "per_entry_loop E fault g observer membership results (entry # entries) w =
     sbind (fail_stop ''state-machine evaluation failed''
              (w, decide_entry E g observer (OnStorage (w_storage w)) membership entry))
       (\<lambda>w (result, muts, request, membership).
     let lid = en_log_id entry in
     sbind (fail_stop ''state-machine apply write failed''
              (with_storage (apply_raft E fault g muts lid
                (enc (c_applied E) (Some lid, membership)) (enc (c_committed E) (Some lid)) 1) w)) (\<lambda>w _.
     per_entry_loop E fault g observer membership (results @ [result]) entries
       (observe_applies (observation_of g lid result request) w)))"

definition apply_per_entry ::
  "('m, 'a) apply_env_scheme \<Rightarrow> faults \<Rightarrow> group_id \<Rightarrow> bool \<Rightarrow> 'm entry list \<Rightarrow> world
    \<Rightarrow> world \<times> apply_result list result" where
  "apply_per_entry E fault g observer entries w =
     sbind (read_applied E g w) (\<lambda>w (_, membership).
     per_entry_loop E fault g observer membership [] entries w)"

text \<open>\<open>coalesce\<close> is the cached value of the environment flag.\<close>

definition raft_apply ::
  "bool \<Rightarrow> ('m, 'a) apply_env_scheme \<Rightarrow> faults \<Rightarrow> ((bytes \<times> bytes option) list \<Rightarrow> (bytes \<times> bytes option) list)
    \<Rightarrow> group_id \<Rightarrow> bool \<Rightarrow> 'm entry list \<Rightarrow> world \<Rightarrow> world \<times> apply_result list result" where
  "raft_apply coalesce E fault iter g observer entries w =
     (if coalesce then apply_coalesced E fault iter g observer entries w
      else apply_per_entry E fault g observer entries w)"

subsection \<open>The specification over a log\<close>

type_synonym 'm spec_state = "data_view \<times> 'm stored_membership"

definition spec_entry ::
  "(data_op \<Rightarrow> u128) \<Rightarrow> 'm spec_state \<Rightarrow> 'm entry \<Rightarrow> 'm spec_state \<times> apply_result" where
  "spec_entry dg s e =
     (case en_payload e of
        Blank \<Rightarrow> (s, NoOp)
      | Normal req \<Rightarrow>
          let (v, r) = spec_step dg (fst s) (rl_index (en_log_id e), req) in ((v, snd s), r)
      | Membership m \<Rightarrow> ((fst s, (Some (en_log_id e), m)), NoOp))"

definition spec_observations ::
  "(data_op \<Rightarrow> u128) \<Rightarrow> group_id \<Rightarrow> bool \<Rightarrow> 'm entry list \<Rightarrow> apply_result list \<Rightarrow> apply_observation list" where
  "spec_observations dg g observer es rs =
     concat (map (\<lambda>(e, r). case en_payload e of
         Normal req \<Rightarrow> if observer then
           [\<lparr>ao_group = g, ao_log_id = en_log_id e, ao_client_id = dr_client_id req,
             ao_sequence = dr_sequence req, ao_digest = dg (dr_op req), ao_result = r\<rparr>] else []
       | _ \<Rightarrow> []) (zip es rs))"

lemma spec_observations_Nil [simp]: "spec_observations dg g b [] rs = []"
  by (simp add: spec_observations_def)

lemma spec_observations_append:
  "length es = length rs \<Longrightarrow>
   spec_observations dg g b (es @ fs) (rs @ ss) = spec_observations dg g b es rs @ spec_observations dg g b fs ss"
  by (simp add: spec_observations_def)

text \<open>User keys of a log that fit the outbox row format.\<close>

definition key_fits :: "'m entry \<Rightarrow> bool" where
  "key_fits e = (case en_payload e of Normal req \<Rightarrow> length (op_key (dr_op req)) < 2 ^ 32 | _ \<Rightarrow> True)"

definition keys_fit :: "'m entry list \<Rightarrow> bool" where
  "keys_fit es = list_all key_fits es"

definition apply_codecs_ok :: "('m, 'a) apply_env_scheme \<Rightarrow> bool" where
  "apply_codecs_ok E \<longleftrightarrow> data_codecs_ok E \<and> codec_ok (c_applied E) \<and> codec_ok (c_committed E)"

definition data_key :: "bytes \<Rightarrow> bool" where
  "data_key k \<longleftrightarrow> (\<exists>u. k = user_key u) \<or> (\<exists>c. k = seq_key c) \<or> k = recovery_epoch_key"

lemma raft_applied_not_data [simp]: "\<not> data_key raft_applied_key"
  by (auto simp: data_key_def raft_applied_key_def user_key_def seq_key_def recovery_epoch_key_def tag_defs)

lemma data_rep_cong:
  assumes "\<And>k. data_key k \<Longrightarrow> a k = c k"
  shows "data_rep E a v \<longleftrightarrow> data_rep E c v"
proof -
  have "a (user_key k) = c (user_key k)" "a (seq_key d) = c (seq_key d)"
    "a recovery_epoch_key = c recovery_epoch_key" for k d
    by (auto intro!: assms simp: data_key_def)
  then show ?thesis by (simp add: data_rep_def)
qed

lemma sees_cong_raw: "sees C g reader c \<Longrightarrow> raw_read C reader g k = Ok (c k)"
  by (simp add: sees_def)

text \<open>One decided entry, through any reader.\<close>

lemma decide_entry_refines:
  assumes "sees E g reader content" "apply_codecs_ok E" "data_rep E content v" "key_fits e"
    and "spec_entry (digest E) (v, mem) e = ((v', mem'), r)"
  obtains ms request where "decide_entry E g observer reader mem e = Ok (r, ms, request, mem')"
    and "data_rep E (written ms content) v'"
    and "\<forall>m \<in> set ms. data_key (mutation_key m) \<and> length (mutation_key m) \<le> 2 ^ 32"
    and "observation_of g (en_log_id e) r request = spec_observations (digest E) g observer [e] [r]"
proof (cases "en_payload e")
  case (Normal req)
  have ok: "data_codecs_ok E" using assms(2) by (simp add: apply_codecs_ok_def)
  obtain ms where ms: "evaluate E g reader req (rl_index (en_log_id e)) =
      Ok (snd (spec_step (digest E) v (rl_index (en_log_id e), req)), ms)"
    "data_rep E (written ms content) (fst (spec_step (digest E) v (rl_index (en_log_id e), req)))"
    "\<forall>m \<in> set ms. mutation_key m = user_key (op_key (dr_op req)) \<or> mutation_key m = seq_key (dr_client_id req)"
    using evaluate_refines [OF assms(1) ok assms(3)] by metis
  have len: "length (op_key (dr_op req)) < 2 ^ 32" using assms(4) Normal by (simp add: key_fits_def)
  have bound: "\<forall>m \<in> set ms. data_key (mutation_key m) \<and> length (mutation_key m) \<le> 2 ^ 32"
  proof
    fix m assume "m \<in> set ms"
    with ms(3) consider "mutation_key m = user_key (op_key (dr_op req))" | "mutation_key m = seq_key (dr_client_id req)"
      by blast
    then show "data_key (mutation_key m) \<and> length (mutation_key m) \<le> 2 ^ 32"
      using len by cases (auto simp: data_key_def user_key_def seq_key_def Suc_le_eq)
  qed
  show thesis
    by (rule that [of ms "if observer then Some (dr_client_id req, dr_sequence req, digest E (dr_op req)) else None"])
      (use ms bound assms(5) Normal in \<open>auto simp: decide_entry_def spec_entry_def observation_of_def
        spec_observations_def split: prod.splits\<close>)
qed (use assms(3,5) in \<open>auto intro!: that [of "[]" None] simp: decide_entry_def spec_entry_def
    observation_of_def spec_observations_def\<close>)

subsection \<open>Configurations and their advance\<close>

type_synonym 'm config = "world \<times> cf \<times> cf \<times> 'm spec_state"

definition config_ok :: "('m, 'a) apply_env_scheme \<Rightarrow> group_id \<Rightarrow> string \<Rightarrow> 'm config \<Rightarrow> bool" where
  "config_ok E g name = (\<lambda>(w, cf, lcf, v, mem).
     group_ready E (w_storage w) g name cf lcf \<and> data_rep E (cf_get cf) v
     \<and> (cf_get cf raft_applied_key = None \<and> mem = (None, default_membership E)
        \<or> (\<exists>a. cf_get cf raft_applied_key = Some (enc (c_applied E) (a, mem)))))"

definition advances ::
  "('m, 'a) apply_env_scheme \<Rightarrow> group_id \<Rightarrow> bool \<Rightarrow> string \<Rightarrow> 'm config \<Rightarrow> 'm entry list
    \<Rightarrow> apply_result list \<Rightarrow> 'm config \<Rightarrow> bool" where
  "advances E g observer name = (\<lambda>(w, cf, lcf, s) es rs (w', cf', lcf', s').
     config_ok E g name (w', cf', lcf', s')
     \<and> run_log (spec_entry (digest E)) s es = (s', rs)
     \<and> w_observed w' = w_observed w @ spec_observations (digest E) g observer es rs
     \<and> (\<forall>x. x \<noteq> name \<and> x \<noteq> cf_log g \<longrightarrow> db_cfs (w_storage w') x = db_cfs (w_storage w) x)
     \<and> search_only (db_default (w_storage w)) (db_default (w_storage w'))
     \<and> (if es = [] then cf' = cf \<and> lcf' = lcf
        else cf_get cf' raft_applied_key = Some (enc (c_applied E) (Some (en_log_id (last es)), snd s'))
          \<and> lcf' = cf_put KEY_COMMITTED (enc (c_committed E) (Some (en_log_id (last es)))) lcf
          \<and> (\<forall>k. \<not> data_key k \<and> k \<noteq> raft_applied_key \<longrightarrow> cf_get cf' k = cf_get cf k)))"

lemma cf_put_put: "cf_wf cf \<Longrightarrow> cf_put k v (cf_put k w cf) = cf_put k v cf"
  by (rule cf_ext) (simp_all add: cf_wf_put cf_get_put)

lemma advances_refl: "config_ok E g name c \<Longrightarrow> advances E g observer name c [] [] c"
  by (cases c) (auto simp: advances_def)

lemma advances_config: "advances E g observer name c es rs c' \<Longrightarrow> config_ok E g name c'"
  by (cases c, cases c') (simp add: advances_def split_beta)

lemma advances_append:
  assumes "config_ok E g name c" "advances E g observer name c es rs c1" "advances E g observer name c1 fs ss c2"
  shows "advances E g observer name c (es @ fs) (rs @ ss) c2"
proof -
  obtain w cf lcf s w1 cf1 lcf1 s1 w2 cf2 lcf2 s2
    where c: "c = (w, cf, lcf, s)" "c1 = (w1, cf1, lcf1, s1)" "c2 = (w2, cf2, lcf2, s2)"
    by (metis prod.exhaust)
  note a = assms(2,3) [unfolded c advances_def prod.case]
  have len: "length es = length rs" using a(1) by (metis length_run_log snd_conv)
  have run: "run_log (spec_entry (digest E)) s (es @ fs) = (s2, rs @ ss)"
    using a by (simp add: run_log_append)
  have wf: "cf_wf lcf" using assms(1) by (cases s) (simp add: c config_ok_def group_ready_def group_open_def)
  show ?thesis
    using a wf unfolding c advances_def prod.case run spec_observations_append [OF len]
    by (auto simp: cf_put_put intro: search_only_trans split: if_splits)
qed

lemma written_fold: "cf_wf cf \<Longrightarrow> cf_get (fold (mutate cf_put cf_delete) ms cf) = written ms (cf_get cf)"
  by (simp add: cfs.get_fold written_def fun_eq_iff)

lemma write_advances:
  assumes "config_ok E g name (w, cf, lcf, s)" "apply_codecs_ok E" "es \<noteq> []"
    and "run_log (spec_entry (digest E)) s es = (s', rs)"
    and "data_rep E (written ms (cf_get cf)) (fst s')"
    and "\<forall>m \<in> set ms. data_key (mutation_key m) \<and> length (mutation_key m) \<le> 2 ^ 32"
  obtains w' cf' lcf' where
    "with_storage (apply_raft E no_fault g ms (en_log_id (last es))
       (enc (c_applied E) (Some (en_log_id (last es)), snd s')) (enc (c_committed E) (Some (en_log_id (last es)))) n) w
     = (w', Ok ())"
    "advances E g observer name (w, cf, lcf, s) es rs
       (observe_applies (spec_observations (digest E) g observer es rs) w', cf', lcf', s')"
proof -
  let ?lid = "en_log_id (last es)"
  let ?ar = "enc (c_applied E) (Some ?lid, snd s')" and ?cr = "enc (c_committed E) (Some ?lid)"
  have go: "group_ready E (w_storage w) g name cf lcf"
    using assms(1) by (cases s) (simp add: config_ok_def)
  have wf: "cf_wf cf" using go by (simp add: group_ready_def group_open_def)
  have u64: "codec_ok (c_u64 E)"
    using assms(2) by (simp add: apply_codecs_ok_def data_codecs_ok_def search_codecs_ok_def)
  obtain st' where st': "apply_raft E no_fault g ms ?lid ?ar ?cr n (w_storage w) = (st', Ok ())"
    "group_ready E st' g name (applied_cf ms ?ar cf) (cf_put KEY_COMMITTED ?cr lcf)"
    "search_only (db_default (w_storage w)) (db_default st')"
    "\<forall>x. x \<noteq> name \<and> x \<noteq> cf_log g \<longrightarrow> db_cfs st' x = db_cfs (w_storage w) x"
    using apply_raft_Ok [OF go u64] assms(6) by blast
  let ?cf' = "applied_cf ms ?ar cf"
  have get: "cf_get ?cf' k = (if k = raft_applied_key then Some ?ar else written ms (cf_get cf) k)" for k
    using cfs.inv_fold [OF wf] by (simp add: cf_get_put written_fold [OF wf])
  have "data_rep E (cf_get ?cf') (fst s')"
    using assms(5) by (subst data_rep_cong [where c = "written ms (cf_get cf)"]) (auto simp: get)
  moreover have "cf_get ?cf' k = cf_get cf k" if "\<not> data_key k" "k \<noteq> raft_applied_key" for k
  proof -
    have "last_write ms k = None" using that(1) assms(6) by (auto simp: last_write_None)
    with that(2) show ?thesis by (simp add: get written_def)
  qed
  ultimately have "advances E g observer name (w, cf, lcf, s) es rs
       (observe_applies (spec_observations (digest E) g observer es rs) (w\<lparr>w_storage := st'\<rparr>), ?cf', cf_put KEY_COMMITTED ?cr lcf, s')"
    using st' assms(3,4) get [of raft_applied_key]
    by (cases s') (auto simp: advances_def config_ok_def observe_applies_def)
  moreover have "with_storage (apply_raft E no_fault g ms ?lid ?ar ?cr n) w = (w\<lparr>w_storage := st'\<rparr>, Ok ())"
    by (simp add: with_storage_def st'(1))
  ultimately show thesis using that by blast
qed

lemma read_applied_config:
  assumes "config_ok E g name (w, cf, lcf, v, mem)" "apply_codecs_ok E"
  shows "\<exists>a. read_applied E g w = (w, Ok (a, mem))"
proof -
  have "raft_applied E (w_storage w) g = Ok (cf_get cf raft_applied_key)"
    using assms(1) by (simp add: config_ok_def group_ready_def group_open_def raft_applied_def get_state_def)
  moreover have "require_healthy (w_storage w) = Ok ()"
    using assms(1) by (simp add: config_ok_def group_ready_def require_healthy_def)
  ultimately show ?thesis
    using assms by (cases mem) (auto simp: config_ok_def read_applied_def fail_stop_def apply_codecs_ok_def codec_ok_def)
qed

lemma config_sees: "config_ok E g name (w, cf, lcf, s) \<Longrightarrow> sees E g (OnStorage (w_storage w)) (cf_get cf)"
  using sees_storage by (cases s) (fastforce simp: config_ok_def group_ready_def group_open_def)

subsection \<open>Both paths run the specification\<close>

lemma keys_fit_simps [simp]:
  "keys_fit []" "keys_fit (e # es) \<longleftrightarrow> key_fits e \<and> keys_fit es"
  "keys_fit (es @ fs) \<longleftrightarrow> keys_fit es \<and> keys_fit fs"
  by (simp_all add: keys_fit_def)

lemma run_log_snoc:
  "run_log step s es = (s1, rs) \<Longrightarrow> step s1 e = (s2, r) \<Longrightarrow> run_log step s (es @ [e]) = (s2, rs @ [r])"
  by (simp add: run_log_append)

lemma spec_observations_snoc:
  "length es = length rs \<Longrightarrow>
   spec_observations dg g b (es @ [e]) (rs @ [r]) = spec_observations dg g b es rs @ spec_observations dg g b [e] [r]"
  by (rule spec_observations_append)

lemma per_entry_loop_advances:
  assumes "config_ok E g name (w, cf, lcf, v, mem)" "apply_codecs_ok E" "keys_fit es"
  obtains c' rs where
    "per_entry_loop E no_fault g observer mem results es w = (fst c', Ok (results @ rs))"
    "advances E g observer name (w, cf, lcf, v, mem) es rs c'"
  using assms
proof (induction es arbitrary: w cf lcf v mem results thesis)
  case Nil
  show ?case
    by (rule Nil(1) [of "(w, cf, lcf, v, mem)" "[]"]) (use advances_refl [OF Nil(2)] in simp_all)
next
  case (Cons e es)
  obtain v1 mem1 r where step: "spec_entry (digest E) (v, mem) e = ((v1, mem1), r)" by (metis prod.exhaust)
  have fit: "key_fits e" "keys_fit es" using Cons.prems(4) by simp_all
  have rep: "data_rep E (cf_get cf) v" using Cons.prems(2) by (simp add: config_ok_def)
  obtain ms request where d: "decide_entry E g observer (OnStorage (w_storage w)) mem e = Ok (r, ms, request, mem1)"
    "data_rep E (written ms (cf_get cf)) v1"
    "\<forall>m \<in> set ms. data_key (mutation_key m) \<and> length (mutation_key m) \<le> 2 ^ 32"
    "observation_of g (en_log_id e) r request = spec_observations (digest E) g observer [e] [r]"
    using decide_entry_refines [OF config_sees [OF Cons.prems(2)] assms(2) rep fit(1) step] by blast
  have run: "run_log (spec_entry (digest E)) (v, mem) [e] = ((v1, mem1), [r])" by (simp add: step)
  obtain w1 cf1 lcf1 where w1: "with_storage (apply_raft E no_fault g ms (en_log_id e)
      (enc (c_applied E) (Some (en_log_id e), mem1)) (enc (c_committed E) (Some (en_log_id e))) 1) w = (w1, Ok ())"
    "advances E g observer name (w, cf, lcf, v, mem) [e] [r]
      (observe_applies (spec_observations (digest E) g observer [e] [r]) w1, cf1, lcf1, v1, mem1)"
    using write_advances [OF Cons.prems(2) assms(2) _ run, of ms 1 observer] d(2,3) by (auto simp: last.simps)
  let ?w1 = "observe_applies (spec_observations (digest E) g observer [e] [r]) w1"
  have c1: "config_ok E g name (?w1, cf1, lcf1, v1, mem1)" by (rule advances_config [OF w1(2)])
  obtain c' rs where c': "per_entry_loop E no_fault g observer mem1 (results @ [r]) es ?w1 = (fst c', Ok ((results @ [r]) @ rs))"
    "advances E g observer name (?w1, cf1, lcf1, v1, mem1) es rs c'"
    using Cons.IH [OF _ c1 assms(2) fit(2)] by blast
  show ?case
    by (rule Cons.prems(1) [of c' "r # rs"])
      (use c' w1 d advances_append [OF Cons.prems(2) w1(2) c'(2)] in \<open>simp_all add: Let_def fail_stop_def del: sbind_Inr_iff\<close>)
qed

lemma last_write_map_of:
  assumes "\<And>kv. mutation_key (f kv) = fst kv" "\<And>kv. mutation_value (f kv) = snd kv" "distinct (map fst kvs)"
  shows "last_write (map f kvs) k = map_of kvs k"
  using assms(3)
proof (induction kvs)
  case (Cons kv kvs)
  then have "last_write (map f kvs) k = map_of kvs k" "map_of kvs (fst kv) = None"
    by (simp_all add: map_of_eq_None_iff)
  then show ?case by (cases kv) (auto simp: assms(1,2) split: option.split)
qed simp

lemma last_write_into_mutations:
  assumes "mset (iter (ov_pending ov)) = mset (ov_pending ov)" "distinct (map fst (ov_pending ov))"
  shows "last_write (into_mutations iter ov) = map_of (ov_pending ov)"
proof
  fix k
  let ?f = "\<lambda>(key, value). case value of Some v \<Rightarrow> MutPut key v | None \<Rightarrow> MutDelete key"
  have f: "mutation_key (?f x) = fst x" "mutation_value (?f x) = snd x" for x :: "bytes \<times> bytes option"
    by (cases x, auto split: option.split)+
  have "mutation_key \<circ> ?f = fst" using f(1) by (simp add: comp_def fun_eq_iff)
  then have "last_write (into_mutations iter ov) k = last_write (map ?f (ov_pending ov)) k"
    unfolding into_mutations_def
    by (intro last_write_perm [symmetric]) (use assms in simp_all)
  also have "\<dots> = map_of (ov_pending ov) k"
    by (rule last_write_map_of [OF f assms(2)])
  finally show "last_write (into_mutations iter ov) k = map_of (ov_pending ov) k" .
qed

text \<open>What holds of a chunk's state after it has decided \<open>es\<close>.\<close>

definition chunk_inv ::
  "('m, 'a) apply_env_scheme \<Rightarrow> group_id \<Rightarrow> bool \<Rightarrow> storage \<Rightarrow> 'm spec_state \<Rightarrow> 'm entry list \<Rightarrow> 'm chunk_state \<Rightarrow> bool" where
  "chunk_inv E g observer st s0 es s \<longleftrightarrow>
     ov_storage (ck_overlay s) = st \<and> distinct (map fst (ov_pending (ck_overlay s)))
     \<and> (\<forall>k \<in> fst ` set (ov_pending (ck_overlay s)). data_key k \<and> length k \<le> 2 ^ 32)
     \<and> ck_last s = (if es = [] then None else Some (en_log_id (last es)))
     \<and> (\<exists>content v. sees E g (OnOverlay (ck_overlay s)) content \<and> data_rep E content v
          \<and> run_log (spec_entry (digest E)) s0 es = ((v, ck_membership s), ck_results s))
     \<and> ck_observations s = spec_observations (digest E) g observer es (ck_results s)"

lemma keys_stage: "fst ` set (fold stage_one ms p) = mutation_key ` set ms \<union> fst ` set p"
  by (induction ms arbitrary: p) (auto simp: stage_one_eq keys_hash_insert)

lemma chunk_loop_inv:
  assumes "chunk_inv E g observer st s0 past s" "apply_codecs_ok E" "keys_fit es"
  shows "\<exists>s'. chunk_loop E g observer es s = Ok s' \<and> chunk_inv E g observer st s0 (past @ es) s'"
  using assms
proof (induction es arbitrary: past s)
  case (Cons e es)
  obtain content v where c: "sees E g (OnOverlay (ck_overlay s)) content" "data_rep E content v"
    "run_log (spec_entry (digest E)) s0 past = ((v, ck_membership s), ck_results s)"
    using Cons.prems(1) unfolding chunk_inv_def by blast
  obtain v1 mem1 r where step: "spec_entry (digest E) (v, ck_membership s) e = ((v1, mem1), r)" by (metis prod.exhaust)
  have fit: "key_fits e" "keys_fit es" using Cons.prems(3) by simp_all
  obtain ms request where d: "decide_entry E g observer (OnOverlay (ck_overlay s)) (ck_membership s) e = Ok (r, ms, request, mem1)"
    "data_rep E (written ms content) v1"
    "\<forall>m \<in> set ms. data_key (mutation_key m) \<and> length (mutation_key m) \<le> 2 ^ 32"
    "observation_of g (en_log_id e) r request = spec_observations (digest E) g observer [e] [r]"
    using decide_entry_refines [OF c(1) assms(2) c(2) fit(1) step] by blast
  let ?s = "\<lparr>ck_membership = mem1, ck_overlay = stage ms (ck_overlay s), ck_results = ck_results s @ [r],
     ck_observations = ck_observations s @ observation_of g (en_log_id e) r request, ck_last = Some (en_log_id e)\<rparr>"
  have len: "length past = length (ck_results s)" using c(3) by (metis length_run_log snd_conv)
  note inv = Cons.prems(1) [unfolded chunk_inv_def]
  have "\<forall>k \<in> fst ` set (ov_pending (stage ms (ck_overlay s))). data_key k \<and> length k \<le> 2 ^ 32"
    using inv d(3) unfolding stage_def by (simp add: keys_stage ball_Un)
  moreover have "\<exists>content v. sees E g (OnOverlay (stage ms (ck_overlay s))) content \<and> data_rep E content v
     \<and> run_log (spec_entry (digest E)) s0 (past @ [e]) = ((v, mem1), ck_results s @ [r])"
    using sees_stage [OF c(1), of ms] d(2) run_log_snoc [OF c(3) step] by blast
  ultimately have "chunk_inv E g observer st s0 (past @ [e]) ?s"
    using inv unfolding chunk_inv_def
    by (simp add: d(4) spec_observations_snoc [OF len] stage_def distinct_stage)
  from Cons.IH [OF this assms(2) fit(2)] show ?case by (simp add: d(1))
qed simp

lemma chunk_advances:
  assumes "config_ok E g name (w, cf, lcf, s)" "apply_codecs_ok E" "keys_fit es" "es \<noteq> []"
    and iter: "\<And>p. mset (iter p) = mset p"
  obtains c' rs where
    "apply_coalesced_chunk E no_fault iter g observer es w = (fst c', Ok rs)"
    "advances E g observer name (w, cf, lcf, s) es rs c'"
proof -
  obtain v mem where s: "s = (v, mem)" by (cases s)
  obtain a where ra: "read_applied E g w = (w, Ok (a, mem))"
    using read_applied_config [of E g name w cf lcf v mem] assms(1,2) s by auto
  let ?s0 = "\<lparr>ck_membership = mem, ck_overlay = overlay_new (w_storage w), ck_results = [],
     ck_observations = [], ck_last = None\<rparr>"
  have "data_rep E (cf_get cf) v" using assms(1) by (simp add: s config_ok_def)
  then have "chunk_inv E g observer (w_storage w) s [] ?s0"
    using sees_overlay_new [OF config_sees [OF assms(1)]] by (auto simp: chunk_inv_def s overlay_new_def)
  from chunk_loop_inv [OF this assms(2,3)] obtain k where
    k: "chunk_loop E g observer es ?s0 = Ok k" "chunk_inv E g observer (w_storage w) s es k" by auto
  from k(2) obtain content v' where
    c: "sees E g (OnOverlay (ck_overlay k)) content" "data_rep E content v'"
      "run_log (spec_entry (digest E)) s es = ((v', ck_membership k), ck_results k)"
    and ov: "ov_storage (ck_overlay k) = w_storage w" "distinct (map fst (ov_pending (ck_overlay k)))"
      "\<forall>x \<in> fst ` set (ov_pending (ck_overlay k)). data_key x \<and> length x \<le> 2 ^ 32"
    and last: "ck_last k = Some (en_log_id (last es))"
      "ck_observations k = spec_observations (digest E) g observer es (ck_results k)"
    using assms(4) unfolding chunk_inv_def by auto
  let ?ms = "into_mutations iter (ck_overlay k)"
  note lw = last_write_into_mutations [of iter "ck_overlay k", OF iter ov(2)]
  have "written ?ms (cf_get cf) = content"
  proof
    fix x show "written ?ms (cf_get cf) x = content x"
    using sees_cong_raw [OF c(1), of x] sees_cong_raw [OF config_sees [OF assms(1)], of x]
    by (auto simp: written_def lw ov(1) split: option.splits)
  qed
  then have rep: "data_rep E (written ?ms (cf_get cf)) (fst (v', ck_membership k))"
    using c(2) by simp
  have keys: "\<forall>m \<in> set ?ms. data_key (mutation_key m) \<and> length (mutation_key m) \<le> 2 ^ 32"
  proof
    fix m assume "m \<in> set ?ms"
    then have "last_write ?ms (mutation_key m) \<noteq> None" by (auto simp: last_write_None)
    then show "data_key (mutation_key m) \<and> length (mutation_key m) \<le> 2 ^ 32"
      using ov(3) by (auto simp: lw map_of_eq_None_iff)
  qed
  obtain w' cf' lcf' where w': "with_storage (apply_raft E no_fault g ?ms (en_log_id (last es))
      (enc (c_applied E) (Some (en_log_id (last es)), ck_membership k))
      (enc (c_committed E) (Some (en_log_id (last es)))) (length (ck_results k))) w = (w', Ok ())"
    "advances E g observer name (w, cf, lcf, s) es (ck_results k)
      (observe_applies (ck_observations k) w', cf', lcf', v', ck_membership k)"
    using write_advances [OF assms(1,2,4) c(3) rep keys, of "length (ck_results k)" observer] last(2) by auto
  show thesis
    by (rule that [of "(observe_applies (ck_observations k) w', cf', lcf', v', ck_membership k)" "ck_results k"])
      (use w' ra k(1) last(1) in \<open>simp_all add: apply_coalesced_chunk_def fail_stop_def del: sbind_Inr_iff\<close>)
qed

lemma coalesce_loop_advances:
  assumes "config_ok E g name (w, cf, lcf, s)" "apply_codecs_ok E" "keys_fit (chunk @ es)"
    and iter: "\<And>p. mset (iter p) = mset p"
  obtains c' rs where
    "coalesce_loop E no_fault iter g observer results chunk n es w = (fst c', Ok (results @ rs))"
    "advances E g observer name (w, cf, lcf, s) (chunk @ es) rs c'"
  using assms(1,3)
proof (induction es arbitrary: w cf lcf s chunk n results thesis)
  case Nil
  show ?case
  proof (cases "chunk = []")
    case True
    show ?thesis
      by (rule Nil(1) [of "(w, cf, lcf, s)" "[]"]) (use True advances_refl [OF Nil(2)] in simp_all)
  next
    case False
    have fit: "keys_fit chunk" using Nil(3) by simp
    obtain c' rs where "apply_coalesced_chunk E no_fault iter g observer chunk w = (fst c', Ok rs)"
      "advances E g observer name (w, cf, lcf, s) chunk rs c'"
      using chunk_advances [OF Nil(2) assms(2) fit False iter, where observer = observer] by blast
    then show ?thesis by (intro Nil(1) [of c' rs]) (simp_all add: False)
  qed
next
  case (Cons e es)
  let ?over = "chunk \<noteq> [] \<and> (length chunk \<ge> APPLY_CHUNK_ENTRIES
    \<or> usize_saturating_add n (encoded_len E e) > APPLY_CHUNK_INPUT_BYTES)"
  have fit: "keys_fit chunk" "keys_fit ([e] @ es)" "keys_fit ((chunk @ [e]) @ es)" using Cons.prems(3) by simp_all
  show ?case
  proof (cases ?over)
    case True
    then have ne: "chunk \<noteq> []" by blast
    obtain c1 rs where c1: "apply_coalesced_chunk E no_fault iter g observer chunk w = (fst c1, Ok rs)"
      "advances E g observer name (w, cf, lcf, s) chunk rs c1"
      using chunk_advances [OF Cons.prems(2) assms(2) fit(1) ne iter, where observer = observer] by blast
    obtain w1 cf1 lcf1 s1 where q: "c1 = (w1, cf1, lcf1, s1)" by (metis prod.exhaust)
    have ok: "config_ok E g name (w1, cf1, lcf1, s1)" using advances_config [OF c1(2)] by (simp only: q)
    obtain c' ss where c': "coalesce_loop E no_fault iter g observer (results @ rs) [e]
        (usize_saturating_add 0 (encoded_len E e)) es w1 = (fst c', Ok ((results @ rs) @ ss))"
      "advances E g observer name (w1, cf1, lcf1, s1) ([e] @ es) ss c'"
      using Cons.IH [OF _ ok fit(2)] by blast
    show ?thesis
      by (rule Cons.prems(1) [of c' "rs @ ss"])
        (use True c1 c' q advances_append [OF Cons.prems(2) c1(2)] in \<open>simp_all add: Let_def fail_stop_def del: sbind_Inr_iff\<close>)
  next
    case False
    obtain c' rs where c': "coalesce_loop E no_fault iter g observer results (chunk @ [e])
        (usize_saturating_add n (encoded_len E e)) es w = (fst c', Ok (results @ rs))"
      "advances E g observer name (w, cf, lcf, s) ((chunk @ [e]) @ es) rs c'"
      using Cons.IH [OF _ Cons.prems(2) fit(3)] by blast
    show ?thesis
      by (rule Cons.prems(1) [of c' rs]) (use c' in \<open>simp_all add: Let_def if_not_P [OF False] del: sbind_Inr_iff\<close>)
  qed
qed

subsection \<open>Failures fence the database\<close>

lemma fail_stop_Err: "fail_stop ctxt wr = (w', Err e) \<Longrightarrow> db_failed (w_storage w') \<noteq> None"
  by (auto simp: fail_stop_def poison_records(3) [unfolded not_None_eq] split: prod.splits sum.splits)

lemma sbind_Err_iff:
  "sbind m f = (t, Inl e) \<longleftrightarrow> m = (t, Inl e) \<or> (\<exists>s x. m = (s, Inr x) \<and> f s x = (t, Inl e))"
  by (cases "(m, f)" rule: sbind.cases) auto

lemma read_applied_Err: "read_applied E g w = (w', Err e) \<Longrightarrow> db_failed (w_storage w') \<noteq> None"
  by (auto simp: read_applied_def sbind_Err_iff dest: fail_stop_Err split: option.splits)

lemma chunk_Err: "apply_coalesced_chunk E fault iter g observer es w = (w', Err e) \<Longrightarrow> db_failed (w_storage w') \<noteq> None"
  by (auto simp: apply_coalesced_chunk_def sbind_Err_iff dest: read_applied_Err fail_stop_Err split: option.splits)

lemma coalesce_loop_Err:
  "coalesce_loop E fault iter g observer rs chunk n es w = (w', Err e) \<Longrightarrow> db_failed (w_storage w') \<noteq> None"
proof (induction es arbitrary: rs chunk n w)
  case (Cons x es)
  then show ?case by (auto simp: Let_def sbind_Err_iff dest: chunk_Err split: if_splits)
qed (auto simp: sbind_Err_iff dest: chunk_Err split: if_splits)

lemma per_entry_loop_Err:
  "per_entry_loop E fault g observer mem rs es w = (w', Err e) \<Longrightarrow> db_failed (w_storage w') \<noteq> None"
proof (induction es arbitrary: mem rs w)
  case (Cons x es)
  then show ?case by (auto simp: Let_def sbind_Err_iff dest: fail_stop_Err)
qed simp

lemma raft_apply_Err:
  "raft_apply coalesce E fault iter g observer es w = (w', Err e) \<Longrightarrow> db_failed (w_storage w') \<noteq> None"
  by (auto simp: raft_apply_def apply_coalesced_def apply_per_entry_def sbind_Err_iff
      dest: coalesce_loop_Err per_entry_loop_Err read_applied_Err split: if_splits)

lemma read_applied_failed:
  "db_failed (w_storage w) \<noteq> None \<Longrightarrow> \<exists>e. read_applied E g w = (w, Err e)"
  by (auto simp: read_applied_def require_healthy_def fail_stop_def poison_failed)

lemma coalesce_loop_failed:
  assumes "db_failed (w_storage w) \<noteq> None" "chunk @ es \<noteq> []"
  shows "\<exists>e. coalesce_loop E fault iter g observer rs chunk n es w = (w, Err e)"
  using assms(2)
proof (induction es arbitrary: chunk n)
  case Nil
  then show ?case using read_applied_failed [OF assms(1), of E g] by (auto simp: apply_coalesced_chunk_def)
next
  case (Cons x es)
  have "\<exists>e. apply_coalesced_chunk E fault iter g observer chunk w = (w, Err e)"
    using read_applied_failed [OF assms(1), of E g] by (auto simp: apply_coalesced_chunk_def)
  then show ?case using Cons.IH by (auto simp: Let_def)
qed

lemma raft_apply_failed:
  assumes "db_failed (w_storage w) \<noteq> None" "es \<noteq> []"
  shows "\<exists>e. raft_apply coalesce E fault iter g observer es w = (w, Err e)"
  using read_applied_failed [OF assms(1), of E g] coalesce_loop_failed [OF assms(1), of "[]" es] assms(2)
  by (auto simp: raft_apply_def apply_coalesced_def apply_per_entry_def)

end
