(* ===== verification/Data_Runs.thy ===== *)
theory Data_Runs
  imports Apply Oracles
begin

section \<open>Runs of the data state machine\<close>

text \<open>
  What holds of every log a data group applies, in either apply mode: the coalesced and the
  per-entry path agree, client sequences are decided once and in order, replays repeat the
  recorded decision, and acknowledged writes survive.  The invariants are stated on the
  specification with its history and carried to the applier by the refinement of \<open>Apply\<close>.
\<close>

subsection \<open>A concrete environment\<close>

definition p_if_version :: "if_version pcodec" where
  "p_if_version = p_iso (\<lambda>s. case s of Inl _ \<Rightarrow> AbsentOnly | Inr n \<Rightarrow> Number n)
     (\<lambda>v. case v of AbsentOnly \<Rightarrow> Inl () | Number n \<Rightarrow> Inr n) (p_sum p_unit p_u64)"

definition p_data_op :: "data_op pcodec" where
  "p_data_op = p_iso (\<lambda>s. case s of Inl (k, v, c) \<Rightarrow> OpPut k v c | Inr (k, c) \<Rightarrow> OpDelete k c)
     (\<lambda>op. case op of OpPut k v c \<Rightarrow> Inl (k, v, c) | OpDelete k c \<Rightarrow> Inr (k, c))
     (p_sum (p_pair p_bytes (p_pair p_bytes (p_option p_if_version))) (p_pair p_bytes (p_option p_if_version)))"

definition p_presence :: "key_presence pcodec" where
  "p_presence = p_iso (\<lambda>v. case v of None \<Rightarrow> Absent | Some n \<Rightarrow> Present n)
     (\<lambda>k. case k of Absent \<Rightarrow> None | Present n \<Rightarrow> Some n) (p_option p_u64)"

definition p_mutation_result :: "mutation_result pcodec" where
  "p_mutation_result = p_iso (\<lambda>s. case s of Inl v \<Rightarrow> Applied v | Inr p \<Rightarrow> ConditionFailed p)
     (\<lambda>r. case r of Applied v \<Rightarrow> Inl v | ConditionFailed p \<Rightarrow> Inr p) (p_sum p_u64 p_presence)"

definition p_key_record :: "key_record pcodec" where
  "p_key_record = p_iso (\<lambda>(v, b). \<lparr>kr_version = v, kr_value = b\<rparr>) (\<lambda>r. (kr_version r, kr_value r)) (p_pair p_u64 p_bytes)"

definition p_seq_record :: "seq_record pcodec" where
  "p_seq_record = p_iso (\<lambda>(h, d, r). \<lparr>sq_highest = h, sq_digest = d, sq_result = r\<rparr>)
     (\<lambda>s. (sq_highest s, sq_digest s, sq_result s)) (p_pair p_u64 (p_pair p_u128 p_mutation_result))"

definition p_applied :: "node_id list applied pcodec" where
  "p_applied = p_pair (p_option p_raft_log_id) (p_pair (p_option p_raft_log_id) (p_list p_u64))"

text \<open>Memberships as lists of node ids, a digest that only counts bytes, and an entry size of one.\<close>

definition ref_apply_env :: "node_id list apply_env" where
  "ref_apply_env = \<lparr>c_string = whole p_string, c_u64 = whole p_u64, c_u128 = whole p_u128,
     c_log_id = whole p_log_id, c_serving = whole p_serving,
     c_consumer = whole p_consumer, c_definition = whole p_definition,
     c_key = whole p_key_record, c_seq = whole p_seq_record, c_op = whole p_data_op,
     xxh3_128 = (\<lambda>bs. of_nat (length bs)),
     c_applied = whole p_applied, c_committed = whole (p_option p_raft_log_id),
     default_membership = [], encoded_len = (\<lambda>_. 1)\<rparr>"

lemma pok_data [pok_intros]:
  "pok p_if_version" "pok p_presence" "pok p_key_record"
  unfolding p_if_version_def p_presence_def p_key_record_def
  by (intro pok_intros; auto split: if_version.split key_presence.split)+

lemma pok_data_records [pok_intros]: "pok p_data_op" "pok p_mutation_result" "pok p_applied"
  unfolding p_data_op_def p_mutation_result_def p_applied_def
  by (intro pok_intros; auto split: data_op.split mutation_result.split)+

lemma pok_seq_record [pok_intros]: "pok p_seq_record"
  unfolding p_seq_record_def by (intro pok_intros) auto

lemma ref_apply_env_ok: "apply_codecs_ok ref_apply_env"
  by (auto simp: apply_codecs_ok_def data_codecs_ok_def search_codecs_ok_def ref_apply_env_def
      intro!: codec_ok_whole pok_intros)

text \<open>A store with one empty, open data group, and a log of three entries by one client.\<close>

definition demo_world :: world where
  "demo_world = \<lparr>w_storage = \<lparr>db_default = [],
       db_cfs = [cf_state (Data 3) \<mapsto> [], cf_log (Data 3) \<mapsto> []], db_failed = None\<rparr>, w_observed = []\<rparr>"

definition demo_view :: data_view where
  "demo_view = \<lparr>dv_keys = (\<lambda>_. None), dv_seqs = (\<lambda>_. None), dv_epoch = None\<rparr>"

definition demo_entry :: "u64 \<Rightarrow> u64 \<Rightarrow> data_op \<Rightarrow> node_id list entry" where
  "demo_entry i q op = \<lparr>en_log_id = RaftLogId 1 1 i,
     en_payload = Normal \<lparr>dr_recovery_epoch = 0, dr_client_id = 9, dr_sequence = q, dr_op = op\<rparr>\<rparr>"

definition demo_log :: "node_id list entry list" where
  "demo_log = [demo_entry 5 1 (OpPut [7] [1] None), demo_entry 6 1 (OpPut [7] [1] None),
     demo_entry 8 2 (OpPut [7] [2, 2] (Some (Number 5)))]"

abbreviation demo_config :: "node_id list config" where
  "demo_config \<equiv> (demo_world, [], [], demo_view, (None, []))"

lemma cf_get_Nil [simp]: "cf_get [] k = None"
  by (simp add: cf_get_def)

lemma demo_config_ok: "config_ok ref_apply_env (Data 3) (cf_state (Data 3)) demo_config"
  by (simp add: config_ok_def group_ready_def group_open_def outbox_ok_def outbox_readable_def search_consumers_def
      cf_iter_prefix_def demo_world_def demo_view_def data_rep_def state_cf_Ok
      active_state_cf_name_def get_local_def cf_log_def cf_state_def ref_apply_env_def strictly_sorted_def)

lemma demo_log_fits: "keys_fit demo_log"
  by (simp add: demo_log_def demo_entry_def key_fits_def)

subsection \<open>The applier implements the specification\<close>

lemma raft_apply_advances:
  assumes "config_ok E g name (w, cf, lcf, s)" "apply_codecs_ok E" "keys_fit es"
    and iter: "\<And>p. mset (iter p) = mset p"
  obtains c' rs where "raft_apply coalesce E no_fault iter g observer es w = (fst c', Ok rs)"
    "advances E g observer name (w, cf, lcf, s) es rs c'"
proof (cases coalesce)
  case True
  have fit: "keys_fit ([] @ es)" using assms(3) by simp
  obtain c' rs where "coalesce_loop E no_fault iter g observer [] [] 0 es w = (fst c', Ok ([] @ rs))"
    "advances E g observer name (w, cf, lcf, s) ([] @ es) rs c'"
    by (rule coalesce_loop_advances [OF assms(1,2) fit iter])
  with True show thesis using that by (simp add: raft_apply_def apply_coalesced_def)
next
  case False
  obtain v mem where s: "s = (v, mem)" by (cases s)
  obtain a where ra: "read_applied E g w = (w, Ok (a, mem))"
    using read_applied_config [OF assms(1) [unfolded s] assms(2)] by blast
  obtain c' rs where "per_entry_loop E no_fault g observer mem [] es w = (fst c', Ok ([] @ rs))"
    "advances E g observer name (w, cf, lcf, v, mem) es rs c'"
    by (rule per_entry_loop_advances [OF assms(1) [unfolded s] assms(2,3)])
  with False ra show thesis using that
    by (simp add: raft_apply_def apply_per_entry_def s del: sbind_Inr_iff)
qed

lemma config_cf_eqI:
  assumes "advances E g observer name (w, cf, lcf, s) es rs (w1, cf1, lcf1, s1)"
    and "advances E g observer name (w, cf, lcf, s) es rs' (w2, cf2, lcf2, s2)"
  shows "cf1 = cf2" "lcf1 = lcf2" "rs = rs'" "s1 = s2"
proof -
  note a = assms [unfolded advances_def prod.case]
  show s: "s1 = s2" "rs = rs'" using a by auto
  show "lcf1 = lcf2" using a by (auto split: if_splits)
  obtain v mem where v: "s1 = (v, mem)" "s2 = (v, mem)" using s by (cases s1) auto
  have wf: "cf_wf cf1" "cf_wf cf2" and rep: "data_rep E (cf_get cf1) v" "data_rep E (cf_get cf2) v"
    using a by (auto simp: v config_ok_def group_ready_def group_open_def)
  show "cf1 = cf2"
  proof (cases "es = []")
    case False
    show ?thesis
    proof (rule cf_ext [OF wf])
      fix k
      show "cf_get cf1 k = cf_get cf2 k"
      proof (cases "data_key k \<or> k = raft_applied_key")
        case True
        then show ?thesis using rep a False by (auto simp: data_key_def data_rep_def s(1))
      qed (use a False in auto)
    qed
  qed (use a in auto)
qed

lemma config_cfs: "config_ok E g name (w, cf, lcf, s) \<Longrightarrow>
    db_cfs (w_storage w) name = Some cf \<and> db_cfs (w_storage w) (cf_log g) = Some lcf"
  by (cases s) (auto simp: config_ok_def group_ready_def group_open_def state_cf_Ok)

text \<open>C1: On an open group, applying a batch of committed entries in coalesced chunks and applying
  it entry by entry succeed with the same answers, tell the observer the same, and leave every
  named column family equal (the group's state and Raft log, and those of other groups), whatever
  order the overlay's hash map is drained in.  In the default column family every record outside
  the search namespace is equal too; the outbox rows themselves are not, since a chunk records
  each changed key once, at the chunk's last log id.\<close>

theorem coalesced_equals_per_entry:
  assumes "config_ok E g name (w, cf, lcf, s)" "apply_codecs_ok E" "keys_fit es"
    and "\<And>p. mset (iter p) = mset p"
  shows "\<exists>w1 w2 rs. raft_apply True E no_fault iter g observer es w = (w1, Ok rs)
    \<and> raft_apply False E no_fault iter g observer es w = (w2, Ok rs)
    \<and> length rs = length es \<and> w_observed w1 = w_observed w2
    \<and> db_cfs (w_storage w1) = db_cfs (w_storage w2)
    \<and> search_only (db_default (w_storage w1)) (db_default (w_storage w2))"
proof -
  obtain c1 rs1 where r1: "raft_apply True E no_fault iter g observer es w = (fst c1, Ok rs1)"
    and c1: "advances E g observer name (w, cf, lcf, s) es rs1 c1"
    by (rule raft_apply_advances [OF assms])
  obtain c2 rs2 where r2: "raft_apply False E no_fault iter g observer es w = (fst c2, Ok rs2)"
    and c2: "advances E g observer name (w, cf, lcf, s) es rs2 c2"
    by (rule raft_apply_advances [OF assms])
  obtain w1 cf1 lcf1 s1 w2 cf2 lcf2 s2 where q: "c1 = (w1, cf1, lcf1, s1)" "c2 = (w2, cf2, lcf2, s2)"
    by (metis prod.exhaust)
  note eq = config_cf_eqI [OF c1 [unfolded q] c2 [unfolded q]]
  note cfs = config_cfs [OF advances_config [OF c1, unfolded q]] config_cfs [OF advances_config [OF c2, unfolded q]]
  note a = c1 [unfolded q advances_def prod.case] c2 [unfolded q advances_def prod.case]
  have "db_cfs (w_storage w1) x = db_cfs (w_storage w2) x" for x
    using cfs eq a by (cases "x = name \<or> x = cf_log g") auto
  moreover have "length rs1 = length es" using a(1) by (metis length_run_log snd_conv)
  moreover have "search_only (db_default (w_storage w1)) (db_default (w_storage w2))"
    using a by (simp add: search_only_def)
  ultimately show ?thesis using r1 r2 eq(3) a by (auto simp: q)
qed

theorem coalesced_equals_per_entry_witness:
  "\<exists>w1 w2 rs. raft_apply True ref_apply_env no_fault rev (Data 3) True demo_log demo_world = (w1, Ok rs)
     \<and> raft_apply False ref_apply_env no_fault rev (Data 3) True demo_log demo_world = (w2, Ok rs)
     \<and> length rs = 3 \<and> db_cfs (w_storage w1) = db_cfs (w_storage w2)"
  using coalesced_equals_per_entry [OF demo_config_ok ref_apply_env_ok demo_log_fits, of rev True]
  by (auto simp: demo_log_def)

subsection \<open>Sequences are decided once and in order\<close>

definition decided_of :: "client_id \<Rightarrow> ('m entry \<times> apply_result) list \<Rightarrow> (data_request \<times> mutation_result) list" where
  "decided_of c h = concat (map (\<lambda>(e, r). case en_payload e of
       Normal req \<Rightarrow> (case r of Decided res \<Rightarrow> if dr_client_id req = c then [(req, res)] else [] | _ \<Rightarrow> [])
     | _ \<Rightarrow> []) h)"

definition client_record :: "(data_op \<Rightarrow> u128) \<Rightarrow> (data_request \<times> mutation_result) list \<Rightarrow> seq_record option" where
  "client_record dg ds = (if ds = [] then None else
     Some \<lparr>sq_highest = dr_sequence (fst (last ds)), sq_digest = dg (dr_op (fst (last ds))), sq_result = snd (last ds)\<rparr>)"

definition replays_decided :: "(data_op \<Rightarrow> u128) \<Rightarrow> ('m entry \<times> apply_result) list \<Rightarrow> bool" where
  "replays_decided dg h \<longleftrightarrow> (\<forall>e req res. (e, Replayed res) \<in> set h \<longrightarrow> en_payload e = Normal req \<longrightarrow>
     (\<exists>req'. (req', res) \<in> set (decided_of (dr_client_id req) h)
        \<and> dr_sequence req' = dr_sequence req \<and> dg (dr_op req') = dg (dr_op req)))"

definition history_inv :: "(data_op \<Rightarrow> u128) \<Rightarrow> 'm spec_state \<times> ('m entry \<times> apply_result) list \<Rightarrow> bool" where
  "history_inv dg = (\<lambda>(s, h).
     (\<forall>c. dv_seqs (fst s) c = client_record dg (decided_of c h)
        \<and> map (\<lambda>d. unat (dr_sequence (fst d))) (decided_of c h) = [1..<Suc (length (decided_of c h))])
     \<and> replays_decided dg h)"

lemma decided_of_append: "decided_of c (h @ h') = decided_of c h @ decided_of c h'"
  by (simp add: decided_of_def)

lemma decided_of_one:
  "decided_of c [(e, r)] = (case en_payload e of
     Normal req \<Rightarrow> (case r of Decided res \<Rightarrow> if dr_client_id req = c then [(req, res)] else [] | _ \<Rightarrow> []) | _ \<Rightarrow> [])"
  by (simp add: decided_of_def)

lemma replays_snoc:
  assumes "replays_decided dg h"
    and "\<And>req res. en_payload e = Normal req \<Longrightarrow> r = Replayed res \<Longrightarrow>
      \<exists>req'. (req', res) \<in> set (decided_of (dr_client_id req) h)
        \<and> dr_sequence req' = dr_sequence req \<and> dg (dr_op req') = dg (dr_op req)"
  shows "replays_decided dg (h @ [(e, r)])"
  using assms unfolding replays_decided_def decided_of_append set_append Un_iff list.set by blast

lemma upt_map_last:
  assumes "map f ds = [1..<Suc (length ds)]" "ds \<noteq> []"
  shows "f (last ds) = length ds"
  using assms by (metis last_map last_upt length_greater_0_conv less_Suc_eq_le list.size(3) not_less_eq_eq upt_Suc_append zero_less_Suc One_nat_def Suc_leI last_snoc)

lemma history_step:
  assumes "history_inv dg (s, h)" "spec_entry dg s e = (s', r)"
  shows "history_inv dg (s', h @ [(e, r)])"
proof (cases "en_payload e")
  case (Normal req)
  let ?c = "dr_client_id req" and ?ds = "decided_of (dr_client_id req) h"
  have inv: "dv_seqs (fst s) c = client_record dg (decided_of c h)"
    "map (\<lambda>d. unat (dr_sequence (fst d))) (decided_of c h) = [1..<Suc (length (decided_of c h))]"
    "replays_decided dg h" for c
    using assms(1) by (auto simp: history_inv_def)
  have highest: "unat (case dv_seqs (fst s) ?c of Some r \<Rightarrow> sq_highest r | None \<Rightarrow> 0) = length ?ds"
    using upt_map_last [OF inv(2) [of ?c]] inv(1) [of ?c] by (simp add: client_record_def)
  show ?thesis
  proof (cases "spec_gate dg (fst s) req")
    case (Answer a)
    have ra: "r = a" "s' = s" using assms(2) Normal Answer by (auto simp: spec_entry_def spec_step_def)
    have nd: "a \<noteq> Decided x" for x
      using Answer by (auto simp: spec_gate_def Let_def split: if_splits option.splits)
    have same: "decided_of c (h @ [(e, r)]) = decided_of c h" for c
      using nd ra(1) by (auto simp: decided_of_append decided_of_one Normal split: apply_result.split)
    have "\<exists>req'. (req', res) \<in> set ?ds \<and> dr_sequence req' = dr_sequence req \<and> dg (dr_op req') = dg (dr_op req)"
      if rep: "a = Replayed res" for res
    proof -
      obtain sr where "dv_seqs (fst s) ?c = Some sr" "sq_digest sr = dg (dr_op req)" "res = sq_result sr"
        "dr_sequence req = sq_highest sr"
        using Answer rep by (auto simp: spec_gate_def Let_def split: if_splits option.splits)
      then show ?thesis
        using inv(1) [of ?c] last_in_set [of ?ds]
        by (intro exI [of _ "fst (last ?ds)"]) (auto simp: client_record_def split: if_splits)
    qed
    then have "replays_decided dg (h @ [(e, r)])"
      using Normal ra(1) by (intro replays_snoc inv(3)) auto
    then show ?thesis using inv(1,2) by (simp add: history_inv_def same ra(2))
  next
    case Fresh
    obtain res new where d: "spec_decide (dv_keys (fst s) (op_key (dr_op req))) (dr_op req) (rl_index (en_log_id e)) = (res, new)"
      by force
    have r: "r = Decided res" and s': "dv_seqs (fst s') = (dv_seqs (fst s))(?c \<mapsto>
        \<lparr>sq_highest = dr_sequence req, sq_digest = dg (dr_op req), sq_result = res\<rparr>)"
      using assms(2) Normal Fresh d by (auto simp: spec_entry_def spec_step_def)
    have seq: "unat (dr_sequence req) = Suc (length ?ds)"
      using Fresh highest by (auto simp: spec_gate_def Let_def split: if_splits)
    have ds: "decided_of c (h @ [(e, r)]) = (if c = ?c then ?ds @ [(req, res)] else decided_of c h)" for c
      by (simp add: decided_of_append decided_of_one Normal r)
    have "replays_decided dg (h @ [(e, r)])" using r by (intro replays_snoc inv(3)) auto
    moreover have "map (\<lambda>d. unat (dr_sequence (fst d))) (?ds @ [(req, res)]) = [1..<Suc (length (?ds @ [(req, res)]))]"
      using inv(2) [of ?c] seq by simp
    ultimately show ?thesis
      using inv(1,2) by (auto simp: history_inv_def ds s' client_record_def simp del: upt_Suc)
  qed
qed (use assms in \<open>auto simp: history_inv_def spec_entry_def decided_of_append decided_of_one intro: replays_snoc\<close>)

interpretation history: log_machine "recorded (spec_entry dg)" "history_inv dg"
  by unfold_locales (auto simp: recorded_def split_beta Let_def intro!: history_step)

text \<open>A group whose clients have no records yet: where a group's life starts.\<close>

definition no_clients :: "data_view \<Rightarrow> bool" where
  "no_clients v \<longleftrightarrow> (\<forall>c. dv_seqs v c = None)"

lemma history_run:
  assumes "no_clients (fst s)" "run_log (spec_entry dg) s es = (s', rs)"
  shows "history_inv dg (s', zip es rs)"
proof -
  have "history_inv dg (s, [])"
    using assms(1) by (simp add: history_inv_def no_clients_def decided_of_def client_record_def replays_decided_def)
  from history.inv_run [OF this, of es] show ?thesis by (simp add: run_recorded assms(2))
qed

text \<open>The observations the harness feeds to its oracle, as it converts them.\<close>

definition applied_of :: "u16 \<Rightarrow> apply_observation list \<Rightarrow> applied_obs list" where
  "applied_of p obs =
     map (\<lambda>ob. \<lparr>ap_client_id = ao_client_id ob, ap_partition = p, ap_sequence = ao_sequence ob,
        ap_digest = ao_digest ob, ap_fresh = (case ao_result ob of Decided _ \<Rightarrow> True | _ \<Rightarrow> False)\<rparr>)
       (filter (\<lambda>ob. mutation (ao_result ob) \<noteq> None) obs)"

lemma applied_of_trace:
  assumes "replays_decided dg (zip es rs)" "length es = length rs"
    and "a \<in> set (applied_of p (spec_observations dg g True es rs))"
  shows "\<exists>d \<in> set (decided_of (ap_client_id a) (zip es rs)).
    dr_sequence (fst d) = ap_sequence a \<and> dg (dr_op (fst d)) = ap_digest a"
proof -
  from assms(3) obtain e r req where er: "(e, r) \<in> set (zip es rs)" "en_payload e = Normal req" "mutation r \<noteq> None"
    "ap_client_id a = dr_client_id req" "ap_sequence a = dr_sequence req" "ap_digest a = dg (dr_op req)"
    by (auto simp: applied_of_def spec_observations_def split: payload.splits) metis
  then show ?thesis
  proof (cases r)
    case (Decided res)
    with er have "(req, res) \<in> set (decided_of (dr_client_id req) (zip es rs))"
      by (force simp: decided_of_def)
    with er show ?thesis by force
  next
    case (Replayed res)
    with er assms(1) obtain req' where "(req', res) \<in> set (decided_of (dr_client_id req) (zip es rs))"
      "dr_sequence req' = dr_sequence req" "dg (dr_op req') = dg (dr_op req)"
      unfolding replays_decided_def by blast
    with er show ?thesis by force
  qed auto
qed

lemma fresh_count_decided:
  "length es = length rs \<Longrightarrow>
   fresh_count (c, p, q) (applied_of p (spec_observations dg g True es rs)) =
   length (filter (\<lambda>d. dr_sequence (fst d) = q) (decided_of c (zip es rs)))"
proof (induction es rs rule: list_induct2)
  case (Cons e es r rs)
  then show ?case
    using spec_observations_append [of "[e]" "[r]" dg g True es rs]
      decided_of_append [of c "[(e, r)]" "zip es rs"]
    by (auto simp: decided_of_one spec_observations_def applied_of_def fresh_count_def applied_key_def
        split: payload.split apply_result.split)
qed (simp add: applied_of_def decided_of_def)

lemma once_history:
  assumes "history_inv dg (s, zip es rs)" "length es = length rs"
  shows "once (applied_of p (spec_observations dg g True es rs))"
proof (rule onceI)
  let ?h = "zip es rs"
  let ?as = "applied_of p (spec_observations dg g True es rs)"
  have inv: "map (\<lambda>d. unat (dr_sequence (fst d))) (decided_of c ?h) = [1..<Suc (length (decided_of c ?h))]"
    "replays_decided dg ?h" for c
    using assms(1) by (auto simp: history_inv_def)
  have "distinct (map (\<lambda>d. unat (dr_sequence (fst d))) (decided_of c ?h))" for c
    unfolding inv(1) by (rule distinct_upt)
  then have inj: "d = d'" if "d \<in> set (decided_of c ?h)" "d' \<in> set (decided_of c ?h)"
    "dr_sequence (fst d) = dr_sequence (fst d')" for c d d'
    using that by (simp add: distinct_map inj_on_def)
  show "ap_digest a = ap_digest b" if ab: "a \<in> set ?as" "b \<in> set ?as" "applied_key a = applied_key b" for a b
  proof -
    obtain d d' where d: "d \<in> set (decided_of (ap_client_id a) ?h)" "dr_sequence (fst d) = ap_sequence a"
      "dg (dr_op (fst d)) = ap_digest a" and d': "d' \<in> set (decided_of (ap_client_id b) ?h)"
      "dr_sequence (fst d') = ap_sequence b" "dg (dr_op (fst d')) = ap_digest b"
      using applied_of_trace [OF inv(2) assms(2) ab(1)] applied_of_trace [OF inv(2) assms(2) ab(2)] by blast
    have "ap_client_id a = ap_client_id b" "ap_sequence a = ap_sequence b" using ab(3) by (simp_all add: applied_key_def)
    then have "d = d'" using d d' inj [of d "ap_client_id a" d'] by simp
    with d(3) d'(3) show ?thesis by simp
  qed
  fix k :: "u128 \<times> u16 \<times> u64"
  obtain c p' q where k: "k = (c, p', q)" by (cases k)
  have "distinct (map (\<lambda>d. unat (dr_sequence (fst d))) (decided_of c ?h))" unfolding inv(1) by (rule distinct_upt)
  then have d: "distinct (filter (\<lambda>d. dr_sequence (fst d) = q) (decided_of c ?h))" by (simp add: distinct_map)
  have "length (filter (\<lambda>d. dr_sequence (fst d) = q) (decided_of c ?h)) \<le> 1"
    unfolding distinct_card [OF d, symmetric] One_nat_def using inj [where c = c]
    by (subst card_le_Suc0_iff_eq) auto
  then show "fresh_count k ?as \<le> 1"
    using fresh_count_decided [OF assms(2), of c p q dg g]
    by (cases "p' = p") (auto simp: k fresh_count_def applied_key_def applied_of_def)
qed

text \<open>C2: Whatever log a data group applies from its start, in whichever mode, what a replica
  reports to the harness passes the exactly-once oracle, in any order the reports are collected:
  no sequence is ever decided for two commands or freshly decided twice.\<close>

theorem applies_exactly_once:
  assumes "config_ok E (Data p) name (w, cf, lcf, s)" "apply_codecs_ok E" "keys_fit es"
    and "\<And>q. mset (iter q) = mset q"
    and "no_clients (fst s)" "w_observed w = []"
  shows "\<exists>w' rs. raft_apply coalesce E no_fault iter (Data p) True es w = (w', Ok rs)
    \<and> (\<forall>as. mset as = mset (applied_of p (w_observed w')) \<longrightarrow> exactly_once as = Ok ())"
proof -
  obtain c' rs where r: "raft_apply coalesce E no_fault iter (Data p) True es w = (fst c', Ok rs)"
    and c': "advances E (Data p) True name (w, cf, lcf, s) es rs c'"
    by (rule raft_apply_advances [OF assms(1-4)])
  obtain w' cf' lcf' s' where q: "c' = (w', cf', lcf', s')" by (metis prod.exhaust)
  have run: "run_log (spec_entry (digest E)) s es = (s', rs)"
    and obs: "w_observed w' = spec_observations (digest E) (Data p) True es rs"
    using c' assms(6) by (simp_all add: q advances_def)
  have "length es = length rs" using run by (metis length_run_log snd_conv)
  from once_history [OF history_run [OF assms(5) run] this, of p "Data p"]
  have "once (applied_of p (w_observed w'))" by (simp add: obs)
  then have "exactly_once as = Ok ()" if "mset as = mset (applied_of p (w_observed w'))" for as
    using once_permute [OF that] by (simp add: exactly_once_iff)
  with r show ?thesis by (auto simp: q)
qed

theorem applies_exactly_once_witness:
  "\<exists>w' rs. raft_apply True ref_apply_env no_fault rev (Data 3) True demo_log demo_world = (w', Ok rs)
     \<and> exactly_once (rev (applied_of 3 (w_observed w'))) = Ok ()"
  using applies_exactly_once [OF demo_config_ok ref_apply_env_ok demo_log_fits, of rev True]
  by (auto simp: no_clients_def demo_view_def demo_world_def)

lemma spec_sequences:
  assumes "no_clients (fst s)" "run_log (spec_entry dg) s es = (s', rs)"
  shows "map (\<lambda>d. unat (dr_sequence (fst d))) (decided_of c (zip es rs)) = [1..<Suc (length (decided_of c (zip es rs)))]
    \<and> (\<forall>j < length es. \<forall>req res. en_payload (es ! j) = Normal req \<longrightarrow> rs ! j = Replayed res \<longrightarrow>
         (\<exists>i < j. \<exists>req'. en_payload (es ! i) = Normal req' \<and> rs ! i = Decided res
            \<and> dr_client_id req' = dr_client_id req \<and> dr_sequence req' = dr_sequence req
            \<and> dg (dr_op req') = dg (dr_op req)))"
proof (intro conjI allI impI)
  show "map (\<lambda>d. unat (dr_sequence (fst d))) (decided_of c (zip es rs)) = [1..<Suc (length (decided_of c (zip es rs)))]"
    using history_run [OF assms] by (simp add: history_inv_def)
  fix j req res assume j: "j < length es" "en_payload (es ! j) = Normal req" "rs ! j = Replayed res"
  have len: "length es = length rs" using assms(2) by (metis length_run_log snd_conv)
  obtain s1 where run1: "run_log (spec_entry dg) s (take (Suc j) es) = (s1, take (Suc j) rs)"
    using run_log_append [of "spec_entry dg" s "take (Suc j) es" "drop (Suc j) es"] assms(2) j(1)
    by (metis (no_types, lifting) append_eq_conv_conj append_take_drop_id length_run_log prod.collapse snd_conv
        length_take min.absorb2 Suc_leI)
  let ?h = "zip (take (Suc j) es) (take (Suc j) rs)"
  have "(es ! j, Replayed res) \<in> set ?h"
    using j len by (auto simp: set_zip intro!: exI [of _ j])
  then obtain req' where req': "(req', res) \<in> set (decided_of (dr_client_id req) ?h)"
    "dr_sequence req' = dr_sequence req" "dg (dr_op req') = dg (dr_op req)"
    using history_run [OF assms(1) run1] j(2) unfolding history_inv_def replays_decided_def by force
  then obtain e where e: "(e, Decided res) \<in> set ?h" "en_payload e = Normal req'" "dr_client_id req' = dr_client_id req"
    by (auto simp: decided_of_def split: payload.splits apply_result.splits if_splits)
  then obtain i where i: "i < Suc j" "e = es ! i" "rs ! i = Decided res" using j(1) len by (auto simp: set_zip)
  with j(3) have "i < j" by (metis apply_result.distinct(1) less_SucE)
  with i e req' show "\<exists>i < j. \<exists>req'. en_payload (es ! i) = Normal req' \<and> rs ! i = Decided res
     \<and> dr_client_id req' = dr_client_id req \<and> dr_sequence req' = dr_sequence req \<and> dg (dr_op req') = dg (dr_op req)"
    by blast
qed

lemma raft_apply_runs:
  assumes "config_ok E g name (w, cf, lcf, s)" "apply_codecs_ok E" "keys_fit es"
    and "\<And>p. mset (iter p) = mset p"
  obtains w' cf' lcf' s' rs where "raft_apply coalesce E no_fault iter g observer es w = (w', Ok rs)"
    and "run_log (spec_entry (digest E)) s es = (s', rs)" and "config_ok E g name (w', cf', lcf', s')"
    and "length rs = length es"
proof -
  obtain c' rs where r: "raft_apply coalesce E no_fault iter g observer es w = (fst c', Ok rs)"
    and c': "advances E g observer name (w, cf, lcf, s) es rs c'"
    by (rule raft_apply_advances [OF assms])
  obtain w' cf' lcf' s' where q: "c' = (w', cf', lcf', s')" by (metis prod.exhaust)
  have run: "run_log (spec_entry (digest E)) s es = (s', rs)" using c' by (simp add: q advances_def)
  then have "length rs = length es" by (metis length_run_log snd_conv)
  with r run advances_config [OF c'] show thesis using that by (simp add: q)
qed

text \<open>C3: Applying any log from a group's start, in either mode, decides each client's commands at
  the sequences 1, 2, 3 and so on, without a gap or repetition; and every replayed answer is the
  answer of an earlier decision in the log, of the same client at the same sequence with the same
  command digest.\<close>

theorem sequences_decided_in_order:
  assumes "config_ok E g name (w, cf, lcf, s)" "apply_codecs_ok E" "keys_fit es"
    and "\<And>p. mset (iter p) = mset p" "no_clients (fst s)"
  shows "\<exists>w' rs. raft_apply coalesce E no_fault iter g observer es w = (w', Ok rs)
    \<and> (\<forall>c. map (\<lambda>d. unat (dr_sequence (fst d))) (decided_of c (zip es rs)) = [1..<Suc (length (decided_of c (zip es rs)))])
    \<and> (\<forall>j < length es. \<forall>req res. en_payload (es ! j) = Normal req \<longrightarrow> rs ! j = Replayed res \<longrightarrow>
         (\<exists>i < j. \<exists>req'. en_payload (es ! i) = Normal req' \<and> rs ! i = Decided res
            \<and> dr_client_id req' = dr_client_id req \<and> dr_sequence req' = dr_sequence req
            \<and> digest E (dr_op req') = digest E (dr_op req)))"
proof -
  obtain w' cf' lcf' s' rs where r: "raft_apply coalesce E no_fault iter g observer es w = (w', Ok rs)"
    and run: "run_log (spec_entry (digest E)) s es = (s', rs)"
    by (rule raft_apply_runs [OF assms(1-4)])
  show ?thesis
    by (rule exI [of _ w'], rule exI [of _ rs]) (use r spec_sequences [OF assms(5) run] in blast)
qed

text \<open>The answers of the applier on the concrete log, from the specification it implements.\<close>

lemma demo_run: "snd (run_log (spec_entry dg) (demo_view, (None, [])) demo_log) =
    [Decided (Applied 5), Replayed (Applied 5), Decided (Applied 8)]"
  by (simp add: demo_log_def demo_entry_def demo_view_def spec_entry_def spec_step_def spec_gate_def
      spec_decide_def spec_condition_def spec_effect_def oversized_def absent_delete_def MAX_VALUE_BYTES_def)

lemma demo_apply:
  assumes "raft_apply coalesce ref_apply_env no_fault rev (Data 3) observer demo_log demo_world = (w', Ok rs)"
  shows "rs = [Decided (Applied 5), Replayed (Applied 5), Decided (Applied 8)]"
proof -
  obtain w'' cf' lcf' s' rs' where "raft_apply coalesce ref_apply_env no_fault rev (Data 3) observer demo_log demo_world = (w'', Ok rs')"
    "run_log (spec_entry (digest ref_apply_env)) (demo_view, (None, [])) demo_log = (s', rs')"
    by (rule raft_apply_runs [OF demo_config_ok ref_apply_env_ok demo_log_fits, of rev coalesce observer]) auto
  with assms demo_run [of "digest ref_apply_env"] show ?thesis by simp
qed

theorem sequences_decided_in_order_witness:
  "\<exists>w' rs. raft_apply True ref_apply_env no_fault rev (Data 3) True demo_log demo_world = (w', Ok rs)
     \<and> rs = [Decided (Applied 5), Replayed (Applied 5), Decided (Applied 8)]
     \<and> map (\<lambda>d. unat (dr_sequence (fst d))) (decided_of 9 (zip demo_log rs)) = [1..<Suc (length (decided_of 9 (zip demo_log rs)))]"
  using sequences_decided_in_order [OF demo_config_ok ref_apply_env_ok demo_log_fits, of rev True True] demo_apply [of True True]
  by (fastforce simp: no_clients_def demo_view_def)

subsection \<open>Versions and acknowledged writes\<close>

text \<open>Every stored version lies below the next log index.\<close>

definition versions_below :: "nat \<Rightarrow> data_view \<Rightarrow> bool" where
  "versions_below n v \<longleftrightarrow> (\<forall>k r. dv_keys v k = Some r \<longrightarrow> unat (kr_version r) < n)"

abbreviation entry_index :: "'m entry \<Rightarrow> nat" where
  "entry_index e \<equiv> unat (rl_index (en_log_id e))"

text \<open>The writes a log acknowledged afresh: key and version of every applied put.\<close>

definition acked_puts :: "('m entry \<times> apply_result) list \<Rightarrow> (bytes \<times> u64) list" where
  "acked_puts h = concat (map (\<lambda>(e, r). case en_payload e of
      Normal req \<Rightarrow> (case r of Decided (Applied v) \<Rightarrow> if is_OpPut (dr_op req) then [(op_key (dr_op req), v)] else [] | _ \<Rightarrow> [])
    | _ \<Rightarrow> []) h)"

definition no_deletes :: "'m entry list \<Rightarrow> bool" where
  "no_deletes es = list_all (\<lambda>e. case en_payload e of Normal req \<Rightarrow> is_OpPut (dr_op req) | _ \<Rightarrow> True) es"

definition writes_kept :: "nat \<Rightarrow> 'm spec_state \<times> ('m entry \<times> apply_result) list \<Rightarrow> bool" where
  "writes_kept n = (\<lambda>(s, h). versions_below n (fst s)
     \<and> (no_deletes (map fst h) \<longrightarrow>
        (\<forall>(k, v) \<in> set (acked_puts h). \<exists>r. dv_keys (fst s) k = Some r \<and> v \<le> kr_version r)))"

lemma spec_entry_keys:
  assumes "spec_entry dg s e = (s', r)"
  shows "(dv_keys (fst s') = dv_keys (fst s) \<and> (\<forall>v. r \<noteq> Decided (Applied v)))
    \<or> (\<exists>req. en_payload e = Normal req \<and> r = Decided (Applied (rl_index (en_log_id e)))
        \<and> dv_keys (fst s') = (dv_keys (fst s))(op_key (dr_op req) := spec_effect (dr_op req) (rl_index (en_log_id e))))"
proof (cases "en_payload e")
  case (Normal req)
  show ?thesis
  proof (cases "spec_gate dg (fst s) req")
    case (Answer a)
    moreover from this have "a \<noteq> Decided x" for x
      by (auto simp: spec_gate_def Let_def split: if_splits option.splits)
    ultimately show ?thesis using assms Normal by (auto simp: spec_entry_def spec_step_def)
  next
    case Fresh
    then show ?thesis
      using assms Normal
      by (cases "spec_condition (dv_keys (fst s) (op_key (dr_op req))) (dr_op req)")
        (auto simp: spec_entry_def spec_step_def spec_decide_def)
  qed
qed (use assms in \<open>auto simp: spec_entry_def\<close>)

lemma writes_kept_step:
  assumes "writes_kept n (s, h)" "n \<le> entry_index e" "spec_entry dg s e = (s', r)"
  shows "writes_kept (Suc (entry_index e)) (s', h @ [(e, r)])"
  using spec_entry_keys [OF assms(3)]
proof (elim disjE exE conjE)
  assume same: "dv_keys (fst s') = dv_keys (fst s)" "\<forall>v. r \<noteq> Decided (Applied v)"
  have "acked_puts (h @ [(e, r)]) = acked_puts h"
    using same(2) by (auto simp: acked_puts_def split: payload.split apply_result.split mutation_result.split)
  moreover have "versions_below (Suc (entry_index e)) (fst s')"
    using assms(1,2) by (fastforce simp: writes_kept_def versions_below_def same(1))
  ultimately show ?thesis using assms(1) by (simp add: writes_kept_def same(1) no_deletes_def)
next
  fix req assume new: "en_payload e = Normal req" "r = Decided (Applied (rl_index (en_log_id e)))"
    "dv_keys (fst s') = (dv_keys (fst s))(op_key (dr_op req) := spec_effect (dr_op req) (rl_index (en_log_id e)))"
  have below: "\<forall>k x. dv_keys (fst s) k = Some x \<longrightarrow> kr_version x < rl_index (en_log_id e)"
    using assms(1,2) by (fastforce simp: writes_kept_def versions_below_def word_less_nat_alt)
  then have "versions_below (Suc (entry_index e)) (fst s')"
    by (auto simp: versions_below_def new(3) spec_effect_def word_less_nat_alt less_Suc_eq split: data_op.splits)
  moreover have "\<exists>x. dv_keys (fst s') k = Some x \<and> v \<le> kr_version x"
    if "no_deletes (map fst (h @ [(e, r)]))" "(k, v) \<in> set (acked_puts (h @ [(e, r)]))" for k v
  proof -
    have put: "is_OpPut (dr_op req)" and old: "no_deletes (map fst h)"
      using that(1) new(1) by (simp_all add: no_deletes_def)
    have eff: "spec_effect (dr_op req) i = Some \<lparr>kr_version = i, kr_value = op_value (dr_op req)\<rparr>" for i
      using put by (cases "dr_op req") (simp_all add: spec_effect_def)
    have "(k, v) \<in> set (acked_puts h) \<or> k = op_key (dr_op req) \<and> v = rl_index (en_log_id e)"
      using that(2) new(1,2) put by (auto simp: acked_puts_def)
    then show ?thesis
    proof
      assume "(k, v) \<in> set (acked_puts h)"
      then obtain x where "dv_keys (fst s) k = Some x" "v \<le> kr_version x"
        using assms(1) old by (auto simp: writes_kept_def)
      moreover from this below have "kr_version x < rl_index (en_log_id e)" by blast
      ultimately show ?thesis by (auto simp: new(3) eff)
    qed (simp add: new(3) eff)
  qed
  ultimately show ?thesis by (auto simp: writes_kept_def)
qed

interpretation writes: indexed_log "recorded (spec_entry dg)" entry_index writes_kept
  by unfold_locales (auto simp: recorded_def split_beta Let_def intro!: writes_kept_step)

lemma spec_writes_survive:
  assumes "sorted_wrt (\<lambda>e f. entry_index e < entry_index f) es" "\<forall>e \<in> set es. n \<le> entry_index e"
    and "versions_below n (fst s)" "run_log (spec_entry dg) s es = (s', rs)"
  shows "versions_below (if es = [] then n else Suc (entry_index (last es))) (fst s')
    \<and> (\<forall>j < length es. \<forall>v. rs ! j = Decided (Applied v) \<longrightarrow> v = rl_index (en_log_id (es ! j)))
    \<and> (no_deletes es \<longrightarrow>
        no_lost_write (acked_puts (zip es rs)) (\<lambda>k. map_option kr_version (dv_keys (fst s') k)) = Ok ())"
proof -
  have len: "length es = length rs" using assms(4) by (metis length_run_log snd_conv)
  have "writes_kept n (s, [])" using assms(3) by (simp add: writes_kept_def acked_puts_def)
  from writes.inv_run [OF this assms(1,2), of dg]
  have kept: "writes_kept (if es = [] then n else Suc (entry_index (last es))) (s', zip es rs)"
    by (simp add: run_recorded assms(4))
  have "v = rl_index (en_log_id (es ! j))" if "j < length es" "rs ! j = Decided (Applied v)" for j v
  proof -
    let ?s = "fst (run_log (spec_entry dg) s (take j es))"
    have "rs ! j = snd (spec_entry dg ?s (es ! j))"
      using run_log_nth [OF that(1), of "spec_entry dg" s] assms(4) by simp
    with spec_entry_keys [OF prod.collapse [symmetric], of dg ?s "es ! j"] that(2) show ?thesis by auto
  qed
  moreover have "no_lost_write (acked_puts (zip es rs)) (\<lambda>k. map_option kr_version (dv_keys (fst s') k)) = Ok ()"
    if "no_deletes es"
    using kept that len by (fastforce simp: writes_kept_def no_lost_write_def)
  ultimately show ?thesis using kept by (simp add: writes_kept_def)
qed

text \<open>What a read of the group's store returns, and the version it carries.\<close>

definition stored_version :: "('m, 'a) apply_env_scheme \<Rightarrow> group_id \<Rightarrow> storage \<Rightarrow> bytes \<Rightarrow> u64 option" where
  "stored_version E g st k = (case data_get E g (OnStorage st) k of Inr (Some (v, _)) \<Rightarrow> Some v | _ \<Rightarrow> None)"

lemma config_reads:
  assumes "config_ok E g name (w, cf, lcf, s)" "apply_codecs_ok E"
  shows "data_get E g (OnStorage (w_storage w)) k = Ok (map_option (\<lambda>r. (kr_version r, kr_value r)) (dv_keys (fst s) k))"
proof -
  have "data_rep E (cf_get cf) (fst s)" using assms(1) by (cases s) (simp add: config_ok_def)
  then show ?thesis
    using data_reads(1) [OF config_sees [OF assms(1)], of "fst s" k] assms(2) by (simp add: data_get_def apply_codecs_ok_def)
qed

lemma config_versions:
  "config_ok E g name (w, cf, lcf, s) \<Longrightarrow> apply_codecs_ok E \<Longrightarrow>
   stored_version E g (w_storage w) = (\<lambda>k. map_option kr_version (dv_keys (fst s) k))"
  by (rule ext) (simp add: stored_version_def config_reads option.case_eq_if map_option_case)

text \<open>C4: Applying, in either mode, a log whose indices increase and lie above every version stored
  in the group: each applied mutation answers its own log index as version; the versions read back
  from the store stay below the log's end; and when the log has no deletes, the no-lost-write oracle
  accepts its acknowledged puts against the versions read back from the store.\<close>

theorem acknowledged_writes_survive:
  assumes "config_ok E g name (w, cf, lcf, s)" "apply_codecs_ok E" "keys_fit es"
    and "\<And>p. mset (iter p) = mset p"
    and "sorted_wrt (\<lambda>e f. entry_index e < entry_index f) es" "\<forall>e \<in> set es. n \<le> entry_index e"
    and "\<forall>k v. stored_version E g (w_storage w) k = Some v \<longrightarrow> unat v < n"
  shows "\<exists>w' rs. raft_apply coalesce E no_fault iter g observer es w = (w', Ok rs)
    \<and> (\<forall>k v. stored_version E g (w_storage w') k = Some v \<longrightarrow> unat v < (if es = [] then n else Suc (entry_index (last es))))
    \<and> (\<forall>j < length es. \<forall>v. rs ! j = Decided (Applied v) \<longrightarrow> v = rl_index (en_log_id (es ! j)))
    \<and> (no_deletes es \<longrightarrow> no_lost_write (acked_puts (zip es rs)) (stored_version E g (w_storage w')) = Ok ())"
proof -
  obtain w' cf' lcf' s' rs where r: "raft_apply coalesce E no_fault iter g observer es w = (w', Ok rs)"
    and run: "run_log (spec_entry (digest E)) s es = (s', rs)" and c': "config_ok E g name (w', cf', lcf', s')"
    by (rule raft_apply_runs [OF assms(1-4)])
  have "versions_below n (fst s)"
    using assms(7) by (auto simp: versions_below_def config_versions [OF assms(1,2)])
  note survive = spec_writes_survive [OF assms(5,6) this run]
  show ?thesis
    by (rule exI [of _ w'], rule exI [of _ rs])
      (use r survive in \<open>auto simp: config_versions [OF c' assms(2)] versions_below_def\<close>)
qed

theorem acknowledged_writes_survive_witness:
  "\<exists>w' rs. raft_apply False ref_apply_env no_fault rev (Data 3) True demo_log demo_world = (w', Ok rs)
     \<and> acked_puts (zip demo_log rs) = [([7], 5), ([7], 8)]
     \<and> no_lost_write (acked_puts (zip demo_log rs)) (stored_version ref_apply_env (Data 3) (w_storage w')) = Ok ()"
proof -
  have log: "no_deletes demo_log" "sorted_wrt (\<lambda>e f. entry_index e < entry_index f) demo_log" "\<forall>e \<in> set demo_log. 1 \<le> entry_index e"
    by (simp_all add: demo_log_def demo_entry_def no_deletes_def)
  have "\<forall>k v. stored_version ref_apply_env (Data 3) (w_storage demo_world) k = Some v \<longrightarrow> unat v < 1"
    by (simp add: config_versions [OF demo_config_ok ref_apply_env_ok] demo_view_def)
  from acknowledged_writes_survive [OF demo_config_ok ref_apply_env_ok demo_log_fits _ log(2,3) this, of rev False True] log(1)
  obtain w' rs where "raft_apply False ref_apply_env no_fault rev (Data 3) True demo_log demo_world = (w', Ok rs)"
    "no_lost_write (acked_puts (zip demo_log rs)) (stored_version ref_apply_env (Data 3) (w_storage w')) = Ok ()" by auto
  moreover from demo_apply [OF this(1)] have "acked_puts (zip demo_log rs) = [([7], 5), ([7], 8)]"
    by (simp add: acked_puts_def demo_log_def demo_entry_def)
  ultimately show ?thesis by blast
qed

subsection \<open>Reads return the last decided write\<close>

text \<open>What a log and its answers leave at a key, from what was there before.\<close>

fun last_write :: "(version \<times> bytes) option \<Rightarrow> bytes \<Rightarrow> ('m entry \<times> apply_result) list \<Rightarrow> (version \<times> bytes) option" where
  "last_write x k [] = x"
| "last_write x k ((e, r) # h) =
     last_write (case (en_payload e, r) of
        (Normal req, Decided (Applied v)) \<Rightarrow>
          if op_key (dr_op req) = k then (case dr_op req of OpPut _ b _ \<Rightarrow> Some (v, b) | OpDelete _ _ \<Rightarrow> None) else x
      | _ \<Rightarrow> x) k h"

lemma spec_last_write:
  "run_log (spec_entry dg) s es = (s', rs) \<Longrightarrow>
   map_option (\<lambda>r. (kr_version r, kr_value r)) (dv_keys (fst s') k)
     = last_write (map_option (\<lambda>r. (kr_version r, kr_value r)) (dv_keys (fst s) k)) k (zip es rs)"
proof (induction es arbitrary: s rs)
  case (Cons e es)
  obtain s1 r where st: "spec_entry dg s e = (s1, r)" by (rule prod.exhaust)
  obtain rs1 where rs: "run_log (spec_entry dg) s1 es = (s', rs1)" "rs = r # rs1"
    using Cons.prems st by (auto split: prod.splits)
  have "map_option (\<lambda>r. (kr_version r, kr_value r)) (dv_keys (fst s1) k) =
      (case (en_payload e, r) of
        (Normal req, Decided (Applied v)) \<Rightarrow>
          if op_key (dr_op req) = k then (case dr_op req of OpPut _ b _ \<Rightarrow> Some (v, b) | OpDelete _ _ \<Rightarrow> None)
          else map_option (\<lambda>r. (kr_version r, kr_value r)) (dv_keys (fst s) k)
      | _ \<Rightarrow> map_option (\<lambda>r. (kr_version r, kr_value r)) (dv_keys (fst s) k))"
    using spec_entry_keys [OF st]
    by (auto simp: spec_effect_def split: payload.split apply_result.split mutation_result.split data_op.split)
  then show ?case using Cons.IH [OF rs(1)] by (simp add: rs(2))
qed simp

text \<open>C5: Reads see exactly the decided writes.  After applying any log, in either mode, reading a key
  from the group's store returns the version and value of the last put on that key that the log
  freshly decided and applied, nothing when that was a delete, and what was stored before when there
  was none: replays, rejections, failed conditions and other keys' commands leave no trace.\<close>

theorem reads_return_last_write:
  assumes "config_ok E g name (w, cf, lcf, s)" "apply_codecs_ok E" "keys_fit es"
    and "\<And>p. mset (iter p) = mset p"
  shows "\<exists>w' rs. raft_apply coalesce E no_fault iter g observer es w = (w', Ok rs)
    \<and> (\<forall>k. \<exists>x. data_get E g (OnStorage (w_storage w)) k = Ok x
         \<and> data_get E g (OnStorage (w_storage w')) k = Ok (last_write x k (zip es rs)))"
proof -
  obtain w' cf' lcf' s' rs where r: "raft_apply coalesce E no_fault iter g observer es w = (w', Ok rs)"
    and run: "run_log (spec_entry (digest E)) s es = (s', rs)" and c': "config_ok E g name (w', cf', lcf', s')"
    by (rule raft_apply_runs [OF assms])
  show ?thesis
    by (rule exI [of _ w'], rule exI [of _ rs])
      (use r in \<open>simp add: config_reads [OF assms(1,2)] config_reads [OF c' assms(2)] spec_last_write [OF run]\<close>)
qed

theorem reads_return_last_write_witness:
  "\<exists>w'. raft_apply True ref_apply_env no_fault rev (Data 3) True demo_log demo_world
       = (w', Ok [Decided (Applied 5), Replayed (Applied 5), Decided (Applied 8)])
     \<and> data_get ref_apply_env (Data 3) (OnStorage (w_storage w')) [7] = Ok (Some (8, [2, 2]))"
proof -
  obtain w' rs where r: "raft_apply True ref_apply_env no_fault rev (Data 3) True demo_log demo_world = (w', Ok rs)"
    and g: "\<exists>x. data_get ref_apply_env (Data 3) (OnStorage (w_storage demo_world)) [7] = Ok x
      \<and> data_get ref_apply_env (Data 3) (OnStorage (w_storage w')) [7] = Ok (last_write x [7] (zip demo_log rs))"
    using reads_return_last_write [OF demo_config_ok ref_apply_env_ok demo_log_fits, of rev True True] by auto
  have "rs = [Decided (Applied 5), Replayed (Applied 5), Decided (Applied 8)]" by (rule demo_apply [OF r])
  with r g show ?thesis by (auto simp: demo_log_def demo_entry_def)
qed

subsection \<open>Failures\<close>

text \<open>C31: An apply that answers an error, at whatever boundary and in either mode, has set the database's
  fail-stop latch.\<close>

theorem failed_apply_latches:
  assumes "raft_apply coalesce E fault iter g observer es w = (w', Err e)"
  shows "db_failed (w_storage w') \<noteq> None"
  using assms by (rule raft_apply_Err)

theorem failed_apply_latches_witness:
  "\<exists>w' e. raft_apply False ref_apply_env no_fault rev (Data 4) True demo_log demo_world = (w', Err e)
     \<and> db_failed (w_storage w') \<noteq> None"
proof -
  obtain w' e where "raft_apply False ref_apply_env no_fault rev (Data 4) True demo_log demo_world = (w', Err e)"
    by (simp add: raft_apply_def apply_per_entry_def read_applied_def fail_stop_def require_healthy_def raft_applied_def
        get_state_def state_cf_def active_state_cf_name_def get_local_def demo_world_def cf_state_def cf_log_def)
  with failed_apply_latches [OF this] show ?thesis by blast
qed

text \<open>C32: Once the database's fail-stop latch is set, by whatever failure, an apply of any group in
  either mode changes no record and tells no observer anything, and it answers an error; only an
  empty coalesced batch, which has nothing to apply, still answers with no results.\<close>

theorem latched_apply_fences:
  assumes "db_failed (w_storage w) \<noteq> None"
  shows "fst (raft_apply coalesce E fault iter g observer es w) = w
    \<and> (if coalesce \<and> es = [] then snd (raft_apply coalesce E fault iter g observer es w) = Ok []
       else \<exists>e. snd (raft_apply coalesce E fault iter g observer es w) = Err e)"
proof (cases "es = []")
  case True
  then show ?thesis
    using read_applied_failed [OF assms, of E g] by (auto simp: raft_apply_def apply_coalesced_def apply_per_entry_def)
next
  case False
  then show ?thesis using raft_apply_failed [OF assms False, of coalesce E fault iter g observer] by auto
qed

theorem latched_apply_fences_witness:
  "\<exists>e. raft_apply True ref_apply_env no_fault rev (Data 3) True demo_log
      (demo_world\<lparr>w_storage := (w_storage demo_world)\<lparr>db_failed := Some ''search outbox prune failed''\<rparr>\<rparr>)
    = (demo_world\<lparr>w_storage := (w_storage demo_world)\<lparr>db_failed := Some ''search outbox prune failed''\<rparr>\<rparr>, Err e)"
proof -
  let ?w = "demo_world\<lparr>w_storage := (w_storage demo_world)\<lparr>db_failed := Some ''search outbox prune failed''\<rparr>\<rparr>"
  have "db_failed (w_storage ?w) \<noteq> None" by simp
  from latched_apply_fences [OF this, of True ref_apply_env no_fault rev "Data 3" True demo_log]
  show ?thesis by (auto simp: demo_log_def prod_eq_iff)
qed

end
