(* ===== verification/Config.thy ===== *)
theory Config
  imports Types
begin

section \<open>Validated configuration (config.rs)\<close>

text \<open>
  Timeouts, the per-node configuration, the cluster-creation input and the bound on the routing
  snapshot of a cluster shape, from \<open>src/src/config.rs\<close>.  Durations are natural numbers of
  nanoseconds.  Parsing a socket address is left to a parameter that answers the
  parser's error text, or whether the parsed address is a loopback address.
\<close>

record timeouts =
  tm_suspect :: nat
  tm_down :: nat
  tm_request :: nat
  tm_shutdown :: nat

definition from_secs :: "nat \<Rightarrow> nat" where "from_secs s = s * 1000000000"

definition timeouts_default :: timeouts where
  "timeouts_default = \<lparr>tm_suspect = from_secs 3, tm_down = from_secs 15, tm_request = from_secs 5,
     tm_shutdown = from_secs 60\<rparr>"

definition timeouts_validate :: "timeouts \<Rightarrow> unit result" where
  "timeouts_validate t =
     (if tm_suspect t = 0 then Err (error.Config ''suspect_timeout must be > 0'')
      else if tm_down t < tm_suspect t then Err (error.Config ''down_timeout must be >= suspect_timeout'')
      else if tm_request t = 0 then Err (error.Config ''request_timeout must be > 0'')
      else if tm_shutdown t = 0 then Err (error.Config ''shutdown_timeout must be > 0'')
      else Ok ())"

record raft_tuning =
  rt_election_timeout_min :: u64
  rt_election_timeout_max :: u64
  rt_heartbeat_interval :: u64

definition RAFT_MAX_PAYLOAD_ENTRIES :: u64 where "RAFT_MAX_PAYLOAD_ENTRIES = 1"

definition raft_tuning_default :: raft_tuning where
  "raft_tuning_default = \<lparr>rt_election_timeout_min = 750, rt_election_timeout_max = 1500, rt_heartbeat_interval = 250\<rparr>"

definition durable_tcp :: raft_tuning where
  "durable_tcp = \<lparr>rt_election_timeout_min = 3000, rt_election_timeout_max = 6000, rt_heartbeat_interval = 1000\<rparr>"

record node_config =
  nc_cluster_id :: cluster_id
  nc_node_id :: node_id
  nc_control_addr :: string
  nc_bulk_addr :: string
  nc_http_addr :: "string option"
  nc_seeds :: "string list"
  nc_data_dir :: string
  nc_timeouts :: timeouts

definition validate_http_addr :: "(string \<Rightarrow> string + bool) \<Rightarrow> node_config \<Rightarrow> unit result" where
  "validate_http_addr loopback c =
     (case nc_http_addr c of
        None \<Rightarrow> Ok ()
      | Some http \<Rightarrow>
          if http = [] then Err (error.Config ''http_addr, if set, must be non-empty'')
          else if http = nc_control_addr c \<or> http = nc_bulk_addr c
          then Err (error.Config ''http_addr must differ from control_addr and bulk_addr'')
          else case loopback http of
            Inl e \<Rightarrow> Err (error.Config (''http_addr must be a numeric socket address: '' @ e))
          | Inr local \<Rightarrow>
              if \<not> local
              then Err (error.Config
                ''http_addr must bind to loopback; expose remote diagnostics through an authenticated TLS proxy'')
              else Ok ())"

definition node_config_validate :: "(string \<Rightarrow> string + bool) \<Rightarrow> node_config \<Rightarrow> unit result" where
  "node_config_validate loopback c =
     (if nc_node_id c = 0 then Err (error.Config ''node_id must be non-zero'')
      else if nc_control_addr c = [] then Err (error.Config ''control_addr must be set'')
      else if length (nc_control_addr c) > MAX_ENDPOINT_BYTES
      then Err (error.Config ''control_addr must be <= 256 bytes'')
      else if nc_bulk_addr c = [] then Err (error.Config ''bulk_addr must be set'')
      else if length (nc_bulk_addr c) > MAX_ENDPOINT_BYTES
      then Err (error.Config ''bulk_addr must be <= 256 bytes'')
      else if nc_control_addr c = nc_bulk_addr c
      then Err (error.Config (''control_addr and bulk_addr must differ (separate lanes, DESIGN ''
              @ [CHR 0xC2, CHR 0xA7] @ ''10.1)''))
      else rbind (validate_http_addr loopback c) (\<lambda>_.
      if nc_data_dir c = [] then Err (error.Config ''data_dir must be set'')
      else timeouts_validate (nc_timeouts c)))"

definition MIN_REPLICATION :: u8 where "MIN_REPLICATION = 3"
definition MIN_META_VOTERS :: nat where "MIN_META_VOTERS = 3"

record init_config =
  ic_p :: u16
  ic_r :: u8
  ic_bootstrap_nodes :: "node_id list"
  ic_meta_voters :: "node_id list"
  ic_hash_spec :: hash_spec

definition parse_partition_count :: "u64 \<Rightarrow> u16 result" where
  "parse_partition_count n =
     (if n = 0 then Err (error.Config ''P must be > 0'')
      else if unat n > 65535 then Err (error.Config ''P must be <= 65535 (u16 bound)'')
      else Ok (ucast n))"

text \<open>Checked arithmetic on a 64-bit \<open>usize\<close>.\<close>

definition usize_checked :: "nat \<Rightarrow> nat option" where
  "usize_checked n = (if n < 2 ^ 64 then Some n else None)"

definition ROUTING_FIXED_HEADROOM :: nat where "ROUTING_FIXED_HEADROOM = 64 * 1024"
definition DIRECTORY_ENTRY_BUDGET :: nat where "DIRECTORY_ENTRY_BUDGET = 64 + 2 * MAX_ENDPOINT_BYTES"
definition PLACEMENT_FIXED_BUDGET :: nat where "PLACEMENT_FIXED_BUDGET = 64"

definition validate_routing_shape :: "u16 \<Rightarrow> u8 \<Rightarrow> unit result" where
  "validate_routing_shape p r =
     (if unat r > MAX_CLUSTER_NODES then Err (error.Config ''R must be <= 8'')
      else
      rbind (ok_or (usize_checked (MAX_CLUSTER_NODES * DIRECTORY_ENTRY_BUDGET))
               (error.Config ''routing directory size overflow'')) (\<lambda>directory.
      rbind (ok_or (usize_checked (unat p * (PLACEMENT_FIXED_BUDGET + 2 * unat r * 8)))
               (error.Config ''routing placement size overflow'')) (\<lambda>placement.
      rbind (ok_or (Option.bind (usize_checked (ROUTING_FIXED_HEADROOM + directory))
                     (\<lambda>bytes. usize_checked (bytes + placement)))
               (error.Config ''routing snapshot size overflow'')) (\<lambda>estimate.
      if estimate > MAX_ROUTING_PAYLOAD_BYTES
      then Err (error.Config (''P='' @ decimal (unat p) @ '' and R='' @ decimal (unat r)
              @ '' can produce a routing snapshot larger than 4194304 bytes''))
      else Ok ()))))"

definition init_config_validate :: "init_config \<Rightarrow> unit result" where
  "init_config_validate c =
     (if ic_p c = 0 then Err (error.Config ''P must be > 0'')
      else if ic_r c < MIN_REPLICATION then Err (error.Config ''R must be >= 3'')
      else rbind (validate_routing_shape (ic_p c) (ic_r c)) (\<lambda>_.
      let bootstrap = set (ic_bootstrap_nodes c); meta = set (ic_meta_voters c) in
      if card bootstrap \<noteq> length (ic_bootstrap_nodes c)
      then Err (error.Config ''bootstrap_nodes must be distinct'')
      else if card bootstrap > MAX_CLUSTER_NODES
      then Err (error.Config ''bootstrap node count must be <= 8'')
      else if 0 \<in> bootstrap then Err (error.Config ''node ids must be non-zero'')
      else if card bootstrap < unat (ic_r c)
      then Err (error.Config (''need at least R='' @ decimal (unat (ic_r c)) @ '' distinct bootstrap nodes, got ''
              @ decimal (card bootstrap)))
      else if card meta \<noteq> length (ic_meta_voters c)
      then Err (error.Config ''meta_voters must be distinct'')
      else if card meta < MIN_META_VOTERS
      then Err (error.Config ''meta voter set must have >= 3 distinct nodes'')
      else if card meta mod 2 = 0 then Err (error.Config ''meta voter set must be odd'')
      else if \<not> meta \<subseteq> bootstrap
      then Err (error.Config ''every meta voter must be a bootstrap node'')
      else Ok ()))"

subsection \<open>What validation guarantees\<close>

lemma unat_u8_less: "unat (r :: u8) < 256"
  using unsigned_less [of r, where ?'a = nat] by simp

text \<open>The checked arithmetic of the routing bound never overflows: only the size matters.\<close>

lemma validate_routing_shape_eq:
  "validate_routing_shape p r =
     (if unat r > 8 then Err (error.Config ''R must be <= 8'')
      else if 65536 + 8 * 576 + unat p * (64 + 16 * unat r) > 4194304
      then Err (error.Config (''P='' @ decimal (unat p) @ '' and R='' @ decimal (unat r)
              @ '' can produce a routing snapshot larger than 4194304 bytes''))
      else Ok ())"
proof (cases "unat r \<le> 8")
  case True
  obtain n where n: "n = unat p * (64 + 16 * unat r)" by simp
  have "n \<le> 65535 * (64 + 16 * 8)"
    unfolding n using True unat_u16_less [of p] by (intro mult_le_mono) auto
  then have small: "n < 16777216" by simp
  have "unat p * (64 + 2 * unat r * 8) = n" by (simp add: n)
  with True small show ?thesis
    unfolding n [symmetric]
    by (simp add: validate_routing_shape_def usize_checked_def ok_or_def MAX_CLUSTER_NODES_def DIRECTORY_ENTRY_BUDGET_def
        MAX_ENDPOINT_BYTES_def PLACEMENT_FIXED_BUDGET_def ROUTING_FIXED_HEADROOM_def MAX_ROUTING_PAYLOAD_BYTES_def)
qed (simp add: validate_routing_shape_def MAX_CLUSTER_NODES_def)

lemma card_set_length: "card (set xs) = length xs \<longleftrightarrow> distinct xs"
  by (metis card_distinct distinct_card)

text \<open>The cluster shapes that validation admits.\<close>

definition init_config_ok :: "init_config \<Rightarrow> bool" where
  "init_config_ok c \<longleftrightarrow>
     ic_p c \<noteq> 0 \<and> 3 \<le> unat (ic_r c) \<and> validate_routing_shape (ic_p c) (ic_r c) = Ok ()
     \<and> distinct (ic_bootstrap_nodes c) \<and> 0 \<notin> set (ic_bootstrap_nodes c)
     \<and> unat (ic_r c) \<le> length (ic_bootstrap_nodes c) \<and> length (ic_bootstrap_nodes c) \<le> 8
     \<and> distinct (ic_meta_voters c) \<and> 3 \<le> length (ic_meta_voters c) \<and> odd (length (ic_meta_voters c))
     \<and> set (ic_meta_voters c) \<subseteq> set (ic_bootstrap_nodes c)"

lemma init_config_validate_iff: "init_config_validate c = Ok () \<longleftrightarrow> init_config_ok c"
proof -
  have r: "ic_r c < MIN_REPLICATION \<longleftrightarrow> \<not> 3 \<le> unat (ic_r c)"
    by (simp add: MIN_REPLICATION_def word_less_nat_alt not_le)
  show ?thesis
    by (auto simp: init_config_validate_def init_config_ok_def Let_def r card_set_length MAX_CLUSTER_NODES_def
        MIN_META_VOTERS_def distinct_card)
qed

end
