(* ===== verification/Meta_SM.thy ===== *)
theory Meta_SM
  imports Config Batch
begin

section \<open>The meta state machine (meta/state_machine.rs)\<close>

text \<open>
  Cluster identity, the node directory, placements and move plans, cluster-wide maintenance and
  the search catalog, as \<open>src/src/meta/state_machine.rs\<close> decides them.  The typed reads a
  handler may perform are gathered in \<open>meta_reads\<close>; \<open>storage_reads\<close> is what the code reads
  (point reads and scans of the meta group's state column family, the node's identity).  A
  handler answers and lists its writes; \<open>mutation_of\<close> encodes a write.
\<close>

subsection \<open>Commands and answers\<close>

datatype meta_command =
    ClusterInit cluster_config "node_id list"
  | RegisterNode node_id string string
  | SeedPlacement group_id "node_id list"
  | SetNodeState node_id node_state u64
  | CreatePlan group_id u64 "node_id list"
  | MarkAborting group_id u64
  | FinalizePlan group_id u64 data_config_observation
  | AbortReport group_id u64 data_config_observation
  | CreateSearchIndex string search_index_definition
  | CreateSearchIndexGeneration string search_index_definition
  | ReportSearchIndexReady string search_index_ready
  | ActivateSearchIndexGeneration string u64
  | DropSearchIndex string
  | FinalizeSearchIndexDrop string u64
  | CreateSearchIndexWithRevision string search_index_definition u32
  | CreateSearchIndexGenerationWithRevision string search_index_definition u32
  | BeginMaintenance u128 u64 "node_id list"
  | ReleaseMaintenance u128 u64 "(node_id \<times> u64) list" "(node_id \<times> u64) list" digest32
  | AcknowledgeMaintenance u128 u64 node_id u64
  | QuiesceMaintenance u128 u64
  | EnterMaintenanceVerification u128 u64
  | AcknowledgeMaintenanceRecovery u128 u64 node_id u64 u64 digest32 digest32 u128
  | RetireNode node_id u64

datatype meta_reject =
    ClusterNotInitialized | ClusterConflict | InvalidConfig string | NoPlacement | PlacementConflict
  | PlanExists | NoPlan | PlanIdMismatch | IllegalVoterChange string | IneligibleTarget
  | ObservationMismatch | PlanAborting | NotAborting | UnknownNode | StaleIncarnation
  | SeedMetaForbidden | SearchIndexExists | SearchIndexNotFound | SearchGenerationExists
  | SearchGenerationMismatch | SearchGenerationNotReady | MaintenanceActive | MaintenanceBusy
  | MaintenanceMismatch | MaintenanceTopologyMismatch | MaintenancePolicyMismatch
  | MaintenanceLivenessMismatch | StaleMaintenanceProcess

datatype meta_apply_result = MApplied | MNoOp | MRejected meta_reject

definition LEGACY_SEARCH_ENGINE_REVISION :: u32 where "LEGACY_SEARCH_ENGINE_REVISION = 1"

record identity =
  id_cluster_id :: cluster_id
  id_node_id :: node_id

record meta_env = search_codecs +
  c_cluster :: "cluster_config codec"
  c_node :: "node_directory_entry codec"
  c_placement :: "placement codec"
  c_maintenance :: "maintenance_record codec"
  c_index :: "search_index_record codec"
  c_ready :: "search_index_ready codec"
  c_identity :: "identity codec"
  sha256 :: "bytes \<Rightarrow> digest32"

datatype meta_write =
    PutCluster cluster_config
  | PutMaintenance maintenance_record
  | PutNode node_id node_directory_entry
  | DeleteNode node_id
  | PutRetired node_id u64
  | PutPlacement group_id placement
  | PutIndex string search_index_record
  | DeleteIndex string
  | PutReady bytes search_index_ready
  | DeleteReady bytes

fun mutation_of :: "('a meta_env_scheme) \<Rightarrow> meta_write \<Rightarrow> state_mutation" where
  "mutation_of E (PutCluster c) = MutPut meta_cluster_key (enc (c_cluster E) c)"
| "mutation_of E (PutMaintenance r) = MutPut meta_maintenance_key (enc (c_maintenance E) r)"
| "mutation_of E (PutNode n e) = MutPut (meta_node_key n) (enc (c_node E) e)"
| "mutation_of E (DeleteNode n) = MutDelete (meta_node_key n)"
| "mutation_of E (PutRetired n i) = MutPut (meta_retired_node_key n) (enc (c_u64 E) i)"
| "mutation_of E (PutPlacement g p) = MutPut (meta_placement_key g) (enc (c_placement E) p)"
| "mutation_of E (PutIndex n r) = MutPut (meta_search_index_key n) (enc (c_index E) r)"
| "mutation_of E (DeleteIndex n) = MutDelete (meta_search_index_key n)"
| "mutation_of E (PutReady k r) = MutPut k (enc (c_ready E) r)"
| "mutation_of E (DeleteReady k) = MutDelete k"

type_synonym meta_outcome = "(meta_apply_result \<times> meta_write list) result"

abbreviation reject :: "meta_reject \<Rightarrow> meta_outcome" where "reject r \<equiv> Ok (MRejected r, [])"
abbreviation invalid :: "string \<Rightarrow> meta_outcome" where "invalid msg \<equiv> reject (InvalidConfig msg)"
abbreviation illegal :: "string \<Rightarrow> meta_outcome" where "illegal msg \<equiv> reject (IllegalVoterChange msg)"
abbreviation no_op :: meta_outcome where "no_op \<equiv> Ok (MNoOp, [])"
abbreviation applied :: "meta_write list \<Rightarrow> meta_outcome" where "applied ws \<equiv> Ok (MApplied, ws)"

subsection \<open>Typed reads\<close>

record meta_reads =
  rd_cluster :: "cluster_config option result"
  rd_node :: "node_id \<Rightarrow> node_directory_entry option result"
  rd_maintenance :: "maintenance_record option result"
  rd_placement :: "group_id \<Rightarrow> placement option result"
  rd_retired :: "node_id \<Rightarrow> u64 option result"
  rd_directory :: "node_directory_entry list result"
  rd_epoch :: "u128 result"
  rd_identity :: "identity option result"
  rd_index :: "string \<Rightarrow> search_index_record option result"
  rd_index_busy :: "bool result"
  rd_index_count :: "nat result"
  rd_ready :: "string \<Rightarrow> u64 \<Rightarrow> group_id \<Rightarrow> node_id \<Rightarrow> search_index_ready option result"
  rd_readiness :: "string \<Rightarrow> u64 \<Rightarrow> (bytes \<times> search_index_ready) list result"
  rd_ready_keys :: "string \<Rightarrow> u64 \<Rightarrow> bytes list result"

definition scan_prefix :: "('a store_codecs_scheme) \<Rightarrow> storage \<Rightarrow> bytes \<Rightarrow> cf result" where
  "scan_prefix C st prefix =
     rbind (scan_state C st Meta) (\<lambda>kvs. Ok (filter (\<lambda>kv. starts_with (fst kv) prefix) kvs))"

definition decode_all :: "'v codec \<Rightarrow> cf \<Rightarrow> (bytes \<times> 'v) list result" where
  "decode_all c kvs = rmapM (\<lambda>(k, v). rbind (dec c v) (\<lambda>x. Ok (k, x))) kvs"

text \<open>The catalog scan of a maintenance request stops at the first record with work in progress.\<close>

fun index_busy :: "search_index_record codec \<Rightarrow> cf \<Rightarrow> bool result" where
  "index_busy c [] = Ok False"
| "index_busy c ((k, v) # kvs) =
     rbind (dec c v) (\<lambda>r.
       if sr_building r \<noteq> None \<or> sr_retiring r \<noteq> [] then Ok True else index_busy c kvs)"

definition storage_reads :: "('a meta_env_scheme) \<Rightarrow> storage \<Rightarrow> meta_reads" where
  "storage_reads E st =
     \<lparr>rd_cluster = get_state_record E (c_cluster E) st Meta meta_cluster_key,
      rd_node = (\<lambda>n. get_state_record E (c_node E) st Meta (meta_node_key n)),
      rd_maintenance = get_state_record E (c_maintenance E) st Meta meta_maintenance_key,
      rd_placement = (\<lambda>g. get_state_record E (c_placement E) st Meta (meta_placement_key g)),
      rd_retired = (\<lambda>n. get_state_record E (c_u64 E) st Meta (meta_retired_node_key n)),
      rd_directory =
        rbind (scan_prefix E st meta_node_prefix) (\<lambda>kvs.
        rbind (decode_all (c_node E) kvs) (\<lambda>es. Ok (map snd es))),
      rd_epoch =
        rbind (get_state_record E (c_u128 E) st Meta recovery_epoch_key) (\<lambda>e.
        Ok (case e of Some x \<Rightarrow> x | None \<Rightarrow> 0)),
      rd_identity = get_local (c_identity E) st identity_key,
      rd_index = (\<lambda>name. get_state_record E (c_index E) st Meta (meta_search_index_key name)),
      rd_index_busy = rbind (scan_prefix E st meta_search_index_prefix) (index_busy (c_index E)),
      rd_index_count = rbind (scan_prefix E st meta_search_index_prefix) (\<lambda>kvs. Ok (length kvs)),
      rd_ready = (\<lambda>name gen g n. get_state_record E (c_ready E) st Meta (meta_search_ready_key name gen g n)),
      rd_readiness = (\<lambda>name gen.
        rbind (scan_prefix E st (meta_search_ready_prefix name gen)) (decode_all (c_ready E))),
      rd_ready_keys = (\<lambda>name gen.
        rbind (scan_prefix E st (meta_search_ready_prefix name gen)) (\<lambda>kvs. Ok (map fst kvs)))\<rparr>"

definition is_active :: "meta_reads \<Rightarrow> node_id \<Rightarrow> bool result" where
  "is_active R n = rbind (rd_node R n) (\<lambda>e. Ok (case e of Some e \<Rightarrow> nd_state e = Active | None \<Rightarrow> False))"

definition eligible_count :: "meta_reads \<Rightarrow> nat result" where
  "eligible_count R = rbind (rd_directory R) (\<lambda>es. Ok (length (filter (\<lambda>e. nd_state e = Active) es)))"

text \<open>The meta group followed by every data group of the cluster.\<close>

definition all_groups :: "cluster_config \<Rightarrow> group_id list" where
  "all_groups c = Meta # map (\<lambda>p. Data (of_nat p)) [0..<unat (cc_p c)]"

text \<open>A loop over groups that answers at the first missing placement or failed check.\<close>

fun check_groups ::
  "meta_reads \<Rightarrow> meta_reject \<Rightarrow> (group_id \<Rightarrow> placement \<Rightarrow> meta_reject option) \<Rightarrow> group_id list
    \<Rightarrow> meta_reject option result" where
  "check_groups R missing check [] = Ok None"
| "check_groups R missing check (g # gs) =
     rbind (rd_placement R g) (\<lambda>pl.
     case pl of
       None \<Rightarrow> Ok (Some missing)
     | Some pl \<Rightarrow> (case check g pl of Some r \<Rightarrow> Ok (Some r) | None \<Rightarrow> check_groups R missing check gs))"

subsection \<open>Maintenance\<close>

definition begin_maintenance :: "meta_reads \<Rightarrow> u128 \<Rightarrow> u64 \<Rightarrow> node_id list \<Rightarrow> meta_outcome" where
  "begin_maintenance R operation_id generation participants =
     rbind (rd_cluster R) (\<lambda>cluster.
     case cluster of
       None \<Rightarrow> reject ClusterNotInitialized
     | Some cluster \<Rightarrow>
     if operation_id = 0 \<or> generation = 0 \<or> participants = []
     then invalid ''maintenance identity and participants are required''
     else if \<not> sorted_wrt (<) participants
     then invalid ''maintenance participants must be sorted and unique''
     else
     rbind (rd_directory R) (\<lambda>directory.
     let active = set (map nd_node_id (filter (\<lambda>e. nd_state e = Active) directory)) in
     if participants \<noteq> sorted_list_of_set active
     then invalid ''maintenance must include every Active node''
     else
     rbind (check_groups R MaintenanceBusy (\<lambda>g pl.
              if pl_move pl \<noteq> None \<or> \<not> set (pl_voters pl) \<subseteq> active then Some MaintenanceBusy else None)
              (all_groups cluster)) (\<lambda>failed.
     case failed of
       Some r \<Rightarrow> reject r
     | None \<Rightarrow>
     rbind (rd_index_busy R) (\<lambda>busy.
     if busy then reject MaintenanceBusy
     else
     let fresh = \<lparr>mr_operation_id = operation_id, mr_generation = generation, mr_participants = participants,
                  mr_acknowledged = [], mr_recovered = [], mr_recovery_processes = [],
                  mr_recovery_policy_digests = [], mr_verification_policy_digest = None,
                  mr_verification_recovery_epoch = None, mr_stage = Preparing\<rparr> in
     rbind (rd_maintenance R) (\<lambda>previous.
     case previous of
       Some previous \<Rightarrow>
         if mr_stage previous \<noteq> Released then
           if mr_operation_id previous = operation_id \<and> mr_generation previous = generation
              \<and> mr_participants previous = participants
           then no_op else reject MaintenanceActive
         else if mr_operation_id previous = operation_id
                 \<or> checked_add1 (mr_generation previous) \<noteq> Some generation
         then reject MaintenanceMismatch
         else applied [PutMaintenance fresh]
     | None \<Rightarrow>
         if generation \<noteq> 1 then reject MaintenanceMismatch
         else applied [PutMaintenance fresh])))))"

text \<open>The participants' registrations against the claimed live incarnations, in order.\<close>

fun live_mismatch :: "meta_reads \<Rightarrow> (node_id \<times> node_id \<times> u64) list \<Rightarrow> bool result" where
  "live_mismatch R [] = Ok False"
| "live_mismatch R ((n, claimed, inc) # rest) =
     (if n \<noteq> claimed then Ok True
      else rbind (rd_node R n) (\<lambda>e.
        if \<not> (case e of Some e \<Rightarrow> nd_state e = Active \<and> nd_incarnation e = inc | None \<Rightarrow> False)
        then Ok True else live_mismatch R rest))"

definition release_maintenance ::
  "meta_reads \<Rightarrow> u128 \<Rightarrow> u64 \<Rightarrow> (node_id \<times> u64) list \<Rightarrow> (node_id \<times> u64) list \<Rightarrow> digest32 \<Rightarrow> meta_outcome" where
  "release_maintenance R operation_id generation live_processes live_incarnations policy_digest =
     rbind (rd_maintenance R) (\<lambda>record.
     case record of
       None \<Rightarrow> reject MaintenanceMismatch
     | Some record \<Rightarrow>
     if mr_operation_id record \<noteq> operation_id \<or> mr_generation record \<noteq> generation
     then reject MaintenanceMismatch
     else
     let released = applied [PutMaintenance (record\<lparr>mr_stage := Released\<rparr>)] in
     if mr_stage record = Released then no_op
     else if mr_stage record = Preparing then released
     else if mr_stage record = Verifying \<and> mr_recovered record = mr_participants record
             \<and> map fst (mr_recovery_processes record) = mr_participants record then
       if mr_verification_policy_digest record \<noteq> Some policy_digest then reject MaintenancePolicyMismatch
       else rbind (rd_epoch R) (\<lambda>epoch.
       if mr_verification_recovery_epoch record \<noteq> Some epoch then reject MaintenanceMismatch
       else if mr_recovery_processes record \<noteq> live_processes then reject MaintenanceLivenessMismatch
       else if length live_incarnations \<noteq> length (mr_participants record) then reject MaintenanceLivenessMismatch
       else rbind (live_mismatch R (zip (mr_participants record) live_incarnations)) (\<lambda>bad.
       if bad then reject MaintenanceLivenessMismatch else released))
     else reject MaintenanceBusy)"

definition acknowledge_maintenance :: "meta_reads \<Rightarrow> u128 \<Rightarrow> u64 \<Rightarrow> node_id \<Rightarrow> u64 \<Rightarrow> meta_outcome" where
  "acknowledge_maintenance R operation_id generation n incarnation =
     rbind (rd_maintenance R) (\<lambda>record.
     case record of
       None \<Rightarrow> reject MaintenanceMismatch
     | Some record \<Rightarrow>
     if mr_operation_id record \<noteq> operation_id \<or> mr_generation record \<noteq> generation
     then reject MaintenanceMismatch
     else if mr_stage record \<noteq> Preparing then reject MaintenanceBusy
     else if is_err (binary_search (mr_participants record) n) then reject IneligibleTarget
     else rbind (rd_node R n) (\<lambda>entry.
     case entry of
       None \<Rightarrow> reject UnknownNode
     | Some entry \<Rightarrow>
     if nd_incarnation entry \<noteq> incarnation then reject StaleIncarnation
     else if nd_state entry \<noteq> Active then reject IneligibleTarget
     else (case binary_search (mr_acknowledged record) n of
       Inr _ \<Rightarrow> no_op
     | Inl i \<Rightarrow> applied [PutMaintenance (record\<lparr>mr_acknowledged := vec_insert (mr_acknowledged record) i n\<rparr>)])))"

definition quiesce_maintenance :: "meta_reads \<Rightarrow> u128 \<Rightarrow> u64 \<Rightarrow> meta_outcome" where
  "quiesce_maintenance R operation_id generation =
     rbind (rd_maintenance R) (\<lambda>record.
     case record of
       None \<Rightarrow> reject MaintenanceMismatch
     | Some record \<Rightarrow>
     if mr_operation_id record \<noteq> operation_id \<or> mr_generation record \<noteq> generation
     then reject MaintenanceMismatch
     else if mr_stage record = Quiesced then no_op
     else if mr_stage record \<noteq> Preparing \<or> mr_acknowledged record \<noteq> mr_participants record
     then reject MaintenanceBusy
     else applied [PutMaintenance (record\<lparr>mr_stage := Quiesced\<rparr>)])"

definition enter_maintenance_verification :: "meta_reads \<Rightarrow> u128 \<Rightarrow> u64 \<Rightarrow> meta_outcome" where
  "enter_maintenance_verification R operation_id generation =
     rbind (rd_maintenance R) (\<lambda>record.
     case record of
       None \<Rightarrow> reject MaintenanceMismatch
     | Some record \<Rightarrow>
     if mr_operation_id record \<noteq> operation_id \<or> mr_generation record \<noteq> generation
     then reject MaintenanceMismatch
     else if mr_stage record = Verifying then no_op
     else if mr_stage record \<noteq> Quiesced then reject MaintenanceBusy
     else applied [PutMaintenance (record\<lparr>mr_stage := Verifying, mr_recovered := [],
            mr_recovery_processes := [], mr_recovery_policy_digests := [],
            mr_verification_policy_digest := None, mr_verification_recovery_epoch := None\<rparr>)])"

text \<open>The groups a node votes in, provided every placement exists and none is moving.\<close>

fun recovery_topology ::
  "meta_reads \<Rightarrow> node_id \<Rightarrow> group_id list \<Rightarrow> (meta_reject + (group_id \<times> node_id list) list) result" where
  "recovery_topology R n [] = Ok (Inr [])"
| "recovery_topology R n (g # gs) =
     rbind (rd_placement R g) (\<lambda>pl.
     case pl of
       None \<Rightarrow> Ok (Inl NoPlacement)
     | Some pl \<Rightarrow>
         if pl_move pl \<noteq> None then Ok (Inl MaintenanceBusy)
         else rbind (recovery_topology R n gs) (\<lambda>rest.
           Ok (rbind rest (\<lambda>expected.
             Inr (if n \<in> set (pl_voters pl) then (g, pl_voters pl) # expected else expected)))))"

definition confirm_recovery :: "maintenance_record \<Rightarrow> node_id \<Rightarrow> u64 \<Rightarrow> digest32 \<Rightarrow> u128 \<Rightarrow> maintenance_record" where
  "confirm_recovery record n process_incarnation policy_digest recovery_epoch =
     (let recovered = (case binary_search (mr_recovered record) n of
            Inl i \<Rightarrow> vec_insert (mr_recovered record) i n | Inr _ \<Rightarrow> mr_recovered record);
          processes = (case binary_search_by_key fst (mr_recovery_processes record) n of
            Inr i \<Rightarrow> (mr_recovery_processes record)[i := (fst (mr_recovery_processes record ! i), process_incarnation)]
          | Inl i \<Rightarrow> vec_insert (mr_recovery_processes record) i (n, process_incarnation));
          digests = (case binary_search_by_key fst (mr_recovery_policy_digests record) n of
            Inr i \<Rightarrow> (mr_recovery_policy_digests record)[i := (fst (mr_recovery_policy_digests record ! i), policy_digest)]
          | Inl i \<Rightarrow> vec_insert (mr_recovery_policy_digests record) i (n, policy_digest))
      in record\<lparr>mr_recovered := recovered, mr_recovery_processes := processes,
           mr_recovery_policy_digests := digests,
           mr_verification_policy_digest :=
             (if recovered = mr_participants record \<and> length digests = length (mr_participants record)
                 \<and> map fst digests = mr_participants record \<and> list_all (\<lambda>(_, d). d = policy_digest) digests
              then Some policy_digest else None),
           mr_verification_recovery_epoch :=
             (if recovered = mr_participants record then Some recovery_epoch else None)\<rparr>)"

definition acknowledge_maintenance_recovery ::
  "('a meta_env_scheme) \<Rightarrow> meta_reads \<Rightarrow> u128 \<Rightarrow> u64 \<Rightarrow> node_id \<Rightarrow> u64 \<Rightarrow> u64 \<Rightarrow> digest32 \<Rightarrow> digest32 \<Rightarrow> u128
    \<Rightarrow> meta_outcome" where
  "acknowledge_maintenance_recovery E R operation_id generation n incarnation process_incarnation
     topology_digest policy_digest recovery_epoch =
     rbind (rd_maintenance R) (\<lambda>record.
     case record of
       None \<Rightarrow> reject MaintenanceMismatch
     | Some record \<Rightarrow>
     if mr_operation_id record \<noteq> operation_id \<or> mr_generation record \<noteq> generation
     then reject MaintenanceMismatch
     else if mr_stage record \<noteq> Verifying then reject MaintenanceBusy
     else if is_err (binary_search (mr_participants record) n) then reject IneligibleTarget
     else rbind (rd_node R n) (\<lambda>entry.
     case entry of
       None \<Rightarrow> reject UnknownNode
     | Some entry \<Rightarrow>
     if nd_incarnation entry \<noteq> incarnation then reject StaleIncarnation
     else if nd_state entry \<noteq> Active then reject IneligibleTarget
     else if process_incarnation = 0 then invalid ''maintenance process incarnation is required''
     else if policy_digest = replicate 32 0 then invalid ''maintenance trust-policy digest is required''
     else rbind (rd_epoch R) (\<lambda>epoch.
     if recovery_epoch \<noteq> epoch then reject MaintenanceMismatch
     else
     let previous = (case binary_search_by_key fst (mr_recovery_processes record) n of
           Inr i \<Rightarrow> Some (snd (mr_recovery_processes record ! i)) | Inl _ \<Rightarrow> None) in
     if (case previous of Some prev \<Rightarrow> process_incarnation < prev | None \<Rightarrow> False)
     then reject StaleMaintenanceProcess
     else if (case previous of
                Some prev \<Rightarrow> process_incarnation = prev \<and> \<not> is_err (binary_search (mr_recovered record) n)
              | None \<Rightarrow> False)
     then no_op
     else rbind (rd_cluster R) (\<lambda>cluster.
     case cluster of
       None \<Rightarrow> reject ClusterNotInitialized
     | Some cluster \<Rightarrow>
     rbind (recovery_topology R n (all_groups cluster)) (\<lambda>topology.
     case topology of
       Inl r \<Rightarrow> reject r
     | Inr expected \<Rightarrow>
     if topology_digest \<noteq> maintenance_topology_digest (sha256 E) expected
     then reject MaintenanceTopologyMismatch
     else applied [PutMaintenance
            (confirm_recovery record n process_incarnation policy_digest recovery_epoch)])))))"

subsection \<open>Cluster and directory\<close>

definition cluster_init :: "meta_reads \<Rightarrow> cluster_config \<Rightarrow> node_id list \<Rightarrow> log_id \<Rightarrow> meta_outcome" where
  "cluster_init R config meta_voters lid =
     rbind (rd_cluster R) (\<lambda>existing.
     case existing of
       Some existing \<Rightarrow>
         rbind (rd_placement R Meta) (\<lambda>pl.
         if existing = config \<and> map_option (\<lambda>p. voter_set (pl_voters p)) pl = Some (voter_set meta_voters)
         then no_op else reject ClusterConflict)
     | None \<Rightarrow>
     rbind (rd_identity R) (\<lambda>identity.
     case identity of
       None \<Rightarrow> invalid ''cluster init requires a bound storage identity''
     | Some identity \<Rightarrow>
     if cc_cluster_id config \<noteq> id_cluster_id identity
     then invalid ''cluster_id differs from the storage identity''
     else if cc_protocol_version config \<noteq> PROTOCOL_VERSION then invalid ''unsupported protocol version''
     else if cc_r config < MIN_REPLICATION then invalid ''R below minimum''
     else if cc_p config = 0 then invalid ''P must be non-zero''
     else (case validate_routing_shape (cc_p config) (cc_r config) of
       Inl e \<Rightarrow> invalid (display e)
     | Inr _ \<Rightarrow>
     let mv = voter_set meta_voters in
     if card mv \<noteq> length meta_voters then invalid ''duplicate meta voter''
     else if card mv < MIN_META_VOTERS \<or> card mv mod 2 = 0
     then invalid ''meta voters must be an odd set of >= 3''
     else if card mv > MAX_CLUSTER_NODES then invalid ''meta voter set exceeds the cluster node limit''
     else applied [PutCluster config,
            PutPlacement Meta \<lparr>pl_voters = sorted_list_of_set mv, pl_voters_log_id = lid, pl_move = None\<rparr>])))"

definition register_node :: "meta_reads \<Rightarrow> node_id \<Rightarrow> string \<Rightarrow> string \<Rightarrow> meta_outcome" where
  "register_node R n control_addr bulk_addr =
     rbind (rd_cluster R) (\<lambda>cluster.
     if cluster = None then reject ClusterNotInitialized
     else if n = 0 then invalid ''node_id must be non-zero''
     else if control_addr = [] \<or> bulk_addr = [] then invalid ''node addresses must be non-empty''
     else if length control_addr > MAX_ENDPOINT_BYTES \<or> length bulk_addr > MAX_ENDPOINT_BYTES
     then invalid ''node addresses must be <= 256 bytes''
     else if control_addr = bulk_addr then invalid ''control_addr and bulk_addr must differ''
     else rbind (rd_retired R n) (\<lambda>retired.
     if retired \<noteq> None then invalid ''retired node ids cannot be reused''
     else rbind (rd_directory R) (\<lambda>directory.
     if list_ex (\<lambda>other. nd_node_id other \<noteq> n
          \<and> (nd_control_addr other = control_addr \<or> nd_bulk_addr other = control_addr
             \<or> nd_control_addr other = bulk_addr \<or> nd_bulk_addr other = bulk_addr)) directory
     then invalid ''node addresses are already registered to another node''
     else if length directory \<ge> MAX_CLUSTER_NODES \<and> \<not> list_ex (\<lambda>e. nd_node_id e = n) directory
     then invalid ''cluster node count must be <= 8''
     else
     let entry = (\<lambda>inc. \<lparr>nd_node_id = n, nd_control_addr = control_addr, nd_bulk_addr = bulk_addr,
                       nd_state = Active, nd_incarnation = inc\<rparr>) in
     rbind (rd_node R n) (\<lambda>current.
     case current of
       Some e \<Rightarrow>
         if nd_control_addr e = control_addr \<and> nd_bulk_addr e = bulk_addr then
           if nd_state e \<noteq> Down then no_op
           else (case checked_add1 (nd_incarnation e) of
                   None \<Rightarrow> invalid ''node incarnation exhausted''
                 | Some inc \<Rightarrow> applied [PutNode n (e\<lparr>nd_state := Active, nd_incarnation := inc\<rparr>)])
         else (case checked_add1 (nd_incarnation e) of
                 None \<Rightarrow> invalid ''node incarnation exhausted''
               | Some inc \<Rightarrow> applied [PutNode n (entry inc)])
     | None \<Rightarrow> applied [PutNode n (entry 1)]))))"

definition set_node_state :: "meta_reads \<Rightarrow> node_id \<Rightarrow> node_state \<Rightarrow> u64 \<Rightarrow> meta_outcome" where
  "set_node_state R n state incarnation =
     rbind (rd_node R n) (\<lambda>entry.
     case entry of
       None \<Rightarrow> reject UnknownNode
     | Some entry \<Rightarrow>
     if incarnation \<noteq> nd_incarnation entry then reject StaleIncarnation
     else if (nd_state entry = Down \<and> state \<noteq> Down \<and> state \<noteq> Draining)
             \<or> (nd_state entry = Draining \<and> state \<noteq> Draining)
     then reject StaleIncarnation
     else if nd_state entry = state then no_op
     else applied [PutNode n (entry\<lparr>nd_state := state\<rparr>)])"

definition retire_node :: "meta_reads \<Rightarrow> node_id \<Rightarrow> u64 \<Rightarrow> meta_outcome" where
  "retire_node R n incarnation =
     rbind (rd_retired R n) (\<lambda>retired.
     case retired of
       Some inc \<Rightarrow> if inc = incarnation then no_op else reject StaleIncarnation
     | None \<Rightarrow>
     rbind (rd_node R n) (\<lambda>entry.
     case entry of
       None \<Rightarrow> reject UnknownNode
     | Some entry \<Rightarrow>
     if nd_incarnation entry \<noteq> incarnation then reject StaleIncarnation
     else if nd_state entry \<noteq> Draining then reject IneligibleTarget
     else rbind (rd_cluster R) (\<lambda>cluster.
     case cluster of
       None \<Rightarrow> reject ClusterNotInitialized
     | Some cluster \<Rightarrow>
     rbind (check_groups R NoPlacement (\<lambda>g pl.
              if references_node pl n
              then Some (InvalidConfig ''node is still referenced by a placement or move'') else None)
              (all_groups cluster)) (\<lambda>failed.
     case failed of
       Some r \<Rightarrow> reject r
     | None \<Rightarrow> applied [PutRetired n incarnation, DeleteNode n]))))"

subsection \<open>Placements and plans\<close>

text \<open>The loop over voters that must all be active.\<close>

fun all_active :: "meta_reads \<Rightarrow> node_id list \<Rightarrow> bool result" where
  "all_active R [] = Ok True"
| "all_active R (n # ns) = rbind (is_active R n) (\<lambda>a. if a then all_active R ns else Ok False)"

definition seed_placement :: "meta_reads \<Rightarrow> group_id \<Rightarrow> node_id list \<Rightarrow> log_id \<Rightarrow> meta_outcome" where
  "seed_placement R g voters lid =
     rbind (rd_cluster R) (\<lambda>config.
     case config of
       None \<Rightarrow> reject ClusterNotInitialized
     | Some config \<Rightarrow>
     (case g of
       Meta \<Rightarrow> reject SeedMetaForbidden
     | Data part \<Rightarrow>
     if part \<ge> cc_p config then illegal ''partition is outside the configured range''
     else
     let vs = voter_set voters in
     if card vs \<noteq> length voters then illegal ''duplicate voter''
     else if card vs \<noteq> unat (cc_r config) then illegal ''initial voters must number exactly R''
     else rbind (all_active R voters) (\<lambda>ok.
     if \<not> ok then reject IneligibleTarget
     else rbind (rd_placement R g) (\<lambda>pl.
     case pl of
       Some existing \<Rightarrow>
         if pl_move existing = None \<and> voter_set (pl_voters existing) = vs then no_op
         else reject PlacementConflict
     | None \<Rightarrow> applied [PutPlacement g
                \<lparr>pl_voters = sorted_list_of_set vs, pl_voters_log_id = lid, pl_move = None\<rparr>]))))"

definition create_plan :: "meta_reads \<Rightarrow> group_id \<Rightarrow> node_id list \<Rightarrow> log_id \<Rightarrow> meta_outcome" where
  "create_plan R g target_voters lid =
     rbind (rd_cluster R) (\<lambda>config.
     case config of
       None \<Rightarrow> reject ClusterNotInitialized
     | Some config \<Rightarrow>
     rbind (rd_placement R g) (\<lambda>pl.
     case pl of
       None \<Rightarrow> reject NoPlacement
     | Some pl \<Rightarrow>
     if pl_move pl \<noteq> None then reject PlanExists
     else
     let current = voter_set (pl_voters pl);
         target = voter_set target_voters in
     if card target \<noteq> length target_voters then illegal ''duplicate voter''
     else
     let added = card (target - current);
         removed = card (current - target);
         place = rbind (all_active R (sorted_list_of_set (target - current))) (\<lambda>ok.
           if \<not> ok then reject IneligibleTarget
           else applied [PutPlacement g (pl\<lparr>pl_move := Some \<lparr>mp_plan_id = li_index lid,
                  mp_target_voters = sorted_list_of_set target, mp_aborting = False\<rparr>\<rparr>)]) in
     (case g of
       Data _ \<Rightarrow>
         if card target \<noteq> unat (cc_r config) then illegal ''data target must have exactly R voters''
         else if added \<noteq> 1 \<or> removed \<noteq> 1 then illegal ''data move must change exactly one voter''
         else rbind (eligible_count R) (\<lambda>n.
           if n < unat (cc_r config) then reject IneligibleTarget else place)
     | Meta \<Rightarrow>
         if card target < MIN_META_VOTERS then illegal ''meta move must not leave < 3 voters''
         else
         let replacement = (added = 1 \<and> removed = 1 \<and> card target = card current);
             removal = (added = 0 \<and> removed = 1 \<and> card target + 1 = card current) in
         if \<not> (replacement \<or> removal)
         then illegal ''meta move must be single-voter replacement or removal''
         else place)))"

definition mark_aborting :: "meta_reads \<Rightarrow> group_id \<Rightarrow> u64 \<Rightarrow> meta_outcome" where
  "mark_aborting R g plan_id =
     rbind (rd_placement R g) (\<lambda>pl.
     case pl of
       None \<Rightarrow> reject NoPlan
     | Some pl \<Rightarrow>
     (case pl_move pl of
       Some m \<Rightarrow>
         if mp_plan_id m = plan_id then
           if mp_aborting m then no_op
           else applied [PutPlacement g (pl\<lparr>pl_move := Some (m\<lparr>mp_aborting := True\<rparr>)\<rparr>)]
         else reject PlanIdMismatch
     | None \<Rightarrow> reject NoPlan))"

definition finalize_plan ::
  "meta_reads \<Rightarrow> group_id \<Rightarrow> u64 \<Rightarrow> data_config_observation \<Rightarrow> bool \<Rightarrow> meta_outcome" where
  "finalize_plan R g plan_id observation is_abort =
     rbind (rd_placement R g) (\<lambda>pl.
     case pl of
       None \<Rightarrow> reject NoPlan
     | Some pl \<Rightarrow>
     (case pl_move pl of
       None \<Rightarrow> reject NoPlan
     | Some plan \<Rightarrow>
     if mp_plan_id plan \<noteq> plan_id then reject PlanIdMismatch
     else if do_group observation \<noteq> g \<or> do_plan_id observation \<noteq> plan_id then reject ObservationMismatch
     else
     let observed = voter_set (do_voter_set observation);
         resolve = (\<lambda>new_voters. applied [PutPlacement g
           \<lparr>pl_voters = sort new_voters, pl_voters_log_id = do_config_log_id observation, pl_move = None\<rparr>]) in
     if is_abort then
       if \<not> mp_aborting plan then reject NotAborting
       else if observed = voter_set (pl_voters pl) then resolve (pl_voters pl)
       else if observed = voter_set (mp_target_voters plan) then resolve (mp_target_voters plan)
       else reject ObservationMismatch
     else
       if mp_aborting plan then reject PlanAborting
       else if observed = voter_set (mp_target_voters plan) then resolve (mp_target_voters plan)
       else reject ObservationMismatch))"

subsection \<open>Search catalog\<close>

abbreviation valid_record :: "('a meta_env_scheme) \<Rightarrow> search_index_record \<Rightarrow> unit result" where
  "valid_record E \<equiv> validate_record (sha256 E) (c_definition E) (c_index E)"

definition search_index :: "('a meta_env_scheme) \<Rightarrow> meta_reads \<Rightarrow> string \<Rightarrow> search_index_record option result" where
  "search_index E R name =
     rbind (rd_index R name) (\<lambda>record.
     case record of
       Some r \<Rightarrow> rbind (valid_record E r) (\<lambda>_. Ok (Some r))
     | None \<Rightarrow> Ok None)"

definition same_generation :: "search_index_generation option \<Rightarrow> search_index_generation \<Rightarrow> bool" where
  "same_generation building gen \<longleftrightarrow>
     (case building of
        Some b \<Rightarrow> sg_definition_hash b = sg_definition_hash gen \<and> sg_engine_revision b = sg_engine_revision gen
      | None \<Rightarrow> False)"

text \<open>The part of \<open>create_search_index\<close> after the record to extend is known.\<close>

definition start_building ::
  "('a meta_env_scheme) \<Rightarrow> string \<Rightarrow> search_index_generation \<Rightarrow> bool \<Rightarrow> search_index_record \<Rightarrow> meta_outcome" where
  "start_building E name gen update record =
     (if sr_building record \<noteq> None then
        if same_generation (sr_building record) gen then no_op else reject SearchGenerationExists
      else if update \<and> sr_active record = None then reject SearchIndexNotFound
      else if update \<and> length (sr_retiring record) \<ge> SEARCH_MAX_RETIRING_GENERATIONS
      then invalid ''too many retiring search generations; finalize one before updating''
      else
      let record = record\<lparr>sr_building := Some gen\<rparr> in
      case valid_record E record of
        Inl e \<Rightarrow> invalid (display e)
      | Inr _ \<Rightarrow> applied [PutIndex name record])"

definition create_search_index ::
  "('a meta_env_scheme) \<Rightarrow> meta_reads \<Rightarrow> string \<Rightarrow> search_index_definition \<Rightarrow> u32 \<Rightarrow> log_id \<Rightarrow> bool \<Rightarrow> meta_outcome" where
  "create_search_index E R name definition engine_revision lid update =
     rbind (rd_cluster R) (\<lambda>cluster.
     if cluster = None then reject ClusterNotInitialized
     else case validate_index_name name of
       Inl e \<Rightarrow> invalid (display e)
     | Inr _ \<Rightarrow>
     (case with_revision (sha256 E) (c_definition E) (li_index lid) engine_revision definition of
       Inl e \<Rightarrow> invalid (display e)
     | Inr gen \<Rightarrow>
     rbind (search_index E R name) (\<lambda>existing.
     rbind (if existing = None \<and> \<not> update then rd_index_count R else Ok 0) (\<lambda>count.
     if existing = None \<and> \<not> update \<and> count \<ge> SEARCH_MAX_INDEXES
     then invalid ''search catalog has reached its maximum index count''
     else case (existing, update) of
       (None, False) \<Rightarrow> start_building E name gen update
          \<lparr>sr_name = name, sr_active = None, sr_building = None, sr_retiring = []\<rparr>
     | (None, True) \<Rightarrow> reject SearchIndexNotFound
     | (Some record, False) \<Rightarrow>
         if sr_active record = None \<and> same_generation (sr_building record) gen then no_op
         else reject SearchIndexExists
     | (Some record, True) \<Rightarrow> start_building E name gen update record))))"

definition report_search_ready ::
  "('a meta_env_scheme) \<Rightarrow> meta_reads \<Rightarrow> string \<Rightarrow> search_index_ready \<Rightarrow> meta_outcome" where
  "report_search_ready E R name observation =
     rbind (search_index E R name) (\<lambda>record.
     case record of
       None \<Rightarrow> reject SearchIndexNotFound
     | Some record \<Rightarrow>
     (case sr_building record of
       None \<Rightarrow> reject SearchGenerationMismatch
     | Some building \<Rightarrow>
     if ry_generation observation \<noteq> sg_id building
        \<or> ry_definition_hash observation \<noteq> sg_definition_hash building
        \<or> ry_engine_revision observation \<noteq> sg_engine_revision building
     then reject SearchGenerationMismatch
     else (case ry_group observation of
       Meta \<Rightarrow> reject ObservationMismatch
     | Data part \<Rightarrow>
     rbind (rd_cluster R) (\<lambda>config.
     case config of
       None \<Rightarrow> reject ClusterNotInitialized
     | Some config \<Rightarrow>
     if part \<ge> cc_p config \<or> ry_projection_epoch observation = 0 then reject ObservationMismatch
     else rbind (rd_placement R (ry_group observation)) (\<lambda>pl.
     case pl of
       None \<Rightarrow> reject NoPlacement
     | Some pl \<Rightarrow>
     if pl_move pl \<noteq> None \<or> pl_voters_log_id pl \<noteq> ry_voters_log_id observation
        \<or> ry_node_id observation \<notin> set (pl_voters pl)
     then reject ObservationMismatch
     else
     let key = meta_search_ready_key name (ry_generation observation) (ry_group observation) (ry_node_id observation) in
     rbind (rd_ready R name (ry_generation observation) (ry_group observation) (ry_node_id observation)) (\<lambda>previous.
     if previous = Some observation then no_op
     else if (case previous of
                Some prev \<Rightarrow> ry_projection_epoch observation < ry_projection_epoch prev
                  \<or> (ry_projection_epoch observation = ry_projection_epoch prev
                     \<and> li_index (ry_source_log_id observation) < li_index (ry_source_log_id prev))
              | None \<Rightarrow> False)
     then reject ObservationMismatch
     else applied [PutReady key observation]))))))"

definition ready_for ::
  "search_index_generation \<Rightarrow> u64 \<Rightarrow> group_id \<Rightarrow> placement \<Rightarrow> node_id \<Rightarrow> bytes \<times> search_index_ready \<Rightarrow> bool" where
  "ready_for building gen g pl n = (\<lambda>(_, ready).
     ry_generation ready = gen \<and> ry_group ready = g \<and> ry_node_id ready = n
     \<and> ry_voters_log_id ready = pl_voters_log_id pl
     \<and> ry_definition_hash ready = sg_definition_hash building
     \<and> ry_engine_revision ready = sg_engine_revision building)"

definition data_groups :: "cluster_config \<Rightarrow> group_id list" where
  "data_groups c = map (\<lambda>p. Data (of_nat p)) [0..<unat (cc_p c)]"

definition activate_search_generation ::
  "('a meta_env_scheme) \<Rightarrow> meta_reads \<Rightarrow> string \<Rightarrow> u64 \<Rightarrow> meta_outcome" where
  "activate_search_generation E R name gen =
     rbind (search_index E R name) (\<lambda>record.
     case record of
       None \<Rightarrow> reject SearchIndexNotFound
     | Some record \<Rightarrow>
     if map_option sg_id (sr_active record) = Some gen \<and> sr_building record = None then no_op
     else (case sr_building record of
       None \<Rightarrow> reject SearchGenerationMismatch
     | Some building \<Rightarrow>
     if sg_id building \<noteq> gen then reject SearchGenerationMismatch
     else rbind (rd_cluster R) (\<lambda>config.
     case config of
       None \<Rightarrow> reject ClusterNotInitialized
     | Some config \<Rightarrow>
     rbind (rd_readiness R name gen) (\<lambda>readiness.
     rbind (check_groups R SearchGenerationNotReady (\<lambda>g pl.
              if pl_move pl \<noteq> None
                 \<or> \<not> list_all (\<lambda>n. list_ex (ready_for building gen g pl n) readiness) (pl_voters pl)
              then Some SearchGenerationNotReady else None) (data_groups config)) (\<lambda>failed.
     case failed of
       Some r \<Rightarrow> reject r
     | None \<Rightarrow>
     let crowded = (\<lambda>previous. sg_id previous \<notin> set (sr_retiring record)
            \<and> length (sr_retiring record) \<ge> SEARCH_MAX_RETIRING_GENERATIONS) in
     if (case sr_active record of Some previous \<Rightarrow> crowded previous | None \<Rightarrow> False)
     then invalid ''too many retiring search generations; finalize one before activation''
     else
     let retiring = (case sr_active record of
            Some previous \<Rightarrow>
              if sg_id previous \<notin> set (sr_retiring record) then sr_retiring record @ [sg_id previous]
              else sr_retiring record
          | None \<Rightarrow> sr_retiring record);
         record = record\<lparr>sr_active := Some building, sr_building := None, sr_retiring := retiring\<rparr> in
     (case valid_record E record of
       Inl e \<Rightarrow> invalid (display e)
     | Inr _ \<Rightarrow> applied (PutIndex name record # map (\<lambda>kr. DeleteReady (fst kr)) readiness)))))))"

text \<open>Pushing the dropped generations onto the retiring list, skipping the ones already there.\<close>

definition retire_push :: "search_index_generation \<Rightarrow> u64 list \<Rightarrow> u64 list" where
  "retire_push gen retiring = (if sg_id gen \<notin> set retiring then retiring @ [sg_id gen] else retiring)"

definition drop_search_index :: "('a meta_env_scheme) \<Rightarrow> meta_reads \<Rightarrow> string \<Rightarrow> meta_outcome" where
  "drop_search_index E R name =
     rbind (search_index E R name) (\<lambda>record.
     case record of
       None \<Rightarrow> no_op
     | Some record \<Rightarrow>
     if sr_active record = None \<and> sr_building record = None then no_op
     else
     let dropped = (case sr_active record of Some a \<Rightarrow> [a] | None \<Rightarrow> [])
                 @ (case sr_building record of Some b \<Rightarrow> [b] | None \<Rightarrow> []);
         additions = length (filter (\<lambda>gen. sg_id gen \<notin> set (sr_retiring record)) dropped) in
     if length (sr_retiring record) + additions > SEARCH_MAX_RETIRING_GENERATIONS
     then invalid ''too many retiring search generations; finalize one before dropping''
     else
     let dropped_record = record\<lparr>sr_active := None, sr_building := None,
           sr_retiring := fold retire_push dropped (sr_retiring record)\<rparr> in
     (case valid_record E dropped_record of
       Inl e \<Rightarrow> invalid (display e)
     | Inr _ \<Rightarrow>
     rbind (case sr_building record of
              Some b \<Rightarrow> rd_ready_keys R name (sg_id b)
            | None \<Rightarrow> Ok []) (\<lambda>keys.
     applied (PutIndex name dropped_record # map DeleteReady keys))))"

definition finalize_search_drop :: "('a meta_env_scheme) \<Rightarrow> meta_reads \<Rightarrow> string \<Rightarrow> u64 \<Rightarrow> meta_outcome" where
  "finalize_search_drop E R name gen =
     rbind (search_index E R name) (\<lambda>record.
     case record of
       None \<Rightarrow> no_op
     | Some record \<Rightarrow>
     let retained = filter (\<lambda>i. i \<noteq> gen) (sr_retiring record) in
     if length retained = length (sr_retiring record) then no_op
     else if sr_active record = None \<and> sr_building record = None \<and> retained = []
     then applied [DeleteIndex name]
     else applied [PutIndex name (record\<lparr>sr_retiring := retained\<rparr>)])"

subsection \<open>Evaluation\<close>

fun maintenance_command :: "meta_command \<Rightarrow> bool" where
  "maintenance_command (BeginMaintenance _ _ _) = True"
| "maintenance_command (ReleaseMaintenance _ _ _ _ _) = True"
| "maintenance_command (AcknowledgeMaintenance _ _ _ _) = True"
| "maintenance_command (QuiesceMaintenance _ _) = True"
| "maintenance_command (EnterMaintenanceVerification _ _) = True"
| "maintenance_command (AcknowledgeMaintenanceRecovery _ _ _ _ _ _ _ _) = True"
| "maintenance_command _ = False"

fun dispatch :: "('a meta_env_scheme) \<Rightarrow> meta_reads \<Rightarrow> meta_command \<Rightarrow> log_id \<Rightarrow> meta_outcome" where
  "dispatch E R (ClusterInit config meta_voters) lid = cluster_init R config meta_voters lid"
| "dispatch E R (RegisterNode n c b) lid = register_node R n c b"
| "dispatch E R (SeedPlacement g vs) lid = seed_placement R g vs lid"
| "dispatch E R (SetNodeState n s i) lid = set_node_state R n s i"
| "dispatch E R (RetireNode n i) lid = retire_node R n i"
| "dispatch E R (CreatePlan g _ t) lid = create_plan R g t lid"
| "dispatch E R (MarkAborting g p) lid = mark_aborting R g p"
| "dispatch E R (FinalizePlan g p ob) lid = finalize_plan R g p ob False"
| "dispatch E R (AbortReport g p ob) lid = finalize_plan R g p ob True"
| "dispatch E R (CreateSearchIndex n d) lid = create_search_index E R n d LEGACY_SEARCH_ENGINE_REVISION lid False"
| "dispatch E R (CreateSearchIndexGeneration n d) lid =
     create_search_index E R n d LEGACY_SEARCH_ENGINE_REVISION lid True"
| "dispatch E R (ReportSearchIndexReady n ob) lid = report_search_ready E R n ob"
| "dispatch E R (ActivateSearchIndexGeneration n gen) lid = activate_search_generation E R n gen"
| "dispatch E R (DropSearchIndex n) lid = drop_search_index E R n"
| "dispatch E R (FinalizeSearchIndexDrop n gen) lid = finalize_search_drop E R n gen"
| "dispatch E R (CreateSearchIndexWithRevision n d er) lid = create_search_index E R n d er lid False"
| "dispatch E R (CreateSearchIndexGenerationWithRevision n d er) lid = create_search_index E R n d er lid True"
| "dispatch E R (BeginMaintenance oid gen ps) lid = begin_maintenance R oid gen ps"
| "dispatch E R (ReleaseMaintenance oid gen procs incs pd) lid = release_maintenance R oid gen procs incs pd"
| "dispatch E R (AcknowledgeMaintenance oid gen n i) lid = acknowledge_maintenance R oid gen n i"
| "dispatch E R (QuiesceMaintenance oid gen) lid = quiesce_maintenance R oid gen"
| "dispatch E R (EnterMaintenanceVerification oid gen) lid = enter_maintenance_verification R oid gen"
| "dispatch E R (AcknowledgeMaintenanceRecovery oid gen n i pinc td pd ep) lid =
     acknowledge_maintenance_recovery E R oid gen n i pinc td pd ep"

definition meta_evaluate :: "('a meta_env_scheme) \<Rightarrow> meta_reads \<Rightarrow> meta_command \<Rightarrow> log_id \<Rightarrow> meta_outcome" where
  "meta_evaluate E R cmd lid =
     rbind (rd_maintenance R) (\<lambda>record.
     if (case record of Some r \<Rightarrow> mr_stage r \<noteq> Released | None \<Rightarrow> False) \<and> \<not> maintenance_command cmd
     then reject MaintenanceActive
     else dispatch E R cmd lid)"

definition meta_apply ::
  "('a meta_env_scheme) \<Rightarrow> faults \<Rightarrow> meta_command \<Rightarrow> log_id \<Rightarrow> storage \<Rightarrow> storage \<times> meta_apply_result result" where
  "meta_apply E fault cmd lid st =
     sbind (st, meta_evaluate E (storage_reads E st) cmd lid) (\<lambda>st (result, ws).
     sbind (apply_state E fault Meta (map (mutation_of E) ws) lid st) (\<lambda>st _.
     (st, Ok result)))"

end
