(* ===== verification/Meta_Refine.thy ===== *)
theory Meta_Refine
  imports Meta_SM Log_Machine
begin

section \<open>The meta state machine refines a typed machine\<close>

text \<open>
  The typed view of the meta group's records, the machine that runs the handlers on it, and the
  proof that the machine over encoded column families implements it: every typed read of a
  column family that represents a view answers as the view, and the encoded writes of a handler
  lead to a column family that represents the updated view.
\<close>

subsection \<open>Views\<close>

text \<open>Records that are only read by key are functions; records the code scans keep their keys.\<close>

record meta_view =
  mv_cluster :: "cluster_config option"
  mv_maintenance :: "maintenance_record option"
  mv_epoch :: "u128 option"
  mv_identity :: "identity option"
  mv_placements :: "group_id \<Rightarrow> placement option"
  mv_retired :: "node_id \<Rightarrow> u64 option"
  mv_nodes :: "(bytes \<times> node_directory_entry) list"
  mv_indexes :: "(bytes \<times> search_index_record) list"
  mv_ready :: "(bytes \<times> search_index_ready) list"

definition under :: "bytes \<Rightarrow> (bytes \<times> 'v) list \<Rightarrow> (bytes \<times> 'v) list" where
  "under prefix kvs = filter (\<lambda>kv. starts_with (fst kv) prefix) kvs"

abbreviation index_in_progress :: "search_index_record \<Rightarrow> bool" where
  "index_in_progress r \<equiv> sr_building r \<noteq> None \<or> sr_retiring r \<noteq> []"

definition view_reads :: "meta_view \<Rightarrow> meta_reads" where
  "view_reads v =
     \<lparr>rd_cluster = Ok (mv_cluster v),
      rd_node = (\<lambda>n. Ok (map_of (mv_nodes v) (meta_node_key n))),
      rd_maintenance = Ok (mv_maintenance v),
      rd_placement = (\<lambda>g. Ok (mv_placements v g)),
      rd_retired = (\<lambda>n. Ok (mv_retired v n)),
      rd_directory = Ok (map snd (mv_nodes v)),
      rd_epoch = Ok (case mv_epoch v of Some x \<Rightarrow> x | None \<Rightarrow> 0),
      rd_identity = Ok (mv_identity v),
      rd_index = (\<lambda>name. Ok (map_of (mv_indexes v) (meta_search_index_key name))),
      rd_index_busy = Ok (list_ex (\<lambda>kv. index_in_progress (snd kv)) (mv_indexes v)),
      rd_index_count = Ok (length (mv_indexes v)),
      rd_ready = (\<lambda>name gen g n. Ok (map_of (mv_ready v) (meta_search_ready_key name gen g n))),
      rd_readiness = (\<lambda>name gen. Ok (under (meta_search_ready_prefix name gen) (mv_ready v))),
      rd_ready_keys = (\<lambda>name gen. Ok (map fst (under (meta_search_ready_prefix name gen) (mv_ready v))))\<rparr>"

abbreviation tput :: "bytes \<Rightarrow> 'v \<Rightarrow> (bytes \<times> 'v) list \<Rightarrow> (bytes \<times> 'v) list" where
  "tput k x kvs \<equiv> upsert_by_key fst kvs (k, x)"

abbreviation tdelete :: "bytes \<Rightarrow> (bytes \<times> 'v) list \<Rightarrow> (bytes \<times> 'v) list" where
  "tdelete k kvs \<equiv> filter (\<lambda>kv. fst kv \<noteq> k) kvs"

fun view_write :: "meta_write \<Rightarrow> meta_view \<Rightarrow> meta_view" where
  "view_write (PutCluster c) v = v\<lparr>mv_cluster := Some c\<rparr>"
| "view_write (PutMaintenance r) v = v\<lparr>mv_maintenance := Some r\<rparr>"
| "view_write (PutNode n e) v = v\<lparr>mv_nodes := tput (meta_node_key n) e (mv_nodes v)\<rparr>"
| "view_write (DeleteNode n) v = v\<lparr>mv_nodes := tdelete (meta_node_key n) (mv_nodes v)\<rparr>"
| "view_write (PutRetired n i) v = v\<lparr>mv_retired := (mv_retired v)(n \<mapsto> i)\<rparr>"
| "view_write (PutPlacement g p) v = v\<lparr>mv_placements := (mv_placements v)(g \<mapsto> p)\<rparr>"
| "view_write (PutIndex n r) v = v\<lparr>mv_indexes := tput (meta_search_index_key n) r (mv_indexes v)\<rparr>"
| "view_write (DeleteIndex n) v = v\<lparr>mv_indexes := tdelete (meta_search_index_key n) (mv_indexes v)\<rparr>"
| "view_write (PutReady k r) v = v\<lparr>mv_ready := tput k r (mv_ready v)\<rparr>"
| "view_write (DeleteReady k) v = v\<lparr>mv_ready := tdelete k (mv_ready v)\<rparr>"

definition view_writes :: "meta_write list \<Rightarrow> meta_view \<Rightarrow> meta_view" where
  "view_writes ws v = fold view_write ws v"

text \<open>The machine on views: a failed read (a catalog record that does not validate) stops it.\<close>

definition meta_step ::
  "('a meta_env_scheme) \<Rightarrow> meta_view \<Rightarrow> log_id \<times> meta_command \<Rightarrow> meta_view \<times> meta_apply_result result" where
  "meta_step E v = (\<lambda>(lid, cmd).
     case meta_evaluate E (view_reads v) cmd lid of
       Inr (r, ws) \<Rightarrow> (view_writes ws v, Ok r)
     | Inl e \<Rightarrow> (v, Err e))"

subsection \<open>Representation\<close>

definition meta_codecs_ok :: "('a meta_env_scheme) \<Rightarrow> bool" where
  "meta_codecs_ok E \<longleftrightarrow> search_codecs_ok E \<and> codec_ok (c_cluster E) \<and> codec_ok (c_node E) \<and> codec_ok (c_placement E)
     \<and> codec_ok (c_maintenance E) \<and> codec_ok (c_index E) \<and> codec_ok (c_ready E) \<and> codec_ok (c_identity E)"

abbreviation enc_all :: "'v codec \<Rightarrow> (bytes \<times> 'v) list \<Rightarrow> cf" where
  "enc_all c kvs \<equiv> map (\<lambda>kv. (fst kv, enc c (snd kv))) kvs"

definition ready_tag :: bytes where "ready_tag = [TAG_META, byte CHR ''s'']"

definition meta_rep :: "('a meta_env_scheme) \<Rightarrow> cf \<Rightarrow> meta_view \<Rightarrow> bool" where
  "meta_rep E cf v \<longleftrightarrow> cf_wf cf
     \<and> cf_get cf meta_cluster_key = map_option (enc (c_cluster E)) (mv_cluster v)
     \<and> cf_get cf meta_maintenance_key = map_option (enc (c_maintenance E)) (mv_maintenance v)
     \<and> cf_get cf recovery_epoch_key = map_option (enc (c_u128 E)) (mv_epoch v)
     \<and> (\<forall>g. cf_get cf (meta_placement_key g) = map_option (enc (c_placement E)) (mv_placements v g))
     \<and> (\<forall>n. cf_get cf (meta_retired_node_key n) = map_option (enc (c_u64 E)) (mv_retired v n))
     \<and> under meta_node_prefix cf = enc_all (c_node E) (mv_nodes v)
     \<and> under meta_search_index_prefix cf = enc_all (c_index E) (mv_indexes v)
     \<and> under ready_tag cf = enc_all (c_ready E) (mv_ready v)"

text \<open>A meta group on a store: its column family represents the view, and the node's identity is the view's.\<close>

definition meta_at :: "('a meta_env_scheme) \<Rightarrow> storage \<Rightarrow> string \<Rightarrow> cf \<Rightarrow> meta_view \<Rightarrow> bool" where
  "meta_at E st name cf v \<longleftrightarrow> state_cf E st Meta = Ok (name, cf) \<and> meta_rep E cf v
     \<and> get_local (c_identity E) st identity_key = Ok (mv_identity v)"

subsection \<open>Reads agree\<close>

lemma cf_get_under: "starts_with k p \<Longrightarrow> cf_get (under p cf) k = cf_get cf k"
  by (induction cf) (auto simp: cf_get_def under_def)

lemma map_of_enc_all: "map_of (enc_all c kvs) k = map_option (enc c) (map_of kvs k)"
  by (induction kvs) auto

lemma decode_all_enc_all: "codec_ok c \<Longrightarrow> decode_all c (enc_all c kvs) = Ok kvs"
  by (induction kvs) (auto simp: decode_all_def codec_ok_def)

lemma index_busy_enc_all:
  "codec_ok c \<Longrightarrow> index_busy c (enc_all c kvs) = Ok (list_ex (\<lambda>kv. index_in_progress (snd kv)) kvs)"
  by (induction kvs) (auto simp: codec_ok_def)

lemma get_state_at:
  "state_cf C st Meta = Ok (name, cf) \<Longrightarrow> codec_ok c \<Longrightarrow> cf_get cf k = map_option (enc c) x \<Longrightarrow>
   get_state_record C c st Meta k = Ok x"
  by (cases x) (auto simp: get_state_record_def get_state_def codec_ok_def)

lemma under_under: "starts_with p q \<Longrightarrow> under p (under q kvs) = under p kvs"
  unfolding under_def by (auto simp: starts_with_iff intro!: filter_cong)

lemma ready_prefix_tag: "starts_with (meta_search_ready_prefix name gen) ready_tag"
  by (simp add: meta_search_ready_prefix_def ready_tag_def starts_with_iff)

lemma under_enc_all: "under p (enc_all c kvs) = enc_all c (under p kvs)"
  by (induction kvs) (auto simp: under_def)

lemma ready_key_tag: "starts_with (meta_search_ready_key name gen g n) ready_tag"
  by (simp add: meta_search_ready_key_def meta_search_ready_prefix_def ready_tag_def starts_with_iff)

lemma node_key_tag: "starts_with (meta_node_key n) meta_node_prefix"
  by (simp add: meta_node_key_def meta_node_prefix_def starts_with_iff)

lemma index_key_tag: "starts_with (meta_search_index_key name) meta_search_index_prefix"
  by (simp add: meta_search_index_key_def meta_search_index_prefix_def starts_with_iff)

lemma get_enc_all:
  assumes "under p cf = enc_all c kvs" "starts_with k p"
  shows "cf_get cf k = map_option (enc c) (map_of kvs k)"
proof -
  have "cf_get cf k = cf_get (under p cf) k" by (rule cf_get_under [symmetric, OF assms(2)])
  also have "\<dots> = map_option (enc c) (map_of kvs k)" by (simp only: assms(1) cf_get_def map_of_enc_all)
  finally show ?thesis .
qed

theorem reads_agree:
  assumes "meta_at E st name cf v" "meta_codecs_ok E"
  shows "storage_reads E st = view_reads v"
proof -
  have st: "state_cf E st Meta = Ok (name, cf)" and rep: "meta_rep E cf v"
    and ident: "get_local (c_identity E) st identity_key = Ok (mv_identity v)"
    using assms(1) by (simp_all add: meta_at_def)
  have scan: "scan_prefix E st p = Ok (under p cf)" for p
    by (simp add: scan_prefix_def scan_state_def st under_def)
  have c: "codec_ok (c_cluster E)" "codec_ok (c_node E)" "codec_ok (c_placement E)" "codec_ok (c_maintenance E)"
    "codec_ok (c_index E)" "codec_ok (c_ready E)" "codec_ok (c_u64 E)" "codec_ok (c_u128 E)"
    using assms(2) by (simp_all add: meta_codecs_ok_def search_codecs_ok_def)
  have u: "under meta_node_prefix cf = enc_all (c_node E) (mv_nodes v)"
    "under meta_search_index_prefix cf = enc_all (c_index E) (mv_indexes v)"
    "under ready_tag cf = enc_all (c_ready E) (mv_ready v)"
    using rep by (simp_all add: meta_rep_def)
  have ready: "under (meta_search_ready_prefix nm gen) cf = enc_all (c_ready E) (under (meta_search_ready_prefix nm gen) (mv_ready v))"
    for nm gen
    using under_under [OF ready_prefix_tag, of nm gen cf] by (simp add: u(3) under_enc_all)
  note get = get_state_at [OF st]
  show ?thesis
    unfolding storage_reads_def view_reads_def
    using rep c
    by (simp add: get ident scan u(1,2) ready decode_all_enc_all index_busy_enc_all comp_def
        get_enc_all [OF u(1) node_key_tag] get_enc_all [OF u(2) index_key_tag] get_enc_all [OF u(3) ready_key_tag]
        meta_rep_def)
qed

subsection \<open>Writes agree\<close>

lemma under_put_in:
  assumes "cf_wf cf" "starts_with k p"
  shows "under p (cf_put k x cf) = cf_put k x (under p cf)"
proof (rule cf_ext)
  have wf: "cf_wf (under p d)" if "cf_wf d" for d
    using that by (simp add: under_def strictly_sorted_def sorted_wrt_filter)
  show "cf_wf (under p (cf_put k x cf))" "cf_wf (cf_put k x (under p cf))"
    using assms(1) by (simp_all add: wf cf_wf_put)
  have get: "cf_get (under p d) y = (if starts_with y p then cf_get d y else None)" for d y
    by (induction d) (auto simp: cf_get_def under_def)
  show "cf_get (under p (cf_put k x cf)) y = cf_get (cf_put k x (under p cf)) y" for y
    using assms by (simp add: get cf_get_put wf)
qed

lemma under_put_out: "cf_wf cf \<Longrightarrow> \<not> starts_with k p \<Longrightarrow> under p (cf_put k x cf) = under p cf"
  by (simp add: under_def filter_prefix_put)

lemma under_delete: "under p (cf_delete k cf) = cf_delete k (under p cf)"
  unfolding under_def cf_delete_def filter_filter by (rule filter_cong) auto

lemma under_delete_out: "\<not> starts_with k p \<Longrightarrow> under p (cf_delete k cf) = under p cf"
  unfolding under_def cf_delete_def filter_filter by (rule filter_cong) auto

lemma sorted_enc_all: "cf_wf (enc_all c kvs) \<longleftrightarrow> strictly_sorted fst kvs"
  by (simp add: strictly_sorted_def sorted_wrt_map)

lemma enc_all_tput:
  assumes "strictly_sorted fst kvs"
  shows "enc_all c (tput k x kvs) = cf_put k (enc c x) (enc_all c kvs)"
proof (rule cf_ext)
  show wf: "cf_wf (enc_all c (tput k x kvs))" "cf_wf (cf_put k (enc c x) (enc_all c kvs))"
    using assms by (simp_all add: sorted_enc_all strictly_sorted_upsert cf_wf_put)
  show "cf_get (enc_all c (tput k x kvs)) y = cf_get (cf_put k (enc c x) (enc_all c kvs)) y" for y
    using assms by (simp add: cf_get_put sorted_enc_all) (simp add: cf_get_def map_of_enc_all map_of_upsert)
qed

lemma enc_all_tdelete: "enc_all c (tdelete k kvs) = cf_delete k (enc_all c kvs)"
  by (induction kvs) (auto simp: cf_delete_def)

lemma rep_sorted:
  assumes "meta_rep E cf v"
  shows "strictly_sorted fst (mv_nodes v)" "strictly_sorted fst (mv_indexes v)" "strictly_sorted fst (mv_ready v)"
proof -
  have wf: "cf_wf (under p cf)" for p
    using assms by (simp add: meta_rep_def under_def strictly_sorted_def sorted_wrt_filter)
  have "under meta_node_prefix cf = enc_all (c_node E) (mv_nodes v)"
    "under meta_search_index_prefix cf = enc_all (c_index E) (mv_indexes v)"
    "under ready_tag cf = enc_all (c_ready E) (mv_ready v)"
    using assms by (simp_all add: meta_rep_def)
  with wf [of meta_node_prefix] wf [of meta_search_index_prefix] wf [of ready_tag]
  show "strictly_sorted fst (mv_nodes v)" "strictly_sorted fst (mv_indexes v)" "strictly_sorted fst (mv_ready v)"
    by (simp_all only: sorted_enc_all)
qed

text \<open>The keys of the meta group carry their kind in the second byte.\<close>

lemma meta_key_kinds [key_simps]:
  "\<not> starts_with meta_cluster_key meta_node_prefix" "\<not> starts_with meta_cluster_key meta_search_index_prefix"
  "\<not> starts_with meta_cluster_key ready_tag" "\<not> starts_with meta_maintenance_key meta_node_prefix"
  "\<not> starts_with meta_maintenance_key meta_search_index_prefix" "\<not> starts_with meta_maintenance_key ready_tag"
  "\<not> starts_with (meta_placement_key g) meta_node_prefix" "\<not> starts_with (meta_placement_key g) meta_search_index_prefix"
  "\<not> starts_with (meta_placement_key g) ready_tag" "\<not> starts_with (meta_retired_node_key n) meta_node_prefix"
  "\<not> starts_with (meta_retired_node_key n) meta_search_index_prefix" "\<not> starts_with (meta_retired_node_key n) ready_tag"
  by (simp_all add: starts_with_iff state_key_defs meta_node_prefix_def ready_tag_def key_simps)

lemma meta_tag_kinds:
  "starts_with k meta_node_prefix \<Longrightarrow> \<not> starts_with k meta_search_index_prefix"
  "starts_with k meta_node_prefix \<Longrightarrow> \<not> starts_with k ready_tag"
  "starts_with k meta_search_index_prefix \<Longrightarrow> \<not> starts_with k meta_node_prefix"
  "starts_with k meta_search_index_prefix \<Longrightarrow> \<not> starts_with k ready_tag"
  "starts_with k ready_tag \<Longrightarrow> \<not> starts_with k meta_node_prefix"
  "starts_with k ready_tag \<Longrightarrow> \<not> starts_with k meta_search_index_prefix"
  by (auto simp: starts_with_iff meta_search_index_prefix_def meta_node_prefix_def ready_tag_def key_simps)

text \<open>Point-read keys, and which keys no scanned kind contains.\<close>

definition point_key :: "bytes \<Rightarrow> bool" where
  "point_key k \<longleftrightarrow> k = meta_cluster_key \<or> k = meta_maintenance_key \<or> k = recovery_epoch_key
     \<or> (\<exists>g. k = meta_placement_key g) \<or> (\<exists>n. k = meta_retired_node_key n)"

lemma point_key_apart:
  "point_key k \<Longrightarrow> \<not> starts_with k meta_node_prefix" "point_key k \<Longrightarrow> \<not> starts_with k meta_search_index_prefix"
  "point_key k \<Longrightarrow> \<not> starts_with k ready_tag"
proof -
  have "\<not> starts_with recovery_epoch_key meta_node_prefix" "\<not> starts_with recovery_epoch_key meta_search_index_prefix"
    "\<not> starts_with recovery_epoch_key ready_tag"
    by (simp_all add: starts_with_iff recovery_epoch_key_def meta_node_prefix_def meta_search_index_prefix_def ready_tag_def key_simps)
  then show "point_key k \<Longrightarrow> \<not> starts_with k meta_node_prefix" "point_key k \<Longrightarrow> \<not> starts_with k meta_search_index_prefix"
    "point_key k \<Longrightarrow> \<not> starts_with k ready_tag"
    by (auto simp: point_key_def key_simps)
qed

lemma point_keys_distinct [key_simps]:
  "meta_cluster_key \<noteq> meta_maintenance_key" "meta_cluster_key \<noteq> recovery_epoch_key"
  "meta_maintenance_key \<noteq> meta_cluster_key" "meta_maintenance_key \<noteq> recovery_epoch_key"
  "recovery_epoch_key \<noteq> meta_cluster_key" "recovery_epoch_key \<noteq> meta_maintenance_key"
  "meta_placement_key g \<noteq> meta_cluster_key" "meta_placement_key g \<noteq> meta_maintenance_key"
  "meta_placement_key g \<noteq> recovery_epoch_key" "meta_placement_key g \<noteq> meta_retired_node_key n"
  "meta_cluster_key \<noteq> meta_placement_key g" "meta_maintenance_key \<noteq> meta_placement_key g"
  "recovery_epoch_key \<noteq> meta_placement_key g" "meta_retired_node_key n \<noteq> meta_placement_key g"
  "meta_retired_node_key n \<noteq> meta_cluster_key" "meta_retired_node_key n \<noteq> meta_maintenance_key"
  "meta_retired_node_key n \<noteq> recovery_epoch_key" "meta_cluster_key \<noteq> meta_retired_node_key n"
  "meta_maintenance_key \<noteq> meta_retired_node_key n" "recovery_epoch_key \<noteq> meta_retired_node_key n"
  "meta_placement_key g = meta_placement_key h \<longleftrightarrow> g = h" "meta_retired_node_key n = meta_retired_node_key m \<longleftrightarrow> n = m"
  by (simp_all add: state_key_defs key_simps)

text \<open>A write outside a kind's prefix leaves that kind alone; a write at a scanned key leaves the point reads alone.\<close>

lemma point_get_scanned:
  assumes "starts_with k p" "p \<in> {meta_node_prefix, meta_search_index_prefix, ready_tag}" "point_key q" "cf_wf cf"
  shows "cf_get (cf_put k x cf) q = cf_get cf q" "cf_get (cf_delete k cf) q = cf_get cf q"
proof -
  have "q \<noteq> k" using assms(1-3) point_key_apart by auto
  then show "cf_get (cf_put k x cf) q = cf_get cf q" "cf_get (cf_delete k cf) q = cf_get cf q"
    using assms(4) by (simp_all add: cf_get_put cf_get_delete)
qed

lemma point_keys [simp]:
  "point_key meta_cluster_key" "point_key meta_maintenance_key" "point_key recovery_epoch_key"
  "point_key (meta_placement_key g)" "point_key (meta_retired_node_key n)"
  by (auto simp: point_key_def)

definition ready_write :: "meta_write \<Rightarrow> bool" where
  "ready_write w = (case w of PutReady k _ \<Rightarrow> starts_with k ready_tag | DeleteReady k \<Rightarrow> starts_with k ready_tag | _ \<Rightarrow> True)"

lemma write_rep:
  assumes rep: "meta_rep E cf v" and "ready_write w"
  shows "meta_rep E (mutate cf_put cf_delete (mutation_of E w) cf) (view_write w v)"
proof -
  have wf: "cf_wf cf" using rep by (simp add: meta_rep_def)
  note scanned = cf_wf_put cf_wf_delete under_put_in under_put_out under_delete_out
    enc_all_tput enc_all_tdelete rep_sorted [OF rep]
  note node = node_key_tag meta_tag_kinds(1,2) [OF node_key_tag] point_get_scanned [OF node_key_tag _ _ wf, simplified]
  note index = index_key_tag meta_tag_kinds(3,4) [OF index_key_tag] point_get_scanned [OF index_key_tag _ _ wf, simplified]
  show ?thesis
  proof (cases w)
    case (PutNode n e)
    with rep wf show ?thesis by (simp add: meta_rep_def scanned node)
  next
    case (DeleteNode n)
    with rep wf show ?thesis by (simp add: meta_rep_def scanned under_delete [of meta_node_prefix] node)
  next
    case (PutIndex n r)
    with rep wf show ?thesis by (simp add: meta_rep_def scanned index)
  next
    case (DeleteIndex n)
    with rep wf show ?thesis by (simp add: meta_rep_def scanned under_delete [of meta_search_index_prefix] index)
  next
    case (PutReady k r)
    then have k: "starts_with k ready_tag" using assms(2) by (simp add: ready_write_def)
    with rep wf PutReady show ?thesis
      by (simp add: meta_rep_def scanned meta_tag_kinds(5,6) [OF k] point_get_scanned [OF k _ _ wf])
  next
    case (DeleteReady k)
    then have k: "starts_with k ready_tag" using assms(2) by (simp add: ready_write_def)
    with rep wf DeleteReady show ?thesis
      by (simp add: meta_rep_def scanned under_delete [of ready_tag] meta_tag_kinds(5,6) [OF k] point_get_scanned [OF k _ _ wf])
  qed (use rep wf in \<open>simp_all add: meta_rep_def scanned point_key_apart cf_get_put key_simps\<close>)
qed

end
