(* ===== verification/Meta_Steps.thy ===== *)
theory Meta_Steps
  imports Meta_Refine
begin

section \<open>The transitions of the meta state machine\<close>

text \<open>
  The step relation of the meta group: one rule per transition that changes state, with the
  guards the handler has established when it writes.  \<open>meta_evaluate_cases\<close> shows that every
  accepted command takes one of these steps and that every other answer writes nothing, so
  that invariants are proved by cases over the rules.
\<close>

lemma view_reads_simps [simp]:
  "rd_cluster (view_reads v) = Ok (mv_cluster v)"
  "rd_node (view_reads v) n = Ok (map_of (mv_nodes v) (meta_node_key n))"
  "rd_maintenance (view_reads v) = Ok (mv_maintenance v)"
  "rd_placement (view_reads v) g = Ok (mv_placements v g)"
  "rd_retired (view_reads v) n = Ok (mv_retired v n)"
  "rd_directory (view_reads v) = Ok (map snd (mv_nodes v))"
  "rd_epoch (view_reads v) = Ok (case mv_epoch v of Some x \<Rightarrow> x | None \<Rightarrow> 0)"
  "rd_identity (view_reads v) = Ok (mv_identity v)"
  "rd_index (view_reads v) name = Ok (map_of (mv_indexes v) (meta_search_index_key name))"
  "rd_index_busy (view_reads v) = Ok (list_ex (\<lambda>kv. index_in_progress (snd kv)) (mv_indexes v))"
  "rd_index_count (view_reads v) = Ok (length (mv_indexes v))"
  "rd_ready (view_reads v) name gen g n = Ok (map_of (mv_ready v) (meta_search_ready_key name gen g n))"
  "rd_readiness (view_reads v) name gen = Ok (under (meta_search_ready_prefix name gen) (mv_ready v))"
  "rd_ready_keys (view_reads v) name gen = Ok (map fst (under (meta_search_ready_prefix name gen) (mv_ready v)))"
  by (simp_all add: view_reads_def)

abbreviation node_of :: "meta_view \<Rightarrow> node_id \<Rightarrow> node_directory_entry option" where
  "node_of v n \<equiv> map_of (mv_nodes v) (meta_node_key n)"

abbreviation index_of :: "meta_view \<Rightarrow> string \<Rightarrow> search_index_record option" where
  "index_of v name \<equiv> map_of (mv_indexes v) (meta_search_index_key name)"

definition active_node :: "meta_view \<Rightarrow> node_id \<Rightarrow> bool" where
  "active_node v n \<longleftrightarrow> (\<exists>e. node_of v n = Some e \<and> nd_state e = Active)"

definition view_epoch :: "meta_view \<Rightarrow> u128" where
  "view_epoch v = (case mv_epoch v of Some x \<Rightarrow> x | None \<Rightarrow> 0)"

text \<open>No two nodes share an endpoint, on either lane.\<close>

definition endpoints_clash :: "string \<Rightarrow> string \<Rightarrow> node_directory_entry \<Rightarrow> bool" where
  "endpoints_clash c b other \<longleftrightarrow> nd_control_addr other = c \<or> nd_bulk_addr other = c
     \<or> nd_control_addr other = b \<or> nd_bulk_addr other = b"

definition endpoints_ok :: "string \<Rightarrow> string \<Rightarrow> bool" where
  "endpoints_ok c b \<longleftrightarrow> c \<noteq> [] \<and> b \<noteq> [] \<and> length c \<le> MAX_ENDPOINT_BYTES \<and> length b \<le> MAX_ENDPOINT_BYTES \<and> c \<noteq> b"

definition endpoints_free :: "meta_view \<Rightarrow> node_id \<Rightarrow> string \<Rightarrow> string \<Rightarrow> bool" where
  "endpoints_free v n c b \<longleftrightarrow> (\<forall>other \<in> snd ` set (mv_nodes v). nd_node_id other \<noteq> n \<longrightarrow> \<not> endpoints_clash c b other)"

text \<open>A maintenance record that belongs to the named operation.\<close>

definition operation :: "meta_view \<Rightarrow> u128 \<Rightarrow> u64 \<Rightarrow> maintenance_record \<Rightarrow> bool" where
  "operation v oid gen r \<longleftrightarrow> mv_maintenance v = Some r \<and> mr_operation_id r = oid \<and> mr_generation r = gen"

definition legal_data_target :: "cluster_config \<Rightarrow> node_id set \<Rightarrow> node_id set \<Rightarrow> bool" where
  "legal_data_target c current target \<longleftrightarrow>
     card target = unat (cc_r c) \<and> card (target - current) = 1 \<and> card (current - target) = 1"

definition legal_meta_target :: "node_id set \<Rightarrow> node_id set \<Rightarrow> bool" where
  "legal_meta_target current target \<longleftrightarrow> 3 \<le> card target \<and> card (current - target) = 1
     \<and> (card (target - current) = 1 \<and> card target = card current
        \<or> card (target - current) = 0 \<and> card target + 1 = card current)"

definition voters_ready ::
  "meta_view \<Rightarrow> string \<Rightarrow> search_index_generation \<Rightarrow> group_id \<Rightarrow> placement \<Rightarrow> bool" where
  "voters_ready v name b g pl \<longleftrightarrow>
     (\<forall>n \<in> set (pl_voters pl). \<exists>kr \<in> set (under (meta_search_ready_prefix name (sg_id b)) (mv_ready v)).
        ready_for b (sg_id b) g pl n kr)"

definition creates_index :: "meta_command \<Rightarrow> bool \<Rightarrow> string \<Rightarrow> search_index_definition \<Rightarrow> bool" where
  "creates_index cmd update name d \<longleftrightarrow>
     (if update then cmd = CreateSearchIndexGeneration name d \<or> (\<exists>er. cmd = CreateSearchIndexGenerationWithRevision name d er)
      else cmd = CreateSearchIndex name d \<or> (\<exists>er. cmd = CreateSearchIndexWithRevision name d er))"

text \<open>The nodes that can host replicas, the process a participant last recovered with, and the order of readiness reports.\<close>

definition active_count :: "meta_view \<Rightarrow> nat" where
  "active_count v = length (filter (\<lambda>e. nd_state e = Active) (map snd (mv_nodes v)))"

definition recorded_process :: "maintenance_record \<Rightarrow> node_id \<Rightarrow> u64 option" where
  "recorded_process r n =
     (case binary_search_by_key fst (mr_recovery_processes r) n of
        Inr i \<Rightarrow> Some (snd (mr_recovery_processes r ! i)) | Inl _ \<Rightarrow> None)"

definition not_older :: "search_index_ready \<Rightarrow> search_index_ready \<Rightarrow> bool" where
  "not_older prev ob \<longleftrightarrow> ry_projection_epoch prev < ry_projection_epoch ob
     \<or> ry_projection_epoch prev = ry_projection_epoch ob
       \<and> li_index (ry_source_log_id prev) \<le> li_index (ry_source_log_id ob)"

inductive meta_change ::
  "('a meta_env_scheme) \<Rightarrow> meta_view \<Rightarrow> log_id \<Rightarrow> meta_command \<Rightarrow> meta_write list \<Rightarrow> bool"
  for E :: "'a meta_env_scheme" and v :: meta_view and lid :: log_id where
  init: "mv_cluster v = None \<Longrightarrow> mv_identity v = Some i \<Longrightarrow> cc_cluster_id c = id_cluster_id i \<Longrightarrow>
    cc_protocol_version c = PROTOCOL_VERSION \<Longrightarrow> 3 \<le> unat (cc_r c) \<Longrightarrow> cc_p c \<noteq> 0 \<Longrightarrow>
    validate_routing_shape (cc_p c) (cc_r c) = Ok () \<Longrightarrow> distinct vs \<Longrightarrow> 3 \<le> length vs \<Longrightarrow> odd (length vs) \<Longrightarrow>
    length vs \<le> MAX_CLUSTER_NODES \<Longrightarrow>
    meta_change E v lid (ClusterInit c vs) [PutCluster c,
      PutPlacement Meta \<lparr>pl_voters = voters_in_order vs, pl_voters_log_id = lid, pl_move = None\<rparr>]"
| register_new: "mv_cluster v \<noteq> None \<Longrightarrow> n \<noteq> 0 \<Longrightarrow> endpoints_ok c b \<Longrightarrow> mv_retired v n = None \<Longrightarrow>
    endpoints_free v n c b \<Longrightarrow> node_of v n = None \<Longrightarrow>
    length (mv_nodes v) < MAX_CLUSTER_NODES \<or> n \<in> nd_node_id ` snd ` set (mv_nodes v) \<Longrightarrow>
    meta_change E v lid (RegisterNode n c b)
      [PutNode n \<lparr>nd_node_id = n, nd_control_addr = c, nd_bulk_addr = b, nd_state = Active, nd_incarnation = 1\<rparr>]"
| rejoin: "mv_cluster v \<noteq> None \<Longrightarrow> n \<noteq> 0 \<Longrightarrow> endpoints_ok c b \<Longrightarrow> mv_retired v n = None \<Longrightarrow>
    endpoints_free v n c b \<Longrightarrow> node_of v n = Some e \<Longrightarrow>
    nd_control_addr e = c \<and> nd_bulk_addr e = b \<and> nd_state e = Down \<and> e' = e\<lparr>nd_state := Active, nd_incarnation := inc\<rparr>
    \<or> \<not> (nd_control_addr e = c \<and> nd_bulk_addr e = b)
      \<and> e' = \<lparr>nd_node_id = n, nd_control_addr = c, nd_bulk_addr = b, nd_state = Active, nd_incarnation = inc\<rparr> \<Longrightarrow>
    checked_add1 (nd_incarnation e) = Some inc \<Longrightarrow>
    meta_change E v lid (RegisterNode n c b) [PutNode n e']"
| set_state: "node_of v n = Some e \<Longrightarrow> nd_incarnation e = inc \<Longrightarrow> nd_state e \<noteq> st \<Longrightarrow>
    nd_state e = Down \<longrightarrow> st = Draining \<Longrightarrow> nd_state e \<noteq> Draining \<Longrightarrow>
    meta_change E v lid (SetNodeState n st inc) [PutNode n (e\<lparr>nd_state := st\<rparr>)]"
| retire: "mv_retired v n = None \<Longrightarrow> node_of v n = Some e \<Longrightarrow> nd_incarnation e = inc \<Longrightarrow> nd_state e = Draining \<Longrightarrow>
    mv_cluster v = Some c \<Longrightarrow>
    \<forall>g \<in> set (all_groups c). \<exists>pl. mv_placements v g = Some pl \<and> \<not> references_node pl n \<Longrightarrow>
    meta_change E v lid (RetireNode n inc) [PutRetired n inc, DeleteNode n]"
| seed: "mv_cluster v = Some c \<Longrightarrow> p < cc_p c \<Longrightarrow> distinct vs \<Longrightarrow> length vs = unat (cc_r c) \<Longrightarrow>
    \<forall>n \<in> set vs. active_node v n \<Longrightarrow> mv_placements v (Data p) = None \<Longrightarrow>
    meta_change E v lid (SeedPlacement (Data p) vs)
      [PutPlacement (Data p) \<lparr>pl_voters = voters_in_order vs, pl_voters_log_id = lid, pl_move = None\<rparr>]"
| plan: "mv_cluster v = Some c \<Longrightarrow> mv_placements v g = Some pl \<Longrightarrow> pl_move pl = None \<Longrightarrow> distinct ts \<Longrightarrow>
    case g of Data _ \<Rightarrow> legal_data_target c (voter_set (pl_voters pl)) (voter_set ts)
      | Meta \<Rightarrow> legal_meta_target (voter_set (pl_voters pl)) (voter_set ts) \<Longrightarrow>
    \<forall>n \<in> voter_set ts - voter_set (pl_voters pl). active_node v n \<Longrightarrow>
    g \<noteq> Meta \<longrightarrow> unat (cc_r c) \<le> active_count v \<Longrightarrow>
    meta_change E v lid (CreatePlan g pid ts)
      [PutPlacement g (pl\<lparr>pl_move := Some \<lparr>mp_plan_id = li_index lid, mp_target_voters = voters_in_order ts,
         mp_aborting = False\<rparr>\<rparr>)]"
| abort_mark: "mv_placements v g = Some pl \<Longrightarrow> pl_move pl = Some m \<Longrightarrow> mp_plan_id m = pid \<Longrightarrow> \<not> mp_aborting m \<Longrightarrow>
    meta_change E v lid (MarkAborting g pid) [PutPlacement g (pl\<lparr>pl_move := Some (m\<lparr>mp_aborting := True\<rparr>)\<rparr>)]"
| finalize: "mv_placements v g = Some pl \<Longrightarrow> pl_move pl = Some m \<Longrightarrow> mp_plan_id m = pid \<Longrightarrow> \<not> mp_aborting m \<Longrightarrow>
    do_group ob = g \<Longrightarrow> do_plan_id ob = pid \<Longrightarrow> voter_set (do_voter_set ob) = voter_set (mp_target_voters m) \<Longrightarrow>
    meta_change E v lid (FinalizePlan g pid ob)
      [PutPlacement g \<lparr>pl_voters = sort (mp_target_voters m), pl_voters_log_id = do_config_log_id ob, pl_move = None\<rparr>]"
| aborted: "mv_placements v g = Some pl \<Longrightarrow> pl_move pl = Some m \<Longrightarrow> mp_plan_id m = pid \<Longrightarrow> mp_aborting m \<Longrightarrow>
    do_group ob = g \<Longrightarrow> do_plan_id ob = pid \<Longrightarrow> vs = pl_voters pl \<or> vs = mp_target_voters m \<Longrightarrow>
    voter_set (do_voter_set ob) = voter_set vs \<Longrightarrow>
    meta_change E v lid (AbortReport g pid ob)
      [PutPlacement g \<lparr>pl_voters = sort vs, pl_voters_log_id = do_config_log_id ob, pl_move = None\<rparr>]"
| build: "mv_cluster v \<noteq> None \<Longrightarrow> validate_index_name name = Ok () \<Longrightarrow>
    index_of v name = None \<and> length (mv_indexes v) < SEARCH_MAX_INDEXES
      \<and> old = \<lparr>sr_name = name, sr_active = None, sr_building = None, sr_retiring = []\<rparr>
    \<or> index_of v name = Some old \<and> sr_active old \<noteq> None \<Longrightarrow>
    sr_building old = None \<Longrightarrow> sg_id gen = li_index lid \<Longrightarrow> creates_index cmd (index_of v name \<noteq> None) name (sg_definition gen) \<Longrightarrow>
    valid_record E (old\<lparr>sr_building := Some gen\<rparr>) = Ok () \<Longrightarrow>
    index_of v name \<noteq> None \<longrightarrow> length (sr_retiring old) < SEARCH_MAX_RETIRING_GENERATIONS \<Longrightarrow>
    meta_change E v lid cmd [PutIndex name (old\<lparr>sr_building := Some gen\<rparr>)]"
| ready: "index_of v name = Some r \<Longrightarrow> sr_building r = Some b \<Longrightarrow> ry_generation ob = sg_id b \<Longrightarrow>
    ry_definition_hash ob = sg_definition_hash b \<Longrightarrow> ry_engine_revision ob = sg_engine_revision b \<Longrightarrow>
    ry_group ob = Data p \<Longrightarrow> mv_cluster v = Some c \<Longrightarrow> p < cc_p c \<Longrightarrow> mv_placements v (Data p) = Some pl \<Longrightarrow>
    pl_move pl = None \<Longrightarrow> pl_voters_log_id pl = ry_voters_log_id ob \<Longrightarrow> ry_node_id ob \<in> set (pl_voters pl) \<Longrightarrow>
    ry_projection_epoch ob \<noteq> 0 \<Longrightarrow>
    \<forall>prev. map_of (mv_ready v) (meta_search_ready_key name (sg_id b) (Data p) (ry_node_id ob)) = Some prev \<longrightarrow>
      prev \<noteq> ob \<and> not_older prev ob \<Longrightarrow>
    meta_change E v lid (ReportSearchIndexReady name ob)
      [PutReady (meta_search_ready_key name (sg_id b) (Data p) (ry_node_id ob)) ob]"
| activate: "index_of v name = Some r \<Longrightarrow> sr_building r = Some b \<Longrightarrow> sg_id b = gen \<Longrightarrow> mv_cluster v = Some c \<Longrightarrow>
    \<forall>g \<in> set (data_groups c). \<exists>pl. mv_placements v g = Some pl \<and> pl_move pl = None \<and> voters_ready v name b g pl \<Longrightarrow>
    r' = r\<lparr>sr_active := Some b, sr_building := None, sr_retiring := ret\<rparr> \<Longrightarrow>
    set ret = set (sr_retiring r) \<union> sg_id ` set_option (sr_active r) \<Longrightarrow>
    valid_record E r' = Ok () \<Longrightarrow>
    meta_change E v lid (ActivateSearchIndexGeneration name gen)
      (PutIndex name r' # map (\<lambda>kr. DeleteReady (fst kr)) (under (meta_search_ready_prefix name gen) (mv_ready v)))"
| drop_index: "index_of v name = Some r \<Longrightarrow> sr_active r \<noteq> None \<or> sr_building r \<noteq> None \<Longrightarrow>
    r' = r\<lparr>sr_active := None, sr_building := None, sr_retiring := ret\<rparr> \<Longrightarrow>
    set ret = set (sr_retiring r) \<union> sg_id ` (set_option (sr_active r) \<union> set_option (sr_building r)) \<Longrightarrow>
    valid_record E r' = Ok () \<Longrightarrow>
    keys = (case sr_building r of Some b \<Rightarrow> map fst (under (meta_search_ready_prefix name (sg_id b)) (mv_ready v)) | None \<Rightarrow> []) \<Longrightarrow>
    meta_change E v lid (DropSearchIndex name) (PutIndex name r' # map DeleteReady keys)"
| drop_done: "index_of v name = Some r \<Longrightarrow> gen \<in> set (sr_retiring r) \<Longrightarrow>
    r' = r\<lparr>sr_retiring := filter (\<lambda>i. i \<noteq> gen) (sr_retiring r)\<rparr> \<Longrightarrow>
    ws = (if sr_active r = None \<and> sr_building r = None \<and> sr_retiring r' = [] then [DeleteIndex name] else [PutIndex name r']) \<Longrightarrow>
    valid_record E r = Ok () \<Longrightarrow>
    meta_change E v lid (FinalizeSearchIndexDrop name gen) ws"
| begin_op: "mv_cluster v = Some c \<Longrightarrow> oid \<noteq> 0 \<Longrightarrow>
    ps = sorted_list_of_set (nd_node_id ` {e \<in> snd ` set (mv_nodes v). nd_state e = Active}) \<Longrightarrow> ps \<noteq> [] \<Longrightarrow>
    \<forall>g \<in> set (all_groups c). \<exists>pl. mv_placements v g = Some pl \<and> pl_move pl = None \<and> set (pl_voters pl) \<subseteq> set ps \<Longrightarrow>
    \<forall>r \<in> snd ` set (mv_indexes v). \<not> index_in_progress r \<Longrightarrow>
    case mv_maintenance v of None \<Rightarrow> gen = 1
      | Some prev \<Rightarrow> mr_stage prev = Released \<and> mr_operation_id prev \<noteq> oid \<and> checked_add1 (mr_generation prev) = Some gen \<Longrightarrow>
    meta_change E v lid (BeginMaintenance oid gen ps)
      [PutMaintenance \<lparr>mr_operation_id = oid, mr_generation = gen, mr_participants = ps, mr_acknowledged = [],
         mr_recovered = [], mr_recovery_processes = [], mr_recovery_policy_digests = [],
         mr_verification_policy_digest = None, mr_verification_recovery_epoch = None, mr_stage = Preparing\<rparr>]"
| release: "operation v oid gen r \<Longrightarrow>
    mr_stage r = Preparing
    \<or> mr_stage r = Verifying \<and> mr_recovered r = mr_participants r \<and> map fst (mr_recovery_processes r) = mr_participants r
      \<and> mr_verification_policy_digest r = Some pd \<and> mr_verification_recovery_epoch r = Some (view_epoch v)
      \<and> mr_recovery_processes r = procs \<and> map fst incs = mr_participants r
      \<and> (\<forall>(n, inc) \<in> set incs. \<exists>e. node_of v n = Some e \<and> nd_state e = Active \<and> nd_incarnation e = inc) \<Longrightarrow>
    meta_change E v lid (ReleaseMaintenance oid gen procs incs pd) [PutMaintenance (r\<lparr>mr_stage := Released\<rparr>)]"
| acknowledge: "operation v oid gen r \<Longrightarrow> mr_stage r = Preparing \<Longrightarrow> \<not> is_err (binary_search (mr_participants r) n) \<Longrightarrow>
    node_of v n = Some e \<Longrightarrow> nd_incarnation e = inc \<Longrightarrow> nd_state e = Active \<Longrightarrow>
    binary_search (mr_acknowledged r) n = Inl i \<Longrightarrow>
    meta_change E v lid (AcknowledgeMaintenance oid gen n inc)
      [PutMaintenance (r\<lparr>mr_acknowledged := vec_insert (mr_acknowledged r) i n\<rparr>)]"
| quiesce: "operation v oid gen r \<Longrightarrow> mr_stage r = Preparing \<Longrightarrow> mr_acknowledged r = mr_participants r \<Longrightarrow>
    meta_change E v lid (QuiesceMaintenance oid gen) [PutMaintenance (r\<lparr>mr_stage := Quiesced\<rparr>)]"
| verify: "operation v oid gen r \<Longrightarrow> mr_stage r = Quiesced \<Longrightarrow>
    meta_change E v lid (EnterMaintenanceVerification oid gen)
      [PutMaintenance (r\<lparr>mr_stage := Verifying, mr_recovered := [], mr_recovery_processes := [],
         mr_recovery_policy_digests := [], mr_verification_policy_digest := None,
         mr_verification_recovery_epoch := None\<rparr>)]"
| recovered: "operation v oid gen r \<Longrightarrow> mr_stage r = Verifying \<Longrightarrow> \<not> is_err (binary_search (mr_participants r) n) \<Longrightarrow>
    node_of v n = Some e \<Longrightarrow> nd_incarnation e = inc \<Longrightarrow> nd_state e = Active \<Longrightarrow> pinc \<noteq> 0 \<Longrightarrow> pd \<noteq> replicate 32 0 \<Longrightarrow>
    ep = view_epoch v \<Longrightarrow> mv_cluster v = Some c \<Longrightarrow>
    recovery_topology (view_reads v) n (all_groups c) = Ok (Inr expected) \<Longrightarrow>
    td = maintenance_topology_digest (sha256 E) expected \<Longrightarrow>
    \<forall>prev. recorded_process r n = Some prev \<longrightarrow>
      prev \<le> pinc \<and> (pinc = prev \<longrightarrow> is_err (binary_search (mr_recovered r) n)) \<Longrightarrow>
    meta_change E v lid (AcknowledgeMaintenanceRecovery oid gen n inc pinc td pd ep)
      [PutMaintenance (confirm_recovery r n pinc pd ep)]"

subsection \<open>Loops on a view\<close>

lemma check_groups_view:
  "\<exists>x. check_groups (view_reads v) missing check gs = Ok x
     \<and> (x = None \<longleftrightarrow> (\<forall>g \<in> set gs. \<exists>pl. mv_placements v g = Some pl \<and> check g pl = None))"
  by (induction gs) (auto split: option.split)

lemma check_groups_None:
  "check_groups (view_reads v) missing check gs = Ok None \<Longrightarrow>
   \<forall>g \<in> set gs. \<exists>pl. mv_placements v g = Some pl \<and> check g pl = None"
  using check_groups_view [of v missing check gs] by auto

lemma live_mismatch_view:
  "live_mismatch (view_reads v) (zip ps incs) = Ok False \<Longrightarrow> length incs = length ps \<Longrightarrow>
   map fst incs = ps \<and> (\<forall>(n, inc) \<in> set incs. \<exists>e. node_of v n = Some e \<and> nd_state e = Active \<and> nd_incarnation e = inc)"
proof (induction ps arbitrary: incs)
  case (Cons p ps)
  then obtain n inc incs' where "incs = (n, inc) # incs'" by (cases incs) auto
  with Cons show ?case by (auto split: if_splits option.splits)
qed simp

lemma all_active_view: "all_active (view_reads v) ns = Ok (\<forall>n \<in> set ns. active_node v n)"
  by (induction ns) (auto simp: is_active_def active_node_def split: option.split)


subsection \<open>Every accepted command is a transition\<close>

text \<open>An outcome conforms when it is an error, an answer without writes, or a transition.\<close>

definition conforms ::
  "('a meta_env_scheme) \<Rightarrow> meta_view \<Rightarrow> log_id \<Rightarrow> meta_command \<Rightarrow> meta_outcome \<Rightarrow> bool" where
  "conforms E v lid cmd out \<longleftrightarrow>
     (case out of Inl _ \<Rightarrow> True
      | Inr (r, ws) \<Rightarrow> if r = MApplied then meta_change E v lid cmd ws else ws = [])"

lemma conforms_simps [simp]:
  "conforms E v lid cmd (Err e)" "conforms E v lid cmd (reject r)" "conforms E v lid cmd no_op"
  "conforms E v lid cmd (applied ws) \<longleftrightarrow> meta_change E v lid cmd ws"
  by (simp_all add: conforms_def)

lemma conforms_rbind: "(\<And>x. m = Ok x \<Longrightarrow> conforms E v lid cmd (f x)) \<Longrightarrow> conforms E v lid cmd (rbind m f)"
  by (cases m) auto

lemma conforms_option:
  "(x = None \<Longrightarrow> conforms E v lid cmd a) \<Longrightarrow> (\<And>y. x = Some y \<Longrightarrow> conforms E v lid cmd (f y)) \<Longrightarrow>
   conforms E v lid cmd (case x of None \<Rightarrow> a | Some y \<Rightarrow> f y)"
  by (cases x) auto

lemma conforms_if:
  "(b \<Longrightarrow> conforms E v lid cmd x) \<Longrightarrow> (\<not> b \<Longrightarrow> conforms E v lid cmd y) \<Longrightarrow> conforms E v lid cmd (if b then x else y)"
  by simp

lemma conforms_sum:
  "(\<And>a. x = Inl a \<Longrightarrow> conforms E v lid cmd (f a)) \<Longrightarrow> (\<And>b. x = Inr b \<Longrightarrow> conforms E v lid cmd (g b)) \<Longrightarrow>
   conforms E v lid cmd (case x of Inl a \<Rightarrow> f a | Inr b \<Rightarrow> g b)"
  by (cases x) auto

lemma conforms_group:
  "(g = Meta \<Longrightarrow> conforms E v lid cmd a) \<Longrightarrow> (\<And>p. g = Data p \<Longrightarrow> conforms E v lid cmd (f p)) \<Longrightarrow>
   conforms E v lid cmd (case g of Meta \<Rightarrow> a | Data p \<Rightarrow> f p)"
  by (cases g) auto

lemmas conforms_intros = conforms_rbind conforms_option conforms_if conforms_sum conforms_group

lemma card_voter_set: "card (voter_set vs) = length vs \<longleftrightarrow> distinct vs"
  by (metis card_distinct distinct_card voter_set_def)

lemma cluster_init_conforms: "conforms E v lid (ClusterInit c vs) (cluster_init (view_reads v) c vs lid)"
  unfolding cluster_init_def Let_def
  by (intro conforms_intros; simp)
     (auto intro!: meta_change.init simp: card_voter_set MIN_META_VOTERS_def MIN_REPLICATION_def odd_iff_mod_2_eq_one word_less_nat_alt)

lemma register_node_conforms: "conforms E v lid (RegisterNode n c b) (register_node (view_reads v) n c b)"
  unfolding register_node_def Let_def
  by (intro conforms_intros; simp)
     (auto intro!: meta_change.register_new meta_change.rejoin
       simp: endpoints_ok_def endpoints_free_def endpoints_clash_def list_ex_iff)

lemma set_node_state_conforms: "conforms E v lid (SetNodeState n st inc) (set_node_state (view_reads v) n st inc)"
  unfolding set_node_state_def
  by (intro conforms_intros; simp) (auto intro!: meta_change.set_state)

lemma retire_node_conforms: "conforms E v lid (RetireNode n inc) (retire_node (view_reads v) n inc)"
  unfolding retire_node_def
  by (intro conforms_intros; simp) (auto intro!: meta_change.retire dest!: check_groups_None split: if_splits)

lemma seed_placement_conforms: "conforms E v lid (SeedPlacement g vs) (seed_placement (view_reads v) g vs lid)"
  unfolding seed_placement_def Let_def
  by (intro conforms_intros; simp add: all_active_view card_voter_set)
     (auto intro!: meta_change.seed [unfolded voter_set_def] simp: distinct_card voter_set_def)

lemma mark_aborting_conforms: "conforms E v lid (MarkAborting g pid) (mark_aborting (view_reads v) g pid)"
  unfolding mark_aborting_def
  by (intro conforms_intros; simp) (auto intro!: meta_change.abort_mark)

lemma finalize_plan_conforms:
  "conforms E v lid (if is_abort then AbortReport g pid ob else FinalizePlan g pid ob)
     (finalize_plan (view_reads v) g pid ob is_abort)"
  unfolding finalize_plan_def Let_def
  by (intro conforms_intros; simp) (auto intro!: meta_change.finalize meta_change.aborted)

lemma create_plan_conforms: "conforms E v lid (CreatePlan g pid ts) (create_plan (view_reads v) g ts lid)"
  unfolding create_plan_def Let_def
  by (intro conforms_intros; simp add: all_active_view eligible_count_def card_voter_set)
     (auto intro!: meta_change.plan [unfolded voter_set_def] simp: legal_data_target_def legal_meta_target_def MIN_META_VOTERS_def
       voter_set_def active_count_def)

lemma begin_maintenance_conforms:
  "conforms E v lid (BeginMaintenance oid gen ps) (begin_maintenance (view_reads v) oid gen ps)"
  unfolding begin_maintenance_def Let_def
  by (intro conforms_intros; simp)
     (auto intro!: meta_change.begin_op dest!: check_groups_None simp: list_ex_iff image_image image_Collect split: if_splits)

lemma release_maintenance_conforms:
  "conforms E v lid (ReleaseMaintenance oid gen procs incs pd) (release_maintenance (view_reads v) oid gen procs incs pd)"
  unfolding release_maintenance_def Let_def
  by (intro conforms_intros; simp)
     (auto intro!: meta_change.release dest!: live_mismatch_view simp: operation_def view_epoch_def)

lemma acknowledge_maintenance_conforms:
  "conforms E v lid (AcknowledgeMaintenance oid gen n inc) (acknowledge_maintenance (view_reads v) oid gen n inc)"
  unfolding acknowledge_maintenance_def
  by (intro conforms_intros; simp) (auto intro!: meta_change.acknowledge simp: operation_def)

lemma quiesce_maintenance_conforms:
  "conforms E v lid (QuiesceMaintenance oid gen) (quiesce_maintenance (view_reads v) oid gen)"
  unfolding quiesce_maintenance_def
  by (intro conforms_intros; simp) (auto intro!: meta_change.quiesce simp: operation_def)

lemma enter_maintenance_verification_conforms:
  "conforms E v lid (EnterMaintenanceVerification oid gen) (enter_maintenance_verification (view_reads v) oid gen)"
  unfolding enter_maintenance_verification_def
  by (intro conforms_intros; simp) (auto intro!: meta_change.verify simp: operation_def)

lemma acknowledge_maintenance_recovery_conforms:
  "conforms E v lid (AcknowledgeMaintenanceRecovery oid gen n inc pinc td pd ep)
     (acknowledge_maintenance_recovery E (view_reads v) oid gen n inc pinc td pd ep)"
  unfolding acknowledge_maintenance_recovery_def Let_def
  by (intro conforms_intros; simp) (auto intro!: meta_change.recovered simp: operation_def view_epoch_def recorded_process_def not_less split: sum.splits)

lemma search_index_view:
  "search_index E (view_reads v) name = Ok r \<Longrightarrow>
   r = index_of v name \<and> (\<forall>x. r = Some x \<longrightarrow> valid_record E x = Ok ())"
  by (auto simp: search_index_def split: option.splits sum.splits)

lemma start_building_conforms:
  assumes "mv_cluster v \<noteq> None" "validate_index_name name = Ok ()" "sg_id gen = li_index lid"
    "creates_index cmd update name (sg_definition gen)"
    "index_of v name = None \<and> length (mv_indexes v) < SEARCH_MAX_INDEXES
      \<and> old = \<lparr>sr_name = name, sr_active = None, sr_building = None, sr_retiring = []\<rparr> \<and> \<not> update
     \<or> index_of v name = Some old \<and> update"
  shows "conforms E v lid cmd (start_building E name gen update old)"
  unfolding start_building_def Let_def
  using assms by (intro conforms_intros; simp) (auto intro!: meta_change.build)

lemma create_search_index_conforms:
  "creates_index cmd update name d \<Longrightarrow> conforms E v lid cmd (create_search_index E (view_reads v) name d er lid update)"
  unfolding create_search_index_def
  apply (intro conforms_intros; simp)
  apply (auto dest!: search_index_view dest: with_revision_fields split: option.split bool.split intro!: conforms_intros start_building_conforms)
  done

lemma report_search_ready_conforms:
  "conforms E v lid (ReportSearchIndexReady name ob) (report_search_ready E (view_reads v) name ob)"
  unfolding report_search_ready_def Let_def
  by (intro conforms_intros; simp) (auto intro!: meta_change.ready dest!: search_index_view simp: not_older_def split: option.splits)

lemma activate_search_generation_conforms:
  "conforms E v lid (ActivateSearchIndexGeneration name gen) (activate_search_generation E (view_reads v) name gen)"
  unfolding activate_search_generation_def Let_def
  apply (intro conforms_intros; simp)
  apply (auto intro!: meta_change.activate dest!: search_index_view check_groups_None split: if_splits option.splits simp: voters_ready_def list_all_iff list_ex_iff)
  done

lemma set_retire_push: "set (retire_push g ids) = set ids \<union> {sg_id g}"
  by (auto simp: retire_push_def)

lemma set_fold_retire_push: "set (fold retire_push gs ids) = set ids \<union> sg_id ` set gs"
  by (induction gs arbitrary: ids) (auto simp: set_retire_push)

lemma drop_search_index_conforms:
  "conforms E v lid (DropSearchIndex name) (drop_search_index E (view_reads v) name)"
proof -
  have "conforms E v lid (DropSearchIndex name) (rbind (case sr_building r of
        Some b \<Rightarrow> rd_ready_keys (view_reads v) name (sg_id b) | None \<Rightarrow> Ok [])
        (\<lambda>keys. applied (PutIndex name (r\<lparr>sr_active := None, sr_building := None, sr_retiring := ret\<rparr>) # map DeleteReady keys)))"
    if "index_of v name = Some r" "sr_active r \<noteq> None \<or> sr_building r \<noteq> None"
      "set ret = set (sr_retiring r) \<union> sg_id ` (set_option (sr_active r) \<union> set_option (sr_building r))"
      "valid_record E (r\<lparr>sr_active := None, sr_building := None, sr_retiring := ret\<rparr>) = Ok ()" for r ret
    using meta_change.drop_index [OF that(1,2) refl that(3,4) refl] by (cases "sr_building r") simp_all
  note step = this
  show ?thesis
    unfolding drop_search_index_def Let_def
    apply (intro conforms_option conforms_if conforms_sum conforms_rbind [of "search_index E R name" for R])
        apply (simp_all del: view_reads_simps)
    apply (rule step)
       apply (auto dest!: search_index_view simp: set_fold_retire_push split: option.split)
    done
qed

lemma finalize_search_drop_conforms:
  "conforms E v lid (FinalizeSearchIndexDrop name gen) (finalize_search_drop E (view_reads v) name gen)"
proof -
  have kept: "gen \<in> set ids" if "length (filter (\<lambda>i. i \<noteq> gen) ids) \<noteq> length ids" for ids
    using that by (metis (mono_tags, lifting) filter_True)
  show ?thesis
    unfolding finalize_search_drop_def Let_def
    by (intro conforms_intros; simp) (auto intro!: meta_change.drop_done kept dest!: search_index_view)
qed


lemma dispatch_conforms: "conforms E v lid cmd (dispatch E (view_reads v) cmd lid)"
proof (cases cmd)
  case (FinalizePlan g pid ob)
  then show ?thesis using finalize_plan_conforms [of E v lid False g pid ob] by simp
next
  case (AbortReport g pid ob)
  then show ?thesis using finalize_plan_conforms [of E v lid True g pid ob] by simp
qed (simp_all add: cluster_init_conforms register_node_conforms set_node_state_conforms retire_node_conforms
    seed_placement_conforms create_plan_conforms mark_aborting_conforms create_search_index_conforms creates_index_def
    report_search_ready_conforms activate_search_generation_conforms drop_search_index_conforms
    finalize_search_drop_conforms begin_maintenance_conforms release_maintenance_conforms
    acknowledge_maintenance_conforms quiesce_maintenance_conforms enter_maintenance_verification_conforms
    acknowledge_maintenance_recovery_conforms)

text \<open>The fence: while an operation is active only its own commands pass.\<close>

definition maintenance_idle :: "meta_view \<Rightarrow> bool" where
  "maintenance_idle v \<longleftrightarrow> (\<forall>r. mv_maintenance v = Some r \<longrightarrow> mr_stage r = Released)"

lemma meta_evaluate_view:
  "meta_evaluate E (view_reads v) cmd lid =
     (if maintenance_idle v \<or> maintenance_command cmd then dispatch E (view_reads v) cmd lid else reject MaintenanceActive)"
  by (auto simp: meta_evaluate_def maintenance_idle_def split: option.split)

lemma meta_evaluate_cases:
  assumes "meta_evaluate E (view_reads v) cmd lid = Ok (r, ws)"
  shows "r = MApplied \<and> meta_change E v lid cmd ws \<and> (maintenance_idle v \<or> maintenance_command cmd)
    \<or> r \<noteq> MApplied \<and> ws = []"
  using assms dispatch_conforms [of E v lid cmd]
  by (auto simp: meta_evaluate_view conforms_def split: if_splits)

lemma view_writes_simps [simp]:
  "view_writes [] v = v" "view_writes (w # ws) v = view_writes ws (view_write w v)"
  by (simp_all add: view_writes_def)

text \<open>A step of the machine either leaves the view alone or takes a transition.\<close>

lemma meta_step_cases:
  obtains (same) "fst (meta_step E v (lid, cmd)) = v" "snd (meta_step E v (lid, cmd)) \<noteq> Ok MApplied"
  | (change) ws where "meta_step E v (lid, cmd) = (view_writes ws v, Ok MApplied)" "meta_change E v lid cmd ws"
      "maintenance_idle v \<or> maintenance_command cmd"
proof (cases "meta_evaluate E (view_reads v) cmd lid")
  case (Inl e)
  then show thesis by (intro same) (simp_all add: meta_step_def)
next
  case (Inr x)
  obtain r ws where x: "x = (r, ws)" by force
  then show thesis
    using meta_evaluate_cases [of E v cmd lid r ws] Inr same change by (auto simp: meta_step_def)
qed

subsection \<open>The store follows the view\<close>

lemma change_ready_write:
  assumes "meta_change E v lid cmd ws"
  shows "list_all ready_write ws"
proof -
  have below: "starts_with k ready_tag" if "(k, x) \<in> set (under (meta_search_ready_prefix name gen) kvs)" for k x name gen kvs
    using that ready_prefix_tag [of name gen] by (auto simp: under_def starts_with_iff)
  show ?thesis
    using assms by cases
      (auto simp: ready_write_def list_all_iff ready_key_tag below split: option.splits)
qed

lemma writes_rep:
  "meta_rep E cf v \<Longrightarrow> list_all ready_write ws \<Longrightarrow>
   meta_rep E (fold (mutate cf_put cf_delete) (map (mutation_of E) ws) cf) (view_writes ws v)"
  by (induction ws arbitrary: cf v) (auto simp: write_rep)

lemma evaluate_rep:
  assumes "meta_rep E cf v" "meta_evaluate E (view_reads v) cmd lid = Ok (r, ws)"
  shows "meta_rep E (fold (mutate cf_put cf_delete) (map (mutation_of E) ws) cf) (fst (meta_step E v (lid, cmd)))"
    "snd (meta_step E v (lid, cmd)) = Ok r"
  using assms meta_evaluate_cases [OF assms(2)] change_ready_write [of E v lid cmd ws] writes_rep [OF assms(1), of ws]
  by (auto simp: meta_step_def)

lemma rep_put_other:
  assumes "meta_rep E cf v" "k = last_applied_key \<or> k = raft_applied_key"
  shows "meta_rep E (cf_put k x cf) v"
proof -
  have "\<not> starts_with k meta_node_prefix" "\<not> starts_with k meta_search_index_prefix" "\<not> starts_with k ready_tag"
    "\<not> point_key k"
    using assms(2)
    by (auto simp: point_key_def starts_with_iff last_applied_key_def raft_applied_key_def meta_node_prefix_def
        meta_search_index_prefix_def ready_tag_def state_key_defs recovery_epoch_key_def key_simps)
  moreover have "cf_get (cf_put k x cf) q = cf_get cf q" if "point_key q" for q
    using that \<open>\<not> point_key k\<close> assms(1) by (auto simp: cf_get_put meta_rep_def)
  ultimately show ?thesis
    using assms(1) by (simp add: meta_rep_def cf_wf_put under_put_out)
qed

lemma view_writes_identity [simp]: "mv_identity (view_writes ws v) = mv_identity v"
proof (induction ws arbitrary: v)
  case (Cons w ws)
  have "mv_identity (view_write w v) = mv_identity v" by (cases w) simp_all
  with Cons show ?case by simp
qed simp

text \<open>
  \<open>meta_apply\<close> implements \<open>meta_step\<close>: on success the answer is the machine's and the store
  represents its next view; on failure the store represents the old view or the next one.
\<close>

lemma meta_apply_refines:
  assumes at: "meta_at E st name cf v" and ok: "meta_codecs_ok E"
    and run: "meta_apply E fault cmd lid st = (st', r)"
  shows "\<exists>cf'. case r of
      Inr x \<Rightarrow> snd (meta_step E v (lid, cmd)) = Ok x \<and> meta_at E st' name cf' (fst (meta_step E v (lid, cmd)))
    | Inl _ \<Rightarrow> meta_at E st' name cf' v \<or> meta_at E st' name cf' (fst (meta_step E v (lid, cmd)))"
proof (cases "meta_evaluate E (view_reads v) cmd lid")
  case (Inl e)
  then show ?thesis using run at by (auto simp: meta_apply_def reads_agree [OF at ok])
next
  case (Inr x)
  obtain a ws where x: "x = (a, ws)" by force
  have st: "state_cf E st Meta = Ok (name, cf)" and rep: "meta_rep E cf v"
    and ident: "get_local (c_identity E) st identity_key = Ok (mv_identity v)"
    using at by (simp_all add: meta_at_def)
  obtain st1 r1 where w: "apply_state E fault Meta (map (mutation_of E) ws) lid st = (st1, r1)" by force
  have res: "st' = st1" "\<And>y. r = Ok y \<Longrightarrow> r1 = Ok () \<and> y = a"
    using run Inr x w by (cases r1; simp add: meta_apply_def reads_agree [OF at ok])+
  note step = evaluate_rep [OF rep Inr [unfolded x]]
  let ?cf' = "cf_put last_applied_key (enc (c_log_id E) lid) (fold (mutate cf_put cf_delete) (map (mutation_of E) ws) cf)"
  have id: "mv_identity (fst (meta_step E v (lid, cmd))) = mv_identity v"
    by (cases rule: meta_step_cases [of E v lid cmd]) (auto simp: view_writes_identity)
  from apply_state_cases [OF st w] show ?thesis
  proof (elim disjE conjE)
    assume "r1 \<noteq> Ok ()" "st1 = st"
    then show ?thesis using at res by (cases r) auto
  next
    assume new: "state_cf E st1 Meta = Ok (name, ?cf')" "db_default st1 = db_default st"
    then have "meta_at E st1 name ?cf' (fst (meta_step E v (lid, cmd)))"
      using step(1) ident id by (simp add: meta_at_def rep_put_other get_local_def)
    then show ?thesis using res step(2) by (intro exI [of _ ?cf']) (cases r; simp)
  qed
qed

end
