(* ===== verification/Meta_Apply.thy ===== *)
theory Meta_Apply
  imports Meta_Steps Apply
begin

section \<open>Applying the meta group's log (meta/sm.rs)\<close>

text \<open>
  The Raft applier of the meta group.  Every entry is evaluated on the store and written with its
  applied record before the next one is read.  \<open>meta_apply_loop_runs\<close> shows that a run of the
  applier over a log is the run of the typed machine of \<open>Meta_Refine\<close>.
\<close>

datatype 'm meta_payload = MBlank | MNormal meta_command | MMembership 'm

record 'm meta_entry =
  me_log_id :: raft_log_id
  me_payload :: "'m meta_payload"

record 'm meta_apply_env = meta_env +
  c_meta_applied :: "'m applied codec"
  c_meta_committed :: "raft_log_id option codec"
  meta_default_membership :: 'm

text \<open>\<open>to_crate_log_id\<close>: the term and index of an openraft log id.\<close>

definition to_crate_log_id :: "raft_log_id \<Rightarrow> log_id" where
  "to_crate_log_id l = LogId (rl_term l) (rl_index l)"

definition meta_fail_stop :: "string \<Rightarrow> storage \<times> 'a result \<Rightarrow> storage \<times> 'a result" where
  "meta_fail_stop ctxt sr =
     (case sr of (st, Inl e) \<Rightarrow> (poison_raft_error ctxt e st, Inl e) | (st, Inr x) \<Rightarrow> (st, Inr x))"

definition meta_read_applied ::
  "('m, 'a) meta_apply_env_scheme \<Rightarrow> storage \<Rightarrow> storage \<times> 'm applied result" where
  "meta_read_applied E st =
     sbind (meta_fail_stop ''meta state-machine health check failed'' (st, require_healthy st)) (\<lambda>st _.
     sbind (meta_fail_stop ''meta applied record read failed'' (st, raft_applied E st Meta)) (\<lambda>st v.
     case v of
       Some bs \<Rightarrow> meta_fail_stop ''meta applied record decode failed'' (st, dec (c_meta_applied E) bs)
     | None \<Rightarrow> (st, Ok (None, (None, meta_default_membership E)))))"

definition meta_decide ::
  "('m, 'a) meta_apply_env_scheme \<Rightarrow> 'm stored_membership \<Rightarrow> 'm meta_entry \<Rightarrow> storage
    \<Rightarrow> (meta_apply_result \<times> meta_write list \<times> 'm stored_membership) result" where
  "meta_decide E membership entry st =
     (case me_payload entry of
        MBlank \<Rightarrow> Ok (MNoOp, [], membership)
      | MNormal cmd \<Rightarrow>
          rbind (meta_evaluate E (storage_reads E st) cmd (to_crate_log_id (me_log_id entry))) (\<lambda>(result, ws).
          Ok (result, ws, membership))
      | MMembership m \<Rightarrow> Ok (MNoOp, [], (Some (me_log_id entry), m)))"

fun meta_apply_loop ::
  "('m, 'a) meta_apply_env_scheme \<Rightarrow> faults \<Rightarrow> 'm stored_membership \<Rightarrow> meta_apply_result list \<Rightarrow> 'm meta_entry list
    \<Rightarrow> storage \<Rightarrow> storage \<times> meta_apply_result list result" where
  "meta_apply_loop E fault membership results [] st = (st, Ok results)"
| "meta_apply_loop E fault membership results (entry # entries) st =
     sbind (meta_fail_stop ''meta state-machine evaluation failed'' (st, meta_decide E membership entry st))
       (\<lambda>st (result, ws, membership).
     let lid = me_log_id entry in
     sbind (meta_fail_stop ''meta state-machine apply write failed''
              (apply_raft E fault Meta (map (mutation_of E) ws) lid
                (enc (c_meta_applied E) (Some lid, membership)) (enc (c_meta_committed E) (Some lid)) 1 st)) (\<lambda>st _.
     meta_apply_loop E fault membership (results @ [result]) entries st))"

definition meta_raft_apply ::
  "('m, 'a) meta_apply_env_scheme \<Rightarrow> faults \<Rightarrow> 'm meta_entry list \<Rightarrow> storage \<Rightarrow> storage \<times> meta_apply_result list result" where
  "meta_raft_apply E fault entries st =
     sbind (meta_read_applied E st) (\<lambda>st (_, membership). meta_apply_loop E fault membership [] entries st)"

subsection \<open>The specification of a run\<close>

definition entry_step ::
  "('a meta_env_scheme) \<Rightarrow> meta_view \<Rightarrow> 'm meta_entry \<Rightarrow> meta_view \<times> meta_apply_result result" where
  "entry_step E v entry =
     (case me_payload entry of
        MNormal cmd \<Rightarrow> meta_step E v (to_crate_log_id (me_log_id entry), cmd)
      | _ \<Rightarrow> (v, Ok MNoOp))"

fun membership_after :: "'m stored_membership \<Rightarrow> 'm meta_entry list \<Rightarrow> 'm stored_membership" where
  "membership_after m [] = m"
| "membership_after m (e # es) =
     membership_after (case me_payload e of MMembership x \<Rightarrow> (Some (me_log_id e), x) | _ \<Rightarrow> m) es"

text \<open>The meta group ready to apply: its column families are open, the latch is clear, and it represents a view.\<close>

definition meta_ready ::
  "('a meta_env_scheme) \<Rightarrow> storage \<Rightarrow> string \<Rightarrow> cf \<Rightarrow> cf \<Rightarrow> meta_view \<Rightarrow> bool" where
  "meta_ready E st name cf lcf v \<longleftrightarrow> group_ready E st Meta name cf lcf \<and> meta_at E st name cf v"

text \<open>The store after a prefix of the log: the view of that prefix and the applied record of its last entry.\<close>

definition applied_up_to ::
  "('m, 'a) meta_apply_env_scheme \<Rightarrow> cf \<Rightarrow> 'm stored_membership \<Rightarrow> 'm meta_entry list \<Rightarrow> bool" where
  "applied_up_to E cf m es \<longleftrightarrow>
     (es \<noteq> [] \<longrightarrow> cf_get cf raft_applied_key = Some (enc (c_meta_applied E) (Some (me_log_id (last es)), membership_after m es)))"

lemma decide_step:
  assumes "meta_ready E st name cf lcf v" "meta_codecs_ok E" "snd (entry_step E v e) = Ok r"
  obtains ws where "meta_decide E m e st = Ok (r, ws, membership_after m [e])"
    and "meta_rep E (fold (mutate cf_put cf_delete) (map (mutation_of E) ws) cf) (fst (entry_step E v e))"
proof -
  have at: "meta_at E st name cf v" and rep: "meta_rep E cf v" using assms(1) by (simp_all add: meta_ready_def meta_at_def)
  show thesis
  proof (cases "me_payload e")
    case (MNormal cmd)
    let ?lid = "to_crate_log_id (me_log_id e)"
    obtain a ws where ev: "meta_evaluate E (view_reads v) cmd ?lid = Ok (a, ws)"
      using assms(3) MNormal by (auto simp: entry_step_def meta_step_def split: sum.splits)
    note s = evaluate_rep [OF rep ev]
    have "a = r" using s(2) assms(3) MNormal by (simp add: entry_step_def)
    then show thesis
      using that [of ws] s(1) ev MNormal by (simp add: meta_decide_def entry_step_def reads_agree [OF at assms(2)])
  qed (use that [of "[]"] assms(3) rep in \<open>simp_all add: meta_decide_def entry_step_def\<close>)
qed

lemma entry_step_identity: "mv_identity (fst (entry_step E v e)) = mv_identity v"
proof (cases "me_payload e")
  case (MNormal cmd)
  then show ?thesis
    by (cases rule: meta_step_cases [of E v "to_crate_log_id (me_log_id e)" cmd]) (auto simp: entry_step_def)
qed (simp_all add: entry_step_def)

lemma search_only_identity:
  assumes "search_only (db_default st) (db_default st')"
  shows "get_local c st' identity_key = get_local c st identity_key"
proof -
  have "\<not> starts_with identity_key (as_bytes ''local/search/'')"
    by (simp add: identity_key_def starts_with_def as_bytes_def)
  with assms show ?thesis by (simp add: get_local_def search_only_def)
qed

lemma loop_step:
  assumes ready: "meta_ready E st name cf lcf v" and ok: "meta_codecs_ok E" and r: "snd (entry_step E v e) = Ok r"
  obtains st' cf' lcf' where
    "meta_apply_loop E no_fault m rs (e # es) st = meta_apply_loop E no_fault (membership_after m [e]) (rs @ [r]) es st'"
    "meta_ready E st' name cf' lcf' (fst (entry_step E v e))" "applied_up_to E cf' m [e]"
proof -
  obtain ws where d: "meta_decide E m e st = Ok (r, ws, membership_after m [e])"
    and rep: "meta_rep E (fold (mutate cf_put cf_delete) (map (mutation_of E) ws) cf) (fst (entry_step E v e))"
    using decide_step [OF ready ok r] by blast
  let ?ar = "enc (c_meta_applied E) (Some (me_log_id e), membership_after m [e])"
  let ?cf' = "applied_cf (map (mutation_of E) ws) ?ar cf"
  have gr: "group_ready E st Meta name cf lcf" "codec_ok (c_u64 E)"
    using ready ok by (simp_all add: meta_ready_def meta_codecs_ok_def search_codecs_ok_def)
  obtain st' where a: "apply_raft E no_fault Meta (map (mutation_of E) ws) (me_log_id e) ?ar
        (enc (c_meta_committed E) (Some (me_log_id e))) 1 st = (st', Ok ())"
    and g: "group_ready E st' Meta name ?cf' (cf_put KEY_COMMITTED (enc (c_meta_committed E) (Some (me_log_id e))) lcf)"
    and so: "search_only (db_default st) (db_default st')"
    using apply_raft_Ok [OF gr, of "map (mutation_of E) ws"] by blast
  have "get_local (c_identity E) st' identity_key = Ok (mv_identity (fst (entry_step E v e)))"
    using ready by (simp add: meta_ready_def meta_at_def entry_step_identity search_only_identity [OF so])
  then have ready': "meta_ready E st' name ?cf' (cf_put KEY_COMMITTED (enc (c_meta_committed E) (Some (me_log_id e))) lcf)
      (fst (entry_step E v e))"
    using g rep_put_other [OF rep] by (simp add: meta_ready_def meta_at_def group_ready_def group_open_def)
  have "applied_up_to E ?cf' m [e]"
    using rep by (simp add: applied_up_to_def cf_get_put meta_rep_def)
  moreover have "meta_apply_loop E no_fault m rs (e # es) st = meta_apply_loop E no_fault (membership_after m [e]) (rs @ [r]) es st'"
    using d a by (simp add: meta_fail_stop_def Let_def)
  ultimately show thesis using that ready' by blast
qed

lemma membership_after_Cons: "membership_after m (e # es) = membership_after (membership_after m [e]) es"
  by simp

lemma meta_apply_loop_runs:
  assumes "meta_ready E st name cf lcf v" "meta_codecs_ok E" "snd (run_log (entry_step E) v es) = map Inr as"
  shows "\<exists>st' cf' lcf'. meta_apply_loop E no_fault m rs es st = (st', Ok (rs @ as))
    \<and> meta_ready E st' name cf' lcf' (fst (run_log (entry_step E) v es)) \<and> applied_up_to E cf' m es"
  using assms
proof (induction es arbitrary: st cf lcf v m rs as)
  case Nil
  then show ?case by (auto simp: applied_up_to_def)
next
  case (Cons e es)
  obtain r as' where as: "as = r # as'" "snd (entry_step E v e) = Ok r"
    "snd (run_log (entry_step E) (fst (entry_step E v e)) es) = map Inr as'"
    using Cons.prems(3) by (cases as) (auto simp: run_log_Cons simp del: run_log.simps)
  obtain st1 cf1 lcf1 where s: "meta_apply_loop E no_fault m rs (e # es) st =
        meta_apply_loop E no_fault (membership_after m [e]) (rs @ [r]) es st1"
    "meta_ready E st1 name cf1 lcf1 (fst (entry_step E v e))" "applied_up_to E cf1 m [e]"
    by (rule loop_step [OF Cons.prems(1,2) as(2), where m = m and rs = rs and es = es])
  obtain st2 cf2 lcf2 where t: "meta_apply_loop E no_fault (membership_after m [e]) (rs @ [r]) es st1 = (st2, Ok ((rs @ [r]) @ as'))"
    "meta_ready E st2 name cf2 lcf2 (fst (run_log (entry_step E) (fst (entry_step E v e)) es))"
    "applied_up_to E cf2 (membership_after m [e]) es"
    using Cons.IH [OF s(2) Cons.prems(2) as(3), of "membership_after m [e]" "rs @ [r]"] by blast
  have run: "run_log (entry_step E) v (e # es) = (fst (run_log (entry_step E) (fst (entry_step E v e)) es), map Inr as)"
    using as by (simp add: run_log_Cons del: run_log.simps)
  show ?case
  proof (cases "es = []")
    case True
    then have "st2 = st1" "as' = []" "fst (run_log (entry_step E) (fst (entry_step E v e)) es) = fst (entry_step E v e)"
      using t(1) as(3) by simp_all
    then show ?thesis using s t(1) as(1) run True by (simp only: fst_conv append_assoc append_Cons append_Nil) blast
  next
    case False
    with t(3) have "applied_up_to E cf2 m (e # es)"
      unfolding applied_up_to_def by (simp only: membership_after_Cons [symmetric] last_ConsR) simp
    then show ?thesis using s(1) t(1,2) as(1) run by (simp only: fst_conv append_assoc append_Cons append_Nil) blast
  qed
qed

lemma meta_read_applied_Ok:
  assumes "meta_ready E st name cf lcf v"
    and "case cf_get cf raft_applied_key of Some bs \<Rightarrow> dec (c_meta_applied E) bs = Ok a
      | None \<Rightarrow> a = (None, (None, meta_default_membership E))"
  shows "meta_read_applied E st = (st, Ok a)"
  using assms
  by (auto simp: meta_read_applied_def meta_ready_def group_ready_def require_healthy_def meta_fail_stop_def raft_applied_def
      get_state_def meta_at_def split: option.splits)

end
