(* ===== verification/Meta_Inv.thy ===== *)
theory Meta_Inv
  imports Meta_Apply
begin

section \<open>Invariants of the meta group\<close>

text \<open>
  The node directory, the placements, the maintenance operation and the search catalog each keep
  an invariant over every committed command.  Each is shown for one transition by cases over
  \<open>meta_change\<close> and carried over a log by \<open>log_machine\<close>.
\<close>

lemma view_writes_deletes [simp]:
  "view_writes (map DeleteReady ks) v = v\<lparr>mv_ready := fold tdelete ks (mv_ready v)\<rparr>"
  "view_writes (map (\<lambda>kr. DeleteReady (fst kr)) kvs) v = v\<lparr>mv_ready := fold tdelete (map fst kvs) (mv_ready v)\<rparr>"
proof -
  show "view_writes (map DeleteReady ks) v = v\<lparr>mv_ready := fold tdelete ks (mv_ready v)\<rparr>" for ks
    by (induction ks arbitrary: v) simp_all
  from this [of "map fst kvs"]
  show "view_writes (map (\<lambda>kr. DeleteReady (fst kr)) kvs) v = v\<lparr>mv_ready := fold tdelete (map fst kvs) (mv_ready v)\<rparr>"
    by (simp add: comp_def)
qed

subsection \<open>The node directory\<close>

definition entry_ok :: "node_directory_entry \<Rightarrow> bool" where
  "entry_ok e \<longleftrightarrow> nd_node_id e \<noteq> 0 \<and> endpoints_ok (nd_control_addr e) (nd_bulk_addr e) \<and> nd_incarnation e \<noteq> 0"

definition directory_ok :: "meta_view \<Rightarrow> bool" where
  "directory_ok v \<longleftrightarrow> strictly_sorted fst (mv_nodes v)
     \<and> (\<forall>(k, e) \<in> set (mv_nodes v). k = meta_node_key (nd_node_id e) \<and> entry_ok e
          \<and> endpoints_free v (nd_node_id e) (nd_control_addr e) (nd_bulk_addr e))
     \<and> length (mv_nodes v) \<le> MAX_CLUSTER_NODES
     \<and> (\<forall>n. mv_retired v n \<noteq> None \<longrightarrow> node_of v n = None)"

lemma directory_cong:
  "mv_nodes v' = mv_nodes v \<Longrightarrow> mv_retired v' = mv_retired v \<Longrightarrow> directory_ok v' \<longleftrightarrow> directory_ok v"
  by (simp add: directory_ok_def endpoints_free_def)

lemma directory_entry:
  "directory_ok v \<Longrightarrow> (k, e) \<in> set (mv_nodes v) \<Longrightarrow> k = meta_node_key (nd_node_id e) \<and> entry_ok e
    \<and> endpoints_free v (nd_node_id e) (nd_control_addr e) (nd_bulk_addr e)"
  by (auto simp: directory_ok_def)

lemma node_key_inj [simp]: "meta_node_key n = meta_node_key m \<longleftrightarrow> n = m"
  by (simp add: meta_node_key_def key_simps)

lemma node_of_iff:
  assumes "strictly_sorted fst (mv_nodes v)"
  shows "node_of v n = Some e \<longleftrightarrow> (meta_node_key n, e) \<in> set (mv_nodes v)"
  by (rule sorted_map_of_Some [OF assms])

lemma node_of_None:
  assumes "directory_ok v" "node_of v n = None"
  shows "n \<notin> nd_node_id ` snd ` set (mv_nodes v)"
  using assms(2) directory_entry [OF assms(1)] unfolding map_of_eq_None_iff by force

lemma length_tput:
  assumes "strictly_sorted fst kvs"
  shows "length (tput k x kvs) = (if map_of kvs k = None then Suc (length kvs) else length kvs)"
  using binary_search_found_iff [OF assms, of k] map_of_eq_None_iff [of kvs k]
  by (auto simp: upsert_by_key_def vec_insert_def is_err_def split: sum.splits)

text \<open>Putting an entry whose endpoints are free keeps the directory sound.\<close>

lemma directory_put:
  assumes ok: "directory_ok v" and e: "entry_ok e" "nd_node_id e = n" and "mv_retired v n = None"
    and free: "endpoints_free v n (nd_control_addr e) (nd_bulk_addr e)"
    and room: "node_of v n = None \<longrightarrow> length (mv_nodes v) < MAX_CLUSTER_NODES"
  shows "directory_ok (v\<lparr>mv_nodes := tput (meta_node_key n) e (mv_nodes v)\<rparr>)"
proof -
  let ?k = "meta_node_key n"
  have s: "strictly_sorted fst (mv_nodes v)" using ok by (simp add: directory_ok_def)
  have set: "set (tput ?k e (mv_nodes v)) = insert (?k, e) {kv \<in> set (mv_nodes v). fst kv \<noteq> ?k}"
    by (simp add: set_upsert_by_key [OF s])
  have sym: "endpoints_clash (nd_control_addr a) (nd_bulk_addr a) f \<longleftrightarrow> endpoints_clash (nd_control_addr f) (nd_bulk_addr f) a" for a f
    by (auto simp: endpoints_clash_def)
  let ?v' = "v\<lparr>mv_nodes := tput ?k e (mv_nodes v)\<rparr>"
  have new: "endpoints_free ?v' n (nd_control_addr e) (nd_bulk_addr e)"
    using free e(2) by (auto simp: endpoints_free_def set)
  have old: "endpoints_free ?v' (nd_node_id f) (nd_control_addr f) (nd_bulk_addr f)"
    if f: "(k, f) \<in> set (mv_nodes v)" "k \<noteq> ?k" for k f
  proof -
    have "nd_node_id f \<noteq> n" using directory_entry [OF ok f(1)] f(2) by auto
    then have "\<not> endpoints_clash (nd_control_addr f) (nd_bulk_addr f) e"
      using free f(1) sym [of e f] by (auto simp: endpoints_free_def)
    then show ?thesis using directory_entry [OF ok f(1)] by (auto simp: endpoints_free_def set)
  qed
  have "\<forall>(k, a) \<in> set (tput ?k e (mv_nodes v)). k = meta_node_key (nd_node_id a) \<and> entry_ok a
      \<and> endpoints_free ?v' (nd_node_id a) (nd_control_addr a) (nd_bulk_addr a)"
    unfolding set using directory_entry [OF ok] old new e by auto
  moreover have "length (tput ?k e (mv_nodes v)) \<le> MAX_CLUSTER_NODES"
    using ok room by (auto simp: length_tput [OF s] directory_ok_def)
  moreover have "\<forall>m. mv_retired v m \<noteq> None \<longrightarrow> map_of (tput ?k e (mv_nodes v)) (meta_node_key m) = None"
    using ok assms(4) by (auto simp: map_of_upsert [OF s] directory_ok_def)
  ultimately show ?thesis
    by (simp add: directory_ok_def strictly_sorted_upsert [OF s])
qed

lemma map_of_tdelete: "map_of (tdelete k kvs) l = (if l = k then None else map_of kvs l)"
  by (induction kvs) auto

lemma directory_delete:
  assumes "directory_ok v"
  shows "directory_ok (v\<lparr>mv_retired := (mv_retired v)(n \<mapsto> i), mv_nodes := tdelete (meta_node_key n) (mv_nodes v)\<rparr>)"
proof -
  have "length (tdelete (meta_node_key n) (mv_nodes v)) \<le> MAX_CLUSTER_NODES"
    using assms le_trans [OF length_filter_le] by (auto simp: directory_ok_def)
  moreover have "strictly_sorted fst (tdelete (meta_node_key n) (mv_nodes v))"
    using assms by (simp add: directory_ok_def strictly_sorted_def sorted_wrt_filter)
  moreover have "endpoints_free (v\<lparr>mv_retired := x, mv_nodes := filter q (mv_nodes v)\<rparr>) m c b"
    if "endpoints_free v m c b" for x q m c b
    using that by (auto simp: endpoints_free_def)
  moreover have "\<forall>m. ((mv_retired v)(n \<mapsto> i)) m \<noteq> None \<longrightarrow> map_of (tdelete (meta_node_key n) (mv_nodes v)) (meta_node_key m) = None"
    using assms by (simp add: directory_ok_def map_of_tdelete)
  ultimately show ?thesis
    using directory_entry [OF assms] unfolding directory_ok_def by simp blast
qed

lemma stored_entry:
  assumes "directory_ok v" "node_of v n = Some e"
  shows "nd_node_id e = n" "entry_ok e" "mv_retired v n = None"
    "endpoints_free v n (nd_control_addr e) (nd_bulk_addr e)"
proof -
  have s: "strictly_sorted fst (mv_nodes v)" using assms(1) by (simp add: directory_ok_def)
  have mem: "(meta_node_key n, e) \<in> set (mv_nodes v)" using assms(2) by (simp add: node_of_iff [OF s])
  from directory_entry [OF assms(1) this] show n: "nd_node_id e = n" and "entry_ok e"
    and "endpoints_free v n (nd_control_addr e) (nd_bulk_addr e)" by auto
  show "mv_retired v n = None" using assms by (cases "mv_retired v n") (auto simp: directory_ok_def)
qed

lemma checked_add1_nonzero: "checked_add1 (i :: u64) = Some j \<Longrightarrow> j \<noteq> 0"
  by (auto simp: checked_add1_Some eq_neg_iff_add_eq_0)

lemma change_directory:
  assumes "directory_ok v" "meta_change E v lid cmd ws"
  shows "directory_ok (view_writes ws v)"
proof -
  have keep: "directory_ok v'" if "mv_nodes v' = mv_nodes v" "mv_retired v' = mv_retired v" for v'
    using assms(1) directory_cong [OF that] by simp
  show ?thesis
  using assms(2)
proof cases
  case (register_new n c b)
  have room: "length (mv_nodes v) < MAX_CLUSTER_NODES"
    using register_new(8,9) node_of_None [OF assms(1)] by blast
  have "directory_ok (v\<lparr>mv_nodes := tput (meta_node_key n)
      \<lparr>nd_node_id = n, nd_control_addr = c, nd_bulk_addr = b, nd_state = Active, nd_incarnation = 1\<rparr> (mv_nodes v)\<rparr>)"
    by (rule directory_put [OF assms(1)])
      (use register_new(4,5,6,7) room in \<open>simp_all add: entry_ok_def\<close>)
  with register_new show ?thesis by simp
next
  case (rejoin n c b e e' inc)
  note e = stored_entry [OF assms(1) rejoin(8)]
  have "entry_ok e'" "nd_node_id e' = n" "nd_control_addr e' = c" "nd_bulk_addr e' = b"
    using rejoin e checked_add1_nonzero [OF rejoin(10)] by (auto simp: entry_ok_def)
  then have "directory_ok (v\<lparr>mv_nodes := tput (meta_node_key n) e' (mv_nodes v)\<rparr>)"
    by (intro directory_put [OF assms(1)]) (use rejoin in simp_all)
  with rejoin show ?thesis by simp
next
  case (set_state n e inc st)
  note e = stored_entry [OF assms(1) set_state(3)]
  have "directory_ok (v\<lparr>mv_nodes := tput (meta_node_key n) (e\<lparr>nd_state := st\<rparr>) (mv_nodes v)\<rparr>)"
    by (rule directory_put [OF assms(1)]) (use e set_state in \<open>simp_all add: entry_ok_def\<close>)
  with set_state show ?thesis by simp
next
  case (retire n e inc c)
  with directory_delete [OF assms(1), of n inc] show ?thesis by simp
next
  case drop_done
  then show ?thesis by (simp add: keep)
qed (use keep in simp_all)
qed


subsection \<open>Placements\<close>

definition cluster_ok :: "cluster_config \<Rightarrow> bool" where
  "cluster_ok c \<longleftrightarrow> cc_protocol_version c = PROTOCOL_VERSION \<and> 3 \<le> unat (cc_r c) \<and> cc_p c \<noteq> 0
     \<and> validate_routing_shape (cc_p c) (cc_r c) = Ok ()"

definition voters_ok :: "cluster_config \<Rightarrow> group_id \<Rightarrow> node_id list \<Rightarrow> bool" where
  "voters_ok c g vs \<longleftrightarrow> sorted_wrt (<) vs
     \<and> (case g of Data p \<Rightarrow> p < cc_p c \<and> length vs = unat (cc_r c) | Meta \<Rightarrow> 3 \<le> length vs)"

definition placement_ok :: "cluster_config \<Rightarrow> group_id \<Rightarrow> placement \<Rightarrow> bool" where
  "placement_ok c g pl \<longleftrightarrow> voters_ok c g (pl_voters pl)
     \<and> (\<forall>m. pl_move pl = Some m \<longrightarrow> voters_ok c g (mp_target_voters m)
          \<and> (case g of Data _ \<Rightarrow> legal_data_target c (set (pl_voters pl)) (set (mp_target_voters m))
             | Meta \<Rightarrow> legal_meta_target (set (pl_voters pl)) (set (mp_target_voters m))))"

definition unretired :: "meta_view \<Rightarrow> placement \<Rightarrow> bool" where
  "unretired v pl \<longleftrightarrow> (\<forall>n. references_node pl n \<longrightarrow> mv_retired v n = None)"

definition placements_ok :: "meta_view \<Rightarrow> bool" where
  "placements_ok v \<longleftrightarrow>
     (case mv_cluster v of
        None \<Rightarrow> mv_placements v = (\<lambda>_. None) \<and> mv_retired v = (\<lambda>_. None)
      | Some c \<Rightarrow> cluster_ok c \<and> mv_placements v Meta \<noteq> None
          \<and> (\<forall>g pl. mv_placements v g = Some pl \<longrightarrow> placement_ok c g pl \<and> unretired v pl))"

lemma placements_cong:
  "mv_cluster v' = mv_cluster v \<Longrightarrow> mv_placements v' = mv_placements v \<Longrightarrow> mv_retired v' = mv_retired v \<Longrightarrow>
   placements_ok v' \<longleftrightarrow> placements_ok v"
  by (cases "mv_cluster v") (simp_all add: placements_ok_def unretired_def)

lemma references_node_iff:
  "references_node pl n \<longleftrightarrow> n \<in> set (pl_voters pl) \<or> (\<exists>m. pl_move pl = Some m \<and> n \<in> set (mp_target_voters m))"
  by (simp add: references_node_def split: option.split)

text \<open>Replacing one placement by a sound one.\<close>

lemma placements_put:
  assumes "placements_ok v" "mv_cluster v = Some c" "placement_ok c g pl" "unretired v pl"
  shows "placements_ok (v\<lparr>mv_placements := (mv_placements v)(g \<mapsto> pl)\<rparr>)"
  using assms by (cases "g = Meta") (simp_all add: placements_ok_def unretired_def)

lemma placements_get:
  assumes "placements_ok v" "mv_placements v g = Some pl"
  obtains c where "mv_cluster v = Some c" "placement_ok c g pl" "unretired v pl"
  using assms by (auto simp: placements_ok_def split: option.splits)

lemma group_listed:
  assumes "placement_ok c g pl"
  shows "g \<in> set (all_groups c)"
proof (cases g)
  case (Data p)
  then have "unat p < unat (cc_p c)" using assms by (simp add: placement_ok_def voters_ok_def word_less_nat_alt)
  then show ?thesis using Data by (auto simp: all_groups_def image_iff intro!: bexI [of _ "unat p"])
qed (simp add: all_groups_def)

lemma voters_in_order_simps [simp]:
  "sorted_wrt (<) (voters_in_order vs)" "length (voters_in_order vs) = card (voter_set vs)" "set (voters_in_order vs) = set vs"
  by (simp_all add: voter_set_def)

lemma active_unretired: "directory_ok v \<Longrightarrow> active_node v n \<Longrightarrow> mv_retired v n = None"
  using stored_entry(3) by (auto simp: active_node_def)

lemma sort_voters [simp]: "sorted_wrt (<) (vs :: node_id list) \<Longrightarrow> sort vs = vs"
  by (simp add: strict_sorted_iff sorted_sort_id)

lemma plan_keeps:
  assumes ok: "placements_ok v" "directory_ok v" and c: "mv_cluster v = Some c" "mv_placements v g = Some pl" "distinct ts"
    and legal: "case g of Data _ \<Rightarrow> legal_data_target c (voter_set (pl_voters pl)) (voter_set ts)
      | Meta \<Rightarrow> legal_meta_target (voter_set (pl_voters pl)) (voter_set ts)"
    and active: "\<forall>n \<in> voter_set ts - voter_set (pl_voters pl). active_node v n"
  shows "placements_ok (v\<lparr>mv_placements := (mv_placements v)(g \<mapsto>
    pl\<lparr>pl_move := Some \<lparr>mp_plan_id = i, mp_target_voters = voters_in_order ts, mp_aborting = b\<rparr>\<rparr>)\<rparr>)"
proof (rule placements_put [OF ok(1) c(1)])
  have old: "placement_ok c g pl" "unretired v pl" using placements_get [OF ok(1) c(2)] c(1) by auto
  show "placement_ok c g (pl\<lparr>pl_move := Some \<lparr>mp_plan_id = i, mp_target_voters = voters_in_order ts, mp_aborting = b\<rparr>\<rparr>)"
    using old(1) legal by (auto simp: placement_ok_def voters_ok_def voter_set_def legal_data_target_def legal_meta_target_def
        split: group_id.splits)
  have "mv_retired v n = None" if "n \<in> set ts" for n
    using that active old(2) active_unretired [OF ok(2)]
    by (cases "n \<in> set (pl_voters pl)") (auto simp: unretired_def references_node_iff voter_set_def)
  then show "unretired v (pl\<lparr>pl_move := Some \<lparr>mp_plan_id = i, mp_target_voters = voters_in_order ts, mp_aborting = b\<rparr>\<rparr>)"
    using old(2) by (auto simp: unretired_def references_node_iff)
qed

text \<open>Ending a move with the old voters or the target.\<close>

lemma resolve_keeps:
  assumes "placements_ok v" "mv_placements v g = Some pl" "pl_move pl = Some m" "vs = pl_voters pl \<or> vs = mp_target_voters m"
  shows "placements_ok (v\<lparr>mv_placements := (mv_placements v)(g \<mapsto> \<lparr>pl_voters = sort vs, pl_voters_log_id = l, pl_move = None\<rparr>)\<rparr>)"
proof -
  obtain c where c: "mv_cluster v = Some c" "placement_ok c g pl" "unretired v pl"
    using placements_get [OF assms(1,2)] .
  have vs: "voters_ok c g vs" using c(2) assms(3,4) by (auto simp: placement_ok_def)
  then have "sort vs = vs" by (simp add: voters_ok_def)
  moreover have "unretired v \<lparr>pl_voters = vs, pl_voters_log_id = l, pl_move = None\<rparr>"
    using c(3) assms(3,4) by (auto simp: unretired_def references_node_iff)
  ultimately show ?thesis
    using vs by (intro placements_put [OF assms(1) c(1)]) (simp_all add: placement_ok_def)
qed

lemma change_placements:
  assumes ok: "placements_ok v" "directory_ok v" and change: "meta_change E v lid cmd ws"
  shows "placements_ok (view_writes ws v)"
proof -
  have keep: "placements_ok v'"
    if "mv_cluster v' = mv_cluster v" "mv_placements v' = mv_placements v" "mv_retired v' = mv_retired v" for v'
    using ok(1) placements_cong [OF that] by simp
  from change show ?thesis
  proof cases
    case (init i c vs)
    then have "mv_retired v = (\<lambda>_. None)" "mv_placements v = (\<lambda>_. None)" using ok(1) by (simp_all add: placements_ok_def)
    with init show ?thesis
      by (auto simp: placements_ok_def cluster_ok_def placement_ok_def voters_ok_def unretired_def card_voter_set voter_set_def distinct_card)
  next
    case (retire n e inc c)
    have "placement_ok c g pl \<and> unretired v pl \<and> \<not> references_node pl n" if "mv_placements v g = Some pl" for g pl
    proof -
      have "placement_ok c g pl" "unretired v pl" using placements_get [OF ok(1) that] retire(7) by auto
      with retire(8) that group_listed show ?thesis by fastforce
    qed
    with retire ok(1) show ?thesis by (simp add: placements_ok_def unretired_def)
  next
    case (seed c p vs)
    then have "placements_ok (v\<lparr>mv_placements := (mv_placements v)(Data p \<mapsto>
        \<lparr>pl_voters = voters_in_order vs, pl_voters_log_id = lid, pl_move = None\<rparr>)\<rparr>)"
      using active_unretired [OF ok(2)]
      by (intro placements_put [OF ok(1)])
        (auto simp: placement_ok_def voters_ok_def unretired_def references_node_iff voter_set_def distinct_card)
    with seed show ?thesis by simp
  next
    case (plan c g pl ts pid)
    with plan_keeps [OF ok plan(3,4,6,7,8)] show ?thesis by simp
  next
    case (abort_mark g pl m pid)
    obtain c where c: "mv_cluster v = Some c" "placement_ok c g pl" "unretired v pl"
      using placements_get [OF ok(1) abort_mark(3)] .
    then have "placements_ok (v\<lparr>mv_placements := (mv_placements v)(g \<mapsto> pl\<lparr>pl_move := Some (m\<lparr>mp_aborting := True\<rparr>)\<rparr>)\<rparr>)"
      using abort_mark(4) by (intro placements_put [OF ok(1) c(1)]) (auto simp: placement_ok_def unretired_def references_node_iff split: group_id.splits)
    with abort_mark show ?thesis by simp
  next
    case (finalize g pl m pid ob)
    with resolve_keeps [OF ok(1) finalize(3,4)] show ?thesis by simp
  next
    case (aborted g pl m pid ob vs)
    with resolve_keeps [OF ok(1) aborted(3,4)] show ?thesis by simp
  next
    case drop_done
    then show ?thesis by (simp add: keep)
  qed (use keep in simp_all)
qed


subsection \<open>Maintenance operations\<close>

definition active_ids :: "meta_view \<Rightarrow> node_id set" where
  "active_ids v = nd_node_id ` {e \<in> snd ` set (mv_nodes v). nd_state e = Active}"

text \<open>What one record guarantees by itself, at every stage.\<close>

definition record_ok :: "maintenance_record \<Rightarrow> bool" where
  "record_ok r \<longleftrightarrow> mr_operation_id r \<noteq> 0 \<and> mr_generation r \<noteq> 0 \<and> mr_participants r \<noteq> []
     \<and> sorted_wrt (<) (mr_participants r)
     \<and> strictly_sorted (\<lambda>n. n) (mr_acknowledged r) \<and> set (mr_acknowledged r) \<subseteq> set (mr_participants r)
     \<and> (mr_stage r \<in> {Quiesced, Verifying} \<longrightarrow> mr_acknowledged r = mr_participants r)
     \<and> strictly_sorted (\<lambda>n. n) (mr_recovered r) \<and> set (mr_recovered r) \<subseteq> set (mr_participants r)
     \<and> strictly_sorted fst (mr_recovery_processes r) \<and> fst ` set (mr_recovery_processes r) = set (mr_recovered r)
     \<and> strictly_sorted fst (mr_recovery_policy_digests r) \<and> fst ` set (mr_recovery_policy_digests r) = set (mr_recovered r)
     \<and> (\<forall>d. mr_verification_policy_digest r = Some d \<longrightarrow>
          mr_recovered r = mr_participants r \<and> (\<forall>nd \<in> set (mr_recovery_policy_digests r). snd nd = d))
     \<and> (mr_verification_recovery_epoch r \<noteq> None \<longrightarrow> mr_recovered r = mr_participants r)"

text \<open>While an operation is active nothing moves: no plan, no index work, and the same active nodes.\<close>

definition quiet :: "meta_view \<Rightarrow> maintenance_record \<Rightarrow> bool" where
  "quiet v r \<longleftrightarrow> set (mr_participants r) = active_ids v
     \<and> (\<forall>g pl. mv_placements v g = Some pl \<longrightarrow> pl_move pl = None \<and> set (pl_voters pl) \<subseteq> active_ids v)
     \<and> (\<forall>i \<in> snd ` set (mv_indexes v). \<not> index_in_progress i)"

definition maintenance_ok :: "meta_view \<Rightarrow> bool" where
  "maintenance_ok v \<longleftrightarrow>
     (\<forall>r. mv_maintenance v = Some r \<longrightarrow> record_ok r \<and> (mr_stage r \<noteq> Released \<longrightarrow> quiet v r))"

lemma quiet_cong:
  "mv_nodes v' = mv_nodes v \<Longrightarrow> mv_placements v' = mv_placements v \<Longrightarrow> mv_indexes v' = mv_indexes v \<Longrightarrow>
   mr_participants r' = mr_participants r \<Longrightarrow> quiet v' r' \<longleftrightarrow> quiet v r"
  by (simp add: quiet_def active_ids_def)

lemma finite_active_ids [simp]: "finite (active_ids v)"
  by (simp add: active_ids_def)

text \<open>The sorted vector keyed by node, with the new entry put in its place.\<close>

lemma upsert_pairs:
  assumes "strictly_sorted fst xs"
  shows "(case binary_search_by_key fst xs n of
       Inr i \<Rightarrow> xs[i := (fst (xs ! i), y)] | Inl i \<Rightarrow> vec_insert xs i (n, y)) = upsert_by_key fst xs (n, y)"
  using binary_search_by_key_Inr [OF assms] by (auto simp: upsert_by_key_def split: sum.split)

lemma insert_node:
  "(case binary_search xs n of Inl i \<Rightarrow> vec_insert xs i n | Inr _ \<Rightarrow> xs) = upsert_by_key (\<lambda>x. x) xs n"
  if "strictly_sorted (\<lambda>x. x) xs" for xs :: "node_id list"
  using binary_search_by_key_Inr [OF that, of n] by (auto simp: upsert_by_key_def binary_search_def list_update_same_conv [symmetric] split: sum.split)

lemma confirm_recovery_eq:
  assumes "record_ok r"
  shows "confirm_recovery r n p d ep =
    (let recovered = upsert_by_key (\<lambda>x. x) (mr_recovered r) n;
         digests = upsert_by_key fst (mr_recovery_policy_digests r) (n, d)
     in r\<lparr>mr_recovered := recovered, mr_recovery_processes := upsert_by_key fst (mr_recovery_processes r) (n, p),
          mr_recovery_policy_digests := digests,
          mr_verification_policy_digest :=
            (if recovered = mr_participants r \<and> length digests = length (mr_participants r)
                \<and> map fst digests = mr_participants r \<and> list_all (\<lambda>(_, x). x = d) digests
             then Some d else None),
          mr_verification_recovery_epoch := (if recovered = mr_participants r then Some ep else None)\<rparr>)"
  using assms unfolding confirm_recovery_def Let_def
  by (simp only: insert_node upsert_pairs record_ok_def)

lemma record_ok_confirm:
  assumes ok: "record_ok r" and n: "n \<in> set (mr_participants r)"
  shows "record_ok (confirm_recovery r n p d ep)"
proof -
  have s: "strictly_sorted (\<lambda>n. n) (mr_recovered r)" "strictly_sorted fst (mr_recovery_processes r)"
    "strictly_sorted fst (mr_recovery_policy_digests r)"
    and f: "fst ` set (mr_recovery_processes r) = set (mr_recovered r)" "fst ` set (mr_recovery_policy_digests r) = set (mr_recovered r)"
    using ok by (simp_all add: record_ok_def)
  have "set (upsert_by_key (\<lambda>x. x) (mr_recovered r) n) = insert n (set (mr_recovered r))"
    by (auto simp: set_upsert_by_key [OF s(1)])
  moreover have "fst ` set (upsert_by_key fst (mr_recovery_processes r) (n, p)) = insert n (set (mr_recovered r))"
    using pair_vec.keys_upsert [OF s(2), of "(n, p)"] f by simp
  moreover have "fst ` set (upsert_by_key fst (mr_recovery_policy_digests r) (n, d)) = insert n (set (mr_recovered r))"
    using pair_vec.keys_upsert [OF s(3), of "(n, d)"] f by simp
  ultimately show ?thesis
    using ok n unfolding confirm_recovery_eq [OF ok] Let_def
    by (auto simp: record_ok_def strictly_sorted_upsert list_all_iff)
qed

lemma record_ok_acknowledge:
  assumes ok: "record_ok r" and n: "n \<in> set (mr_participants r)" and i: "binary_search (mr_acknowledged r) n = Inl i"
    and "mr_stage r = Preparing"
  shows "record_ok (r\<lparr>mr_acknowledged := vec_insert (mr_acknowledged r) i n\<rparr>)"
proof -
  have s: "strictly_sorted (\<lambda>n. n) (mr_acknowledged r)" using ok by (simp add: record_ok_def)
  have "vec_insert (mr_acknowledged r) i n = upsert_by_key (\<lambda>x. x) (mr_acknowledged r) n"
    using insert_node [OF s, of n] i by simp
  then show ?thesis
    using ok n assms(4) by (auto simp: record_ok_def strictly_sorted_upsert set_upsert_by_key)
qed

lemma member_participants:
  "record_ok r \<Longrightarrow> \<not> is_err (binary_search (mr_participants r) n) \<longleftrightarrow> n \<in> set (mr_participants r)"
  using id_vec.contains_iff [of "mr_participants r" n] by (simp add: record_ok_def strictly_sorted_def)

lemma begin_keeps:
  assumes ok: "placements_ok v" and c: "mv_cluster v = Some c" "oid \<noteq> 0" "gen \<noteq> 0"
    and ps: "ps = sorted_list_of_set (nd_node_id ` {e \<in> snd ` set (mv_nodes v). nd_state e = Active})" "ps \<noteq> []"
    and groups: "\<forall>g \<in> set (all_groups c). \<exists>pl. mv_placements v g = Some pl \<and> pl_move pl = None \<and> set (pl_voters pl) \<subseteq> set ps"
    and idx: "\<forall>r \<in> snd ` set (mv_indexes v). \<not> index_in_progress r"
  shows "maintenance_ok (v\<lparr>mv_maintenance := Some \<lparr>mr_operation_id = oid, mr_generation = gen, mr_participants = ps,
    mr_acknowledged = [], mr_recovered = [], mr_recovery_processes = [], mr_recovery_policy_digests = [],
    mr_verification_policy_digest = None, mr_verification_recovery_epoch = None, mr_stage = Preparing\<rparr>\<rparr>)"
proof -
  have set: "set ps = active_ids v" unfolding ps(1) active_ids_def [symmetric] by simp
  have quiet: "pl_move pl = None \<and> set (pl_voters pl) \<subseteq> active_ids v" if "mv_placements v g = Some pl" for g pl
  proof -
    have "placement_ok c g pl" using placements_get [OF ok that] c(1) by auto
    from groups [rule_format, OF group_listed [OF this]] that set show ?thesis by auto
  qed
  have sorted: "sorted_wrt (<) ps" unfolding ps(1) by (rule strict_sorted_list_of_set)
  have same: "active_ids (v\<lparr>mv_maintenance := m\<rparr>) = active_ids v" for m by (simp add: active_ids_def)
  show ?thesis
    using c(2,3) ps(2) idx quiet sorted
    by (simp add: maintenance_ok_def record_ok_def quiet_def strictly_sorted_def same set)
qed

lemma change_maintenance:
  assumes ok: "maintenance_ok v" "placements_ok v" and change: "meta_change E v lid cmd ws"
    and fence: "maintenance_idle v \<or> maintenance_command cmd"
  shows "maintenance_ok (view_writes ws v)"
proof -
  have put: "maintenance_ok (v\<lparr>mv_maintenance := Some r'\<rparr>)"
    if "operation v oid gen r" "mr_stage r \<noteq> Released" "record_ok r \<Longrightarrow> record_ok r'" "mr_participants r' = mr_participants r" for r r' oid gen
    using that ok(1) quiet_cong [of "v\<lparr>mv_maintenance := Some r'\<rparr>" v r' r] by (auto simp: maintenance_ok_def operation_def)
  have part: "n \<in> set (mr_participants r)"
    if "operation v oid gen r" "\<not> is_err (binary_search (mr_participants r) n)" for oid gen r n
    using that ok(1) member_participants [of r n] by (auto simp: maintenance_ok_def operation_def)
  have idle: "maintenance_ok v'" if "mv_maintenance v' = mv_maintenance v" "maintenance_idle v" for v'
    using that ok(1) by (auto simp: maintenance_ok_def maintenance_idle_def)
  from change show ?thesis
  proof cases
    case (begin_op c oid ps gen)
    have "gen \<noteq> 0" using begin_op(9) by (auto split: option.splits dest: checked_add1_nonzero)
    with begin_keeps [OF ok(2) begin_op(3,4) _ begin_op(5-8)] begin_op show ?thesis by simp
  next
    case (release oid gen r pd procs incs)
    with put [OF release(3), of "r\<lparr>mr_stage := Released\<rparr>"] show ?thesis by (auto simp: record_ok_def)
  next
    case (acknowledge oid gen r n e inc i)
    with put [OF acknowledge(3), of "r\<lparr>mr_acknowledged := vec_insert (mr_acknowledged r) i n\<rparr>"]
      record_ok_acknowledge [of r n i] part [OF acknowledge(3,5)]
    show ?thesis by simp
  next
    case (quiesce oid gen r)
    with put [OF quiesce(3), of "r\<lparr>mr_stage := Quiesced\<rparr>"] show ?thesis by (simp add: record_ok_def)
  next
    case (verify oid gen r)
    with put [OF verify(3), of "r\<lparr>mr_stage := Verifying, mr_recovered := [], mr_recovery_processes := [],
         mr_recovery_policy_digests := [], mr_verification_policy_digest := None,
         mr_verification_recovery_epoch := None\<rparr>"]
    show ?thesis by (simp add: record_ok_def strictly_sorted_def)
  next
    case (recovered oid gen r n e inc pinc pd ep c expected td)
    with put [OF recovered(3), of "confirm_recovery r n pinc pd ep"] record_ok_confirm [of r n pinc pd ep] part [OF recovered(3,5)]
    show ?thesis by (simp add: confirm_recovery_def Let_def)
  next
    case drop_done
    then show ?thesis using fence by (simp add: idle)
  next
    case build
    then have "\<not> maintenance_command cmd" by (auto simp: creates_index_def)
    with build fence show ?thesis by (simp add: idle)
  qed (use idle fence in simp_all)
qed

end
