(* ===== verification/Meta_Catalog.thy ===== *)
theory Meta_Catalog
  imports Meta_Inv
begin

section \<open>Invariants of the search catalog\<close>

text \<open>
  The catalog holds at most \<open>SEARCH_MAX_INDEXES\<close> records, each valid and with something left to
  do, and every readiness observation belongs to the generation that is being built: evidence
  for an old generation never survives into the decision to activate a new one.
\<close>

lemma index_key_inj [simp]: "meta_search_index_key a = meta_search_index_key b \<longleftrightarrow> a = b"
proof
  assume "meta_search_index_key a = meta_search_index_key b"
  then have "as_bytes a = as_bytes b" by (simp add: meta_search_index_key_def name_len_prefix_def)
  then show "a = b" by (simp add: as_bytes_inj)
qed simp

definition index_ok :: "('a meta_env_scheme) \<Rightarrow> search_index_record \<Rightarrow> bool" where
  "index_ok E r \<longleftrightarrow> validate_index_name (sr_name r) = Ok ()
     \<and> length (sr_retiring r) \<le> SEARCH_MAX_RETIRING_GENERATIONS
     \<and> (\<forall>g \<in> set_option (sr_active r) \<union> set_option (sr_building r). validate_integrity (sha256 E) (c_definition E) g = Ok ())
     \<and> (sr_active r \<noteq> None \<or> sr_building r \<noteq> None \<or> sr_retiring r \<noteq> [])"

definition catalog_ok :: "('a meta_env_scheme) \<Rightarrow> meta_view \<Rightarrow> bool" where
  "catalog_ok E v \<longleftrightarrow> strictly_sorted fst (mv_indexes v) \<and> length (mv_indexes v) \<le> SEARCH_MAX_INDEXES
     \<and> (\<forall>(k, r) \<in> set (mv_indexes v). k = meta_search_index_key (sr_name r) \<and> index_ok E r)"

definition observation_ok :: "meta_view \<Rightarrow> bytes \<Rightarrow> search_index_ready \<Rightarrow> bool" where
  "observation_ok v k ob \<longleftrightarrow> (\<exists>name r b. index_of v name = Some r \<and> sr_building r = Some b
     \<and> ry_generation ob = sg_id b \<and> ry_definition_hash ob = sg_definition_hash b
     \<and> ry_engine_revision ob = sg_engine_revision b
     \<and> k = meta_search_ready_key name (sg_id b) (ry_group ob) (ry_node_id ob))"

definition readiness_ok :: "meta_view \<Rightarrow> bool" where
  "readiness_ok v \<longleftrightarrow> strictly_sorted fst (mv_ready v) \<and> (\<forall>(k, ob) \<in> set (mv_ready v). observation_ok v k ob)"

lemma valid_record_ok:
  assumes "valid_record E r = Ok ()" "sr_active r \<noteq> None \<or> sr_building r \<noteq> None \<or> sr_retiring r \<noteq> []"
  shows "index_ok E r"
  using assms by (auto simp: validate_record_def index_ok_def opt_check_def split: if_splits option.splits)

lemma catalog_get:
  assumes "catalog_ok E v" "index_of v name = Some r"
  shows "sr_name r = name" "index_ok E r"
proof -
  have "(meta_search_index_key name, r) \<in> set (mv_indexes v)"
    using assms by (simp add: catalog_ok_def sorted_map_of_Some)
  with assms(1) show "sr_name r = name" "index_ok E r" by (auto simp: catalog_ok_def)
qed

lemma catalog_put:
  assumes ok: "catalog_ok E v" and r: "index_ok E r" "sr_name r = name"
    and room: "index_of v name = None \<longrightarrow> length (mv_indexes v) < SEARCH_MAX_INDEXES"
    and v': "mv_indexes v' = tput (meta_search_index_key name) r (mv_indexes v)"
  shows "catalog_ok E v'"
proof -
  have s: "strictly_sorted fst (mv_indexes v)" using ok by (simp add: catalog_ok_def)
  show ?thesis
    using ok r room unfolding catalog_ok_def v'
    by (auto simp: length_tput [OF s] set_upsert_by_key [OF s] strictly_sorted_upsert [OF s])
qed

lemma change_catalog:
  assumes ok: "catalog_ok E v" and change: "meta_change E v lid cmd ws"
  shows "catalog_ok E (view_writes ws v)"
proof -
  have keep: "catalog_ok E v'" if "mv_indexes v' = mv_indexes v" for v'
    using ok by (simp add: catalog_ok_def that)
  from change show ?thesis
  proof cases
    case (build name old gen)
    have "sr_name old = name" using build catalog_get [OF ok] by auto
    then show ?thesis
      by (intro catalog_put [OF ok]) (use build valid_record_ok [OF build(8)] in auto)
  next
    case (activate name r b gen c r' ret)
    then show ?thesis
      by (intro catalog_put [OF ok]) (use activate valid_record_ok [of E r'] catalog_get [OF ok activate(3)] in simp_all)
  next
    case (drop_index name r r' ret keys)
    have "ret \<noteq> []" using drop_index(4,6) by auto
    with drop_index show ?thesis
      by (intro catalog_put [OF ok]) (use valid_record_ok [of E r'] catalog_get [OF ok drop_index(3)] in simp_all)
  next
    case (drop_done name r gen r')
    note r = catalog_get [OF ok drop_done(2)]
    have "length (sr_retiring r') \<le> SEARCH_MAX_RETIRING_GENERATIONS"
      using r(2) drop_done(4) le_trans [OF length_filter_le] by (auto simp: index_ok_def)
    then have put: "index_ok E r'" if "sr_active r \<noteq> None \<or> sr_building r \<noteq> None \<or> sr_retiring r' \<noteq> []"
      using that r(2) drop_done(4) by (auto simp: index_ok_def)
    have deleted: "catalog_ok E v'" if "mv_indexes v' = tdelete (meta_search_index_key name) (mv_indexes v)" for v'
      using ok le_trans [OF length_filter_le]
      by (auto simp: catalog_ok_def that strictly_sorted_def sorted_wrt_filter)
    show ?thesis
    proof (cases "sr_active r = None \<and> sr_building r = None \<and> sr_retiring r' = []")
      case True
      with drop_done show ?thesis by (simp add: deleted)
    next
      case False
      with drop_done r put show ?thesis by (intro catalog_put [OF ok, of r' name]) auto
    qed
  qed (use keep in simp_all)
qed

subsection \<open>Readiness observations\<close>

lemma fold_tdelete: "fold tdelete ks kvs = filter (\<lambda>kv. fst kv \<notin> set ks) kvs"
  by (induction ks arbitrary: kvs) (auto intro: filter_cong)

lemma name_short: "validate_index_name name = Ok () \<Longrightarrow> length name < 2 ^ 32"
  by (auto simp: validate_index_name_def validate_name_def SEARCH_MAX_NAME_BYTES_def split: if_splits)

text \<open>A readiness key determines the index name and the generation.\<close>

lemma ready_key_prefix:
  assumes "length name < 2 ^ 32" "length name' < 2 ^ 32"
  shows "starts_with (meta_search_ready_key name gen g n) (meta_search_ready_prefix name' gen') \<longleftrightarrow> name = name' \<and> gen = gen'"
proof
  assume "starts_with (meta_search_ready_key name gen g n) (meta_search_ready_prefix name' gen')"
  then obtain r where "meta_search_ready_key name gen g n = meta_search_ready_prefix name' gen' @ r"
    by (auto simp: starts_with_iff)
  then have "name_len_prefix name @ as_bytes name @ to_be_bytes 8 gen @ topology_group_bytes g @ to_be_bytes 8 n
      = name_len_prefix name' @ as_bytes name' @ to_be_bytes 8 gen' @ r"
    by (simp add: meta_search_ready_key_def meta_search_ready_prefix_def ready_group_bytes_prefix)
  then show "name = name' \<and> gen = gen'"
    by (simp add: name_len_prefix_inj [OF assms] append_eq_append_conv)
qed (simp add: meta_search_ready_key_def starts_with_iff)

text \<open>Observations survive while the generation they were made for is still being built.\<close>

lemma readiness_carry:
  assumes ok: "readiness_ok v" and rdy: "mv_ready v' = filter q (mv_ready v)"
    and same: "\<And>k ob name r b. (k, ob) \<in> set (mv_ready v) \<Longrightarrow> q (k, ob) \<Longrightarrow> index_of v name = Some r \<Longrightarrow>
      sr_building r = Some b \<Longrightarrow> k = meta_search_ready_key name (sg_id b) (ry_group ob) (ry_node_id ob) \<Longrightarrow>
      \<exists>r'. index_of v' name = Some r' \<and> sr_building r' = Some b"
  shows "readiness_ok v'"
proof -
  have "observation_ok v' k ob" if "(k, ob) \<in> set (mv_ready v)" "q (k, ob)" for k ob
  proof -
    have "observation_ok v k ob" using ok that(1) by (auto simp: readiness_ok_def)
    then show ?thesis unfolding observation_ok_def using same [OF that] by metis
  qed
  then show ?thesis
    using ok by (auto simp: readiness_ok_def rdy strictly_sorted_def sorted_wrt_filter)
qed

lemma change_readiness:
  assumes ok: "readiness_ok v" "catalog_ok E v" and change: "meta_change E v lid cmd ws"
  shows "readiness_ok (view_writes ws v)"
proof -
  have keep: "readiness_ok v'" if "mv_indexes v' = mv_indexes v" "mv_ready v' = mv_ready v" for v'
    using ok(1) by (simp add: readiness_ok_def observation_ok_def that)
  have sorted: "strictly_sorted fst (mv_ready v)" using ok(1) by (simp add: readiness_ok_def)
  have short: "length name < 2 ^ 32" if "index_of v name = Some r" for name r
    using catalog_get [OF ok(2) that] name_short by (auto simp: index_ok_def)
  have put: "map_of (tput (meta_search_index_key name) r (mv_indexes v)) (meta_search_index_key n) =
      (if n = name then Some r else index_of v n)" for name r n
    using ok(2) by (simp add: catalog_ok_def map_of_upsert)
  from change show ?thesis
  proof cases
    case (build name old gen)
    show ?thesis
      by (rule readiness_carry [OF ok(1), where q = "\<lambda>_. True"]) (use build in \<open>auto simp: put\<close>)
  next
    case (ready name r b ob p c pl)
    have new: "observation_ok v (meta_search_ready_key name (sg_id b) (Data p) (ry_node_id ob)) ob"
      unfolding observation_ok_def
      by (rule exI [of _ name], rule exI [of _ r], rule exI [of _ b]) (use ready in simp)
    have "observation_ok (view_writes ws v) = observation_ok v" using ready by (intro ext) (simp add: observation_ok_def)
    with new ready ok(1) show ?thesis
      by (auto simp: readiness_ok_def set_upsert_by_key [OF sorted] strictly_sorted_upsert [OF sorted])
  next
    case (activate name r b gen c r' ret)
    show ?thesis
      by (rule readiness_carry [OF ok(1), where q = "\<lambda>kv. fst kv \<notin> set (map fst (under (meta_search_ready_prefix name gen) (mv_ready v)))"])
        (use activate short [OF activate(3)] in \<open>auto simp: fold_tdelete under_def ready_key_prefix image_iff put\<close>)
  next
    case (drop_index name r r' ret keys)
    show ?thesis
      by (rule readiness_carry [OF ok(1), where q = "\<lambda>kv. fst kv \<notin> set keys"])
        (use drop_index short [OF drop_index(3)] in \<open>auto simp: fold_tdelete under_def ready_key_prefix image_iff put split: option.splits\<close>)
  next
    case (drop_done name r gen r')
    show ?thesis
      by (rule readiness_carry [OF ok(1), where q = "\<lambda>_. True"]) (use drop_done in \<open>auto simp: map_of_tdelete put\<close>)
  qed (use keep in simp_all)
qed

end
