(* ===== verification/Meta_Runs.thy ===== *)
theory Meta_Runs
  imports Meta_Catalog Data_Runs
begin

section \<open>Properties of the meta group\<close>

text \<open>
  What the meta group guarantees over any committed log, from a fresh node on: the applier runs
  the typed machine, the directory, placements, maintenance record and search catalog stay
  sound, accepted history is never undone, and the decisive transitions (a voter change, an
  activation, a release) happen only on the evidence the code asks for.
\<close>

subsection \<open>Reference codecs\<close>

definition p_hash_spec :: "hash_spec pcodec" where
  "p_hash_spec = p_iso (\<lambda>s. \<lparr>hs_algo = Xxh64, hs_seed = s\<rparr>) hs_seed p_u64"

definition p_cluster :: "cluster_config pcodec" where
  "p_cluster = p_iso
     (\<lambda>(i, v, p, r, h). \<lparr>cc_cluster_id = i, cc_protocol_version = v, cc_p = p, cc_r = r, cc_hash_spec = h\<rparr>)
     (\<lambda>c. (cc_cluster_id c, cc_protocol_version c, cc_p c, cc_r c, cc_hash_spec c))
     (p_pair p_u128 (p_pair p_u32 (p_pair p_u16 (p_pair p_u8 p_hash_spec))))"

definition p_node_state :: "node_state pcodec" where
  "p_node_state = p_enum [Active, Suspect, Down, Draining]
     (\<lambda>s. case s of Active \<Rightarrow> 0 | Suspect \<Rightarrow> 1 | Down \<Rightarrow> 2 | Draining \<Rightarrow> 3)"

definition p_node :: "node_directory_entry pcodec" where
  "p_node = p_iso
     (\<lambda>(n, c, b, s, i). \<lparr>nd_node_id = n, nd_control_addr = c, nd_bulk_addr = b, nd_state = s, nd_incarnation = i\<rparr>)
     (\<lambda>e. (nd_node_id e, nd_control_addr e, nd_bulk_addr e, nd_state e, nd_incarnation e))
     (p_pair p_u64 (p_pair p_string (p_pair p_string (p_pair p_node_state p_u64))))"

definition p_move :: "move_plan pcodec" where
  "p_move = p_iso (\<lambda>(i, t, a). \<lparr>mp_plan_id = i, mp_target_voters = t, mp_aborting = a\<rparr>)
     (\<lambda>m. (mp_plan_id m, mp_target_voters m, mp_aborting m)) (p_pair p_u64 (p_pair (p_list p_u64) p_bool))"

definition p_placement :: "placement pcodec" where
  "p_placement = p_iso (\<lambda>(vs, l, m). \<lparr>pl_voters = vs, pl_voters_log_id = l, pl_move = m\<rparr>)
     (\<lambda>p. (pl_voters p, pl_voters_log_id p, pl_move p)) (p_pair (p_list p_u64) (p_pair p_log_id (p_option p_move)))"

definition p_stage :: "maintenance_stage pcodec" where
  "p_stage = p_enum [Preparing, Quiesced, Verifying, Released]
     (\<lambda>s. case s of Preparing \<Rightarrow> 0 | Quiesced \<Rightarrow> 1 | Verifying \<Rightarrow> 2 | Released \<Rightarrow> 3)"

definition p_maintenance :: "maintenance_record pcodec" where
  "p_maintenance = p_iso
     (\<lambda>(oid, gen, ps, acks, recs, procs, digs, vpd, vre, stg). \<lparr>mr_operation_id = oid, mr_generation = gen,
        mr_participants = ps, mr_acknowledged = acks, mr_recovered = recs, mr_recovery_processes = procs,
        mr_recovery_policy_digests = digs, mr_verification_policy_digest = vpd, mr_verification_recovery_epoch = vre,
        mr_stage = stg\<rparr>)
     (\<lambda>r. (mr_operation_id r, mr_generation r, mr_participants r, mr_acknowledged r, mr_recovered r,
        mr_recovery_processes r, mr_recovery_policy_digests r, mr_verification_policy_digest r,
        mr_verification_recovery_epoch r, mr_stage r))
     (p_pair p_u128 (p_pair p_u64 (p_pair (p_list p_u64) (p_pair (p_list p_u64) (p_pair (p_list p_u64)
        (p_pair (p_list (p_pair p_u64 p_u64)) (p_pair (p_list (p_pair p_u64 p_bytes)) (p_pair (p_option p_bytes)
        (p_pair (p_option p_u128) p_stage)))))))))"

definition p_identity :: "identity pcodec" where
  "p_identity = p_iso (\<lambda>(c, n). \<lparr>id_cluster_id = c, id_node_id = n\<rparr>) (\<lambda>i. (id_cluster_id i, id_node_id i)) (p_pair p_u128 p_u64)"

definition ref_meta_env :: "node_id list meta_apply_env" where
  "ref_meta_env = \<lparr>c_string = whole p_string, c_u64 = whole p_u64, c_u128 = whole p_u128,
     c_log_id = whole p_log_id, c_serving = whole p_serving,
     c_consumer = whole p_consumer, c_definition = whole p_definition,
     c_cluster = whole p_cluster, c_node = whole p_node, c_placement = whole p_placement,
     c_maintenance = whole p_maintenance, c_index = whole p_index_record, c_ready = whole p_ready,
     c_identity = whole p_identity, sha256 = (\<lambda>bs. replicate 32 (of_nat (length bs))),
     c_meta_applied = whole p_applied, c_meta_committed = whole (p_option p_raft_log_id),
     meta_default_membership = []\<rparr>"

lemma pok_meta_parts [pok_intros]: "pok p_hash_spec" "pok p_node_state" "pok p_stage" "pok p_move" "pok p_identity"
  unfolding p_hash_spec_def p_move_def p_identity_def p_node_state_def p_stage_def
proof -
  show "pok (p_iso (\<lambda>s. \<lparr>hs_algo = Xxh64, hs_seed = s\<rparr>) hs_seed p_u64)"
  proof (intro pok_intros)
    show "\<lparr>hs_algo = Xxh64, hs_seed = hs_seed y\<rparr> = y" for y
      by (cases "hs_algo y") (simp add: hash_spec.equality)
  qed simp
  show "pok (p_enum [Active, Suspect, Down, Draining] (\<lambda>s. case s of Active \<Rightarrow> 0 | Suspect \<Rightarrow> 1 | Down \<Rightarrow> 2 | Draining \<Rightarrow> 3))"
    by (rule pok_enum) (auto split: node_state.split)
  show "pok (p_enum [Preparing, Quiesced, Verifying, Released]
      (\<lambda>s. case s of Preparing \<Rightarrow> 0 | Quiesced \<Rightarrow> 1 | Verifying \<Rightarrow> 2 | Released \<Rightarrow> 3))"
    by (rule pok_enum) (auto split: maintenance_stage.split)
qed (intro pok_intros; simp)+

lemma pok_meta [pok_intros]: "pok p_cluster" "pok p_node" "pok p_placement" "pok p_maintenance"
  unfolding p_cluster_def p_node_def p_placement_def p_maintenance_def by (intro pok_intros; simp)+

lemma ref_meta_env_ok: "meta_codecs_ok ref_meta_env"
  by (auto simp: meta_codecs_ok_def search_codecs_ok_def ref_meta_env_def intro!: codec_ok_whole pok_intros)


subsection \<open>The applier runs the machine\<close>

text \<open>A fresh meta group: an identity is bound, nothing else is written.\<close>

definition initial_view :: "identity \<Rightarrow> meta_view" where
  "initial_view i = \<lparr>mv_cluster = None, mv_maintenance = None, mv_epoch = None, mv_identity = Some i,
     mv_placements = (\<lambda>_. None), mv_retired = (\<lambda>_. None), mv_nodes = [], mv_indexes = [], mv_ready = []\<rparr>"

definition demo_identity :: identity where "demo_identity = \<lparr>id_cluster_id = 7, id_node_id = 1\<rparr>"

definition demo_meta_store :: storage where
  "demo_meta_store = \<lparr>db_default = [(identity_key, enc (c_identity ref_meta_env) demo_identity)],
     db_cfs = [cf_state Meta \<mapsto> [], cf_log Meta \<mapsto> []], db_failed = None\<rparr>"

definition demo_meta_entry :: "u64 \<Rightarrow> meta_command \<Rightarrow> node_id list meta_entry" where
  "demo_meta_entry i cmd = \<lparr>me_log_id = RaftLogId 1 1 i, me_payload = MNormal cmd\<rparr>"

text \<open>A registration before the cluster exists, a plan before any placement, and a membership change.\<close>

definition demo_meta_log :: "node_id list meta_entry list" where
  "demo_meta_log = [demo_meta_entry 1 (RegisterNode 1 ''c'' ''b''), demo_meta_entry 2 (MarkAborting Meta 0),
     \<lparr>me_log_id = RaftLogId 1 1 3, me_payload = MMembership [1]\<rparr>]"

lemma demo_meta_ready:
  "meta_ready ref_meta_env demo_meta_store (cf_state Meta) [] [] (initial_view demo_identity)"
proof -
  have id: "dec (c_identity ref_meta_env) (enc (c_identity ref_meta_env) demo_identity) = Ok demo_identity"
    using ref_meta_env_ok by (simp add: meta_codecs_ok_def codec_ok_def)
  have "identity_key \<noteq> state_cf_pointer_key Meta" by (simp add: identity_key_def state_cf_pointer_key_def as_bytes_Cons)
  moreover have "\<not> starts_with identity_key (search_outbox_prefix Meta)" "\<not> starts_with identity_key (search_consumer_prefix Meta)"
    by (simp_all add: starts_with_iff identity_key_def search_outbox_prefix_def search_consumer_prefix_def search_prefix_def as_bytes_Cons)
  ultimately show ?thesis
    using id
    by (simp add: meta_ready_def group_ready_def group_open_def outbox_ok_def outbox_readable_def search_consumers_def
        cf_iter_prefix_def demo_meta_store_def initial_view_def meta_at_def meta_rep_def under_def state_cf_Ok
        active_state_cf_name_def get_local_def cf_log_def cf_state_def strictly_sorted_def cf_get_def)
qed

text \<open>C7: The Raft applier of the meta group refines the typed machine.  On a store that represents a
  view, with codecs that round-trip, applying a committed log whose entries all evaluate returns
  exactly the answers of the machine, in order; the store afterwards represents the machine's view,
  still healthy, and carries the applied record of the last entry.\<close>

theorem meta_applier_refines:
  assumes "meta_ready E st name cf lcf v" "meta_codecs_ok E"
    and "snd (run_log (entry_step E) v es) = map Inr as"
    and "case cf_get cf raft_applied_key of Some bs \<Rightarrow> dec (c_meta_applied E) bs = Ok (l, m)
      | None \<Rightarrow> (l, m) = (None, (None, meta_default_membership E))"
  shows "\<exists>st' cf' lcf'. meta_raft_apply E no_fault es st = (st', Ok as)
    \<and> meta_ready E st' name cf' lcf' (fst (run_log (entry_step E) v es))
    \<and> (es \<noteq> [] \<longrightarrow> cf_get cf' raft_applied_key = Some (enc (c_meta_applied E) (Some (me_log_id (last es)), membership_after m es)))"
proof -
  have "meta_read_applied E st = (st, Ok (l, m))"
    using meta_read_applied_Ok [OF assms(1)] assms(4) by blast
  with meta_apply_loop_runs [OF assms(1-3), of m "[]"] show ?thesis
    by (simp add: meta_raft_apply_def applied_up_to_def)
qed

theorem meta_applier_refines_witness:
  "\<exists>st'. meta_raft_apply ref_meta_env no_fault demo_meta_log demo_meta_store =
     (st', Ok [MRejected ClusterNotInitialized, MRejected NoPlan, MNoOp])"
proof -
  have "snd (run_log (entry_step ref_meta_env) (initial_view demo_identity) demo_meta_log) =
      map Inr [MRejected ClusterNotInitialized, MRejected NoPlan, MNoOp]"
    by (simp add: demo_meta_log_def demo_meta_entry_def entry_step_def meta_step_def meta_evaluate_view maintenance_idle_def
        initial_view_def register_node_def mark_aborting_def)
  from meta_applier_refines [OF demo_meta_ready ref_meta_env_ok this, of None "(None, [])"] show ?thesis
    by (auto simp: ref_meta_env_def)
qed

subsection \<open>Invariants over a log\<close>

definition meta_inv :: "('a meta_env_scheme) \<Rightarrow> meta_view \<Rightarrow> bool" where
  "meta_inv E v \<longleftrightarrow> directory_ok v \<and> placements_ok v \<and> maintenance_ok v \<and> catalog_ok E v \<and> readiness_ok v"

lemma meta_step_inv: "meta_inv E v \<Longrightarrow> meta_inv E (fst (meta_step E v (lid, cmd)))"
  by (cases rule: meta_step_cases [of E v lid cmd])
    (auto simp: meta_inv_def change_directory change_placements change_maintenance change_catalog change_readiness)

lemma entry_step_inv: "meta_inv E v \<Longrightarrow> meta_inv E (fst (entry_step E v e))"
  by (cases "me_payload e") (simp_all add: entry_step_def meta_step_inv)

interpretation meta: log_machine "entry_step E" "meta_inv E" for E
  by unfold_locales (rule entry_step_inv)

lemma initial_inv: "meta_inv E (initial_view i)"
  by (simp add: meta_inv_def initial_view_def directory_ok_def placements_ok_def maintenance_ok_def catalog_ok_def
      readiness_ok_def strictly_sorted_def)

text \<open>The view of a meta group that started fresh and applied a log.\<close>

abbreviation view_after :: "('a meta_env_scheme) \<Rightarrow> identity \<Rightarrow> 'm meta_entry list \<Rightarrow> meta_view" where
  "view_after E i es \<equiv> fst (run_log (entry_step E) (initial_view i) es)"

lemma reachable_inv: "meta_inv E (view_after E i es)"
  by (rule meta.inv_run [OF initial_inv])

text \<open>C14: After any committed log the node directory is sound: at most eight entries, each under the
  key of its own id with non-empty, distinct, bounded endpoints and a positive incarnation; no two
  nodes share an endpoint on either lane; and no retired id is registered.\<close>

theorem directory_always_sound: "directory_ok (view_after E i es)"
  using reachable_inv [of E i es] by (simp add: meta_inv_def)

text \<open>C8: After any committed log the placements are legal: once the cluster record exists its shape is
  valid and the meta group is placed; every data group placed is within the partition range and has
  exactly R distinct voters in ascending order; the meta group keeps at least three; a pending plan
  changes one voter only; and no placement or plan names a retired node.\<close>

theorem placements_always_legal: "placements_ok (view_after E i es)"
  using reachable_inv [of E i es] by (simp add: meta_inv_def)

text \<open>C15: After any committed log the maintenance record is consistent (acknowledgements and recoveries
  come from participants, a quiesced operation was acknowledged by all of them, a verification policy
  digest was confirmed by all of them), and while the operation is active the participants are
  exactly the active nodes, no group has a pending plan and no index is being built or retired.\<close>

theorem maintenance_always_quiet: "maintenance_ok (view_after E i es)"
  using reachable_inv [of E i es] by (simp add: meta_inv_def)

text \<open>C16: After any committed log the search catalog holds at most 64 records, each under its own name,
  valid and with an active, building or retiring generation; and every stored readiness observation
  was made for the generation that its index is building.\<close>

theorem catalog_always_sound: "catalog_ok E (view_after E i es) \<and> readiness_ok (view_after E i es)"
  using reachable_inv [of E i es] by (simp add: meta_inv_def)


subsection \<open>Accepted history is never undone\<close>

definition evolves :: "meta_view \<Rightarrow> meta_view \<Rightarrow> bool" where
  "evolves v v' \<longleftrightarrow>
     (\<forall>c. mv_cluster v = Some c \<longrightarrow> mv_cluster v' = Some c)
     \<and> (\<forall>n i. mv_retired v n = Some i \<longrightarrow> mv_retired v' n = Some i)
     \<and> (\<forall>n e. node_of v n = Some e \<longrightarrow>
          (\<exists>e'. node_of v' n = Some e' \<and> nd_incarnation e \<le> nd_incarnation e')
          \<or> (\<exists>i. mv_retired v' n = Some i \<and> nd_incarnation e \<le> i))
     \<and> (\<forall>r. mv_maintenance v = Some r \<longrightarrow> (\<exists>r'. mv_maintenance v' = Some r' \<and> mr_generation r \<le> mr_generation r'
          \<and> (mr_generation r = mr_generation r' \<longrightarrow> mr_operation_id r = mr_operation_id r')))"

lemma evolves_refl: "evolves v v"
  by (simp add: evolves_def)

lemma evolves_trans:
  assumes "evolves a b" "evolves b c"
  shows "evolves a c"
proof -
  have "(\<exists>e'. node_of c n = Some e' \<and> nd_incarnation e \<le> nd_incarnation e')
      \<or> (\<exists>i. mv_retired c n = Some i \<and> nd_incarnation e \<le> i)" if "node_of a n = Some e" for n e
    using assms that unfolding evolves_def by (meson order_trans)
  moreover have "\<exists>r'. mv_maintenance c = Some r' \<and> mr_generation r \<le> mr_generation r'
      \<and> (mr_generation r = mr_generation r' \<longrightarrow> mr_operation_id r = mr_operation_id r')"
    if r: "mv_maintenance a = Some r" for r
  proof -
    obtain s where s: "mv_maintenance b = Some s" "mr_generation r \<le> mr_generation s"
      "mr_generation r = mr_generation s \<longrightarrow> mr_operation_id r = mr_operation_id s"
      using assms(1) r unfolding evolves_def by blast
    obtain t where "mv_maintenance c = Some t" "mr_generation s \<le> mr_generation t"
      "mr_generation s = mr_generation t \<longrightarrow> mr_operation_id s = mr_operation_id t"
      using assms(2) s(1) unfolding evolves_def by blast
    with s show ?thesis by (intro exI [of _ t]) auto
  qed
  ultimately show ?thesis
    using assms by (auto simp: evolves_def)
qed

lemma change_evolves:
  assumes ok: "directory_ok v" and change: "meta_change E v lid cmd ws"
  shows "evolves v (view_writes ws v)"
proof -
  have s: "strictly_sorted fst (mv_nodes v)" using ok by (simp add: directory_ok_def)
  note node = map_of_upsert [OF s] map_of_tdelete
  from change show ?thesis
  proof cases
    case (rejoin n c b e e' inc)
    have "nd_incarnation e' = inc" using rejoin(9) by auto
    with rejoin checked_add1_less [OF rejoin(10)] show ?thesis by (auto simp: evolves_def node)
  next
    case (retire n e inc c)
    then show ?thesis by (auto simp: evolves_def node)
  next
    case (begin_op c oid ps gen)
    then show ?thesis using checked_add1_less by (fastforce simp: evolves_def split: option.splits)
  next
    case (recovered oid gen r n e inc pinc pd ep c expected td)
    then show ?thesis by (simp add: evolves_def operation_def confirm_recovery_def Let_def)
  next
    case drop_done
    then show ?thesis by (simp add: evolves_def)
  qed (simp_all add: evolves_def node operation_def)
qed

lemma entry_step_evolves: "meta_inv E v \<Longrightarrow> evolves v (fst (entry_step E v e))"
proof (cases "me_payload e")
  case (MNormal cmd)
  assume "meta_inv E v"
  then have "directory_ok v" by (simp add: meta_inv_def)
  with MNormal show ?thesis
    by (cases rule: meta_step_cases [of E v "to_crate_log_id (me_log_id e)" cmd])
      (auto simp: entry_step_def evolves_refl change_evolves)
qed (simp_all add: entry_step_def evolves_refl)

text \<open>C17: Accepted history is never undone.  Along any committed log that continues a reachable state, the
  cluster record never changes once written, a retired node keeps its tombstone, a registered node
  keeps an incarnation at least as high or is retired at one, and the maintenance generation never
  goes back nor is reused for another operation.\<close>

theorem history_never_undone: "evolves (view_after E i es) (view_after E i (es @ fs))"
proof -
  define v where "v = view_after E i es"
  have "meta_inv E v" unfolding v_def by (rule reachable_inv)
  then have "evolves v (fst (run_log (entry_step E) v fs))"
  proof (induction fs arbitrary: v)
    case (Cons f fs)
    from evolves_trans [OF entry_step_evolves [OF Cons.prems, of f] Cons.IH [OF entry_step_inv [OF Cons.prems]]] show ?case
      by (simp add: run_log_Cons del: run_log.simps)
  qed (simp add: evolves_refl)
  then show ?thesis by (simp add: v_def run_log_append)
qed

subsection \<open>Decisive transitions\<close>

definition demo_node :: node_directory_entry where
  "demo_node = \<lparr>nd_node_id = 1, nd_control_addr = ''c'', nd_bulk_addr = ''b'', nd_state = Active, nd_incarnation = 1\<rparr>"

definition demo_directory :: meta_view where
  "demo_directory = (initial_view demo_identity)\<lparr>mv_nodes := [(meta_node_key 1, demo_node)]\<rparr>"

text \<open>C9: The voters of a group change only on an observed configuration.  If a step gives a placed group a
  different voter list, the command is a finalize or abort report for the group's pending plan, with
  an observation of that group and plan whose voter set is the new voter list; the new list is the
  plan's target (or, for an abort, the voters as they were); and the plan is resolved.\<close>

theorem voters_change_on_observation:
  assumes "meta_step E v (lid, cmd) = (v', r)" "placements_ok v"
    and "mv_placements v g = Some pl" "mv_placements v' g = Some pl'" "pl_voters pl' \<noteq> pl_voters pl"
  shows "\<exists>m ob. pl_move pl = Some m \<and> do_group ob = g \<and> do_plan_id ob = mp_plan_id m
    \<and> (cmd = FinalizePlan g (mp_plan_id m) ob \<and> \<not> mp_aborting m \<or> cmd = AbortReport g (mp_plan_id m) ob \<and> mp_aborting m)
    \<and> pl_voters pl' = mp_target_voters m \<and> set (do_voter_set ob) = set (pl_voters pl')
    \<and> pl_move pl' = None \<and> pl_voters_log_id pl' = do_config_log_id ob"
proof (cases rule: meta_step_cases [of E v lid cmd])
  case same
  with assms show ?thesis by auto
next
  case (change ws)
  have v': "v' = view_writes ws v" using change(1) assms(1) by simp
  obtain c where c: "placement_ok c g pl" using placements_get [OF assms(2,3)] .
  have sorted: "sorted_wrt (<) (pl_voters pl)" "\<And>m. pl_move pl = Some m \<Longrightarrow> sorted_wrt (<) (mp_target_voters m)"
    using c by (auto simp: placement_ok_def voters_ok_def)
  from change(2) show ?thesis
  proof cases
    case (finalize g' pl0 m pid ob)
    have g: "g' = g" using finalize(2) assms(3-5) v' by (cases "g' = g") auto
    have m: "pl_move pl = Some m" using finalize(3,4) assms(3) g by simp
    have "pl' = \<lparr>pl_voters = mp_target_voters m, pl_voters_log_id = do_config_log_id ob, pl_move = None\<rparr>"
      using finalize(2) assms(4) v' g sorted(2) [OF m] by simp
    then show ?thesis using finalize(1,5-9) m g by (intro exI [of _ m] exI [of _ ob]) (simp add: voter_set_def)
  next
    case (aborted g' pl0 m pid ob vs)
    have g: "g' = g" using aborted(2) assms(3-5) v' by (cases "g' = g") auto
    have m: "pl0 = pl" "pl_move pl = Some m" using aborted(3,4) assms(3) g by simp_all
    have "sort vs = vs" using aborted(9) sorted m by auto
    then have pl': "pl' = \<lparr>pl_voters = vs, pl_voters_log_id = do_config_log_id ob, pl_move = None\<rparr>"
      using aborted(2) assms(4) v' g by simp
    then have "vs = mp_target_voters m" using aborted(9) assms(5) m(1) by auto
    then show ?thesis using aborted(1,5-8,10) m(2) g pl' by (intro exI [of _ m] exI [of _ ob]) (simp add: voter_set_def)
  next
    case init
    then show ?thesis using assms(2-5) by (simp add: placements_ok_def)
  next
    case drop_done
    then have "mv_placements v' = mv_placements v" using v' by simp
    then show ?thesis using assms(3-5) by simp
  next
    case (seed c' p vs)
    then show ?thesis using assms(3-5) v' by (cases "g = Data p") simp_all
  next
    case (plan c' g' pl0 ts pid)
    then show ?thesis using assms(3-5) v' by (cases "g = g'") auto
  next
    case (abort_mark g' pl0 m pid)
    then show ?thesis using assms(3-5) v' by (cases "g = g'") auto
  qed (use assms(3-5) v' in simp_all)
qed


text \<open>A cluster of two partitions with a plan that replaces node 3 by node 4 in partition 0.\<close>

definition demo_cluster :: cluster_config where
  "demo_cluster = \<lparr>cc_cluster_id = 7, cc_protocol_version = PROTOCOL_VERSION, cc_p = 2, cc_r = 3, cc_hash_spec = CANONICAL\<rparr>"

definition demo_placement :: placement where
  "demo_placement = \<lparr>pl_voters = [1, 2, 3], pl_voters_log_id = LogId 1 2,
     pl_move = Some \<lparr>mp_plan_id = 5, mp_target_voters = [1, 2, 4], mp_aborting = False\<rparr>\<rparr>"

definition demo_moving :: meta_view where
  "demo_moving = (initial_view demo_identity)\<lparr>mv_cluster := Some demo_cluster,
     mv_placements := [Data 0 \<mapsto> demo_placement,
       Meta \<mapsto> \<lparr>pl_voters = [1, 2, 3], pl_voters_log_id = LogId 1 1, pl_move = None\<rparr>]\<rparr>"

definition demo_observation :: data_config_observation where
  "demo_observation = \<lparr>do_group = Data 0, do_plan_id = 5, do_voter_set = [4, 2, 1], do_config_log_id = LogId 2 9\<rparr>"

lemma demo_moving_ok: "placements_ok demo_moving"
proof -
  have "cluster_ok demo_cluster"
    by (simp add: cluster_ok_def demo_cluster_def validate_routing_shape_eq)
  moreover have "card ({1, 2, 4} - {1, 2, 3 :: u64}) = 1" "card ({1, 2, 3} - {1, 2, 4 :: u64}) = 1" by code_simp+
  ultimately show ?thesis
    by (simp add: placements_ok_def demo_moving_def initial_view_def placement_ok_def voters_ok_def demo_placement_def
        unretired_def legal_data_target_def demo_cluster_def insert_Diff_if)
qed

theorem voters_change_on_observation_witness:
  "\<exists>v' pl'. meta_step ref_meta_env demo_moving (LogId 2 10, FinalizePlan (Data 0) 5 demo_observation) = (v', Ok MApplied)
     \<and> mv_placements v' (Data 0) = Some pl' \<and> pl_voters pl' = [1, 2, 4] \<and> pl_move pl' = None"
proof -
  let ?pl' = "\<lparr>pl_voters = [1, 2, 4], pl_voters_log_id = LogId 2 9, pl_move = None\<rparr>"
  let ?v' = "demo_moving\<lparr>mv_placements := (mv_placements demo_moving)(Data 0 \<mapsto> ?pl')\<rparr>"
  have sets: "{4, 2, 1} = {1, 2, 4 :: u64}" by auto
  have step: "meta_step ref_meta_env demo_moving (LogId 2 10, FinalizePlan (Data 0) 5 demo_observation) = (?v', Ok MApplied)"
    by (simp add: meta_step_def meta_evaluate_view maintenance_idle_def demo_moving_def initial_view_def finalize_plan_def
        demo_placement_def demo_observation_def voter_set_def sets)
  have at: "mv_placements demo_moving (Data 0) = Some demo_placement" "mv_placements ?v' (Data 0) = Some ?pl'"
    "pl_voters ?pl' \<noteq> pl_voters demo_placement"
    by (simp_all add: demo_moving_def demo_placement_def)
  from voters_change_on_observation [OF step demo_moving_ok at] step at(2) show ?thesis by auto
qed

text \<open>C10: While a maintenance operation is active the cluster is frozen: whatever command commits, only the
  maintenance record can change, and every command outside the maintenance protocol is answered
  with \<open>MaintenanceActive\<close> and changes nothing.\<close>

theorem maintenance_freezes:
  assumes "mv_maintenance v = Some m" "mr_stage m \<noteq> Released" "meta_step E v (lid, cmd) = (v', r)"
  shows "v' = v\<lparr>mv_maintenance := mv_maintenance v'\<rparr>
    \<and> (\<not> maintenance_command cmd \<longrightarrow> v' = v \<and> r = Ok (MRejected MaintenanceActive))"
proof (cases rule: meta_step_cases [of E v lid cmd])
  case same
  then show ?thesis using assms by (auto simp: meta_step_def meta_evaluate_view maintenance_idle_def split: if_splits)
next
  case (change ws)
  have "maintenance_command cmd" using change(3) assms(1,2) by (auto simp: maintenance_idle_def)
  moreover have "v' = v\<lparr>mv_maintenance := mv_maintenance v'\<rparr>"
    using change(2) \<open>maintenance_command cmd\<close> change(1) assms(3)
    by cases (auto simp: creates_index_def)
  ultimately show ?thesis by simp
qed

definition demo_operation :: maintenance_record where
  "demo_operation = \<lparr>mr_operation_id = 1, mr_generation = 1, mr_participants = [1], mr_acknowledged = [],
     mr_recovered = [], mr_recovery_processes = [], mr_recovery_policy_digests = [],
     mr_verification_policy_digest = None, mr_verification_recovery_epoch = None, mr_stage = Preparing\<rparr>"

theorem maintenance_freezes_witness:
  "\<exists>v. mv_maintenance v = Some demo_operation
     \<and> meta_step ref_meta_env v (LogId 1 9, SetNodeState 1 Draining 1) = (v, Ok (MRejected MaintenanceActive))"
proof -
  let ?v = "demo_directory\<lparr>mv_maintenance := Some demo_operation\<rparr>"
  obtain v' r where step: "meta_step ref_meta_env ?v (LogId 1 9, SetNodeState 1 Draining 1) = (v', r)" by force
  have "mv_maintenance ?v = Some demo_operation" "mr_stage demo_operation \<noteq> Released" by (simp_all add: demo_operation_def)
  from maintenance_freezes [OF this step] step this(1) show ?thesis by (intro exI [of _ ?v]) simp
qed

text \<open>C11: A search generation becomes active only when every voter of every data group has reported it
  ready: if a step changes the active generation of an index, the command is the activation of the
  generation it was building, no data group has a pending plan, and for each voter there is a stored
  observation of that generation under the group's current configuration.\<close>

theorem activation_needs_every_voter:
  assumes "meta_step E v (lid, cmd) = (v', a)" "catalog_ok E v"
    and "index_of v name = Some r" "index_of v' name = Some r'" "sr_active r' = Some b" "sr_active r \<noteq> Some b"
  shows "cmd = ActivateSearchIndexGeneration name (sg_id b) \<and> sr_building r = Some b
    \<and> (\<exists>c. mv_cluster v = Some c \<and> (\<forall>g \<in> set (data_groups c). \<exists>pl. mv_placements v g = Some pl \<and> pl_move pl = None
         \<and> (\<forall>n \<in> set (pl_voters pl). \<exists>kr \<in> set (mv_ready v). ready_for b (sg_id b) g pl n kr)))"
proof (cases rule: meta_step_cases [of E v lid cmd])
  case same
  with assms show ?thesis by auto
next
  case (change ws)
  have v': "v' = view_writes ws v" using change(1) assms(1) by simp
  have put: "map_of (tput (meta_search_index_key nm) x (mv_indexes v)) (meta_search_index_key name) =
      (if name = nm then Some x else index_of v name)" for nm x
    using assms(2) by (simp add: catalog_ok_def map_of_upsert)
  have other: ?thesis if "index_of v' name = index_of v name" using that assms(3-6) by simp
  from change(2) show ?thesis
  proof cases
    case (activate nm r0 b0 gen c r1 ret)
    have nm: "nm = name" using assms(3-6) activate v' put by (cases "nm = name") auto
    with activate assms(3-5) v' put have "b0 = b" "sr_building r = Some b" by auto
    moreover have "\<exists>pl. mv_placements v g = Some pl \<and> pl_move pl = None
         \<and> (\<forall>n \<in> set (pl_voters pl). \<exists>kr \<in> set (mv_ready v). ready_for b0 (sg_id b0) g pl n kr)"
      if g: "g \<in> set (data_groups c)" for g
    proof -
      obtain pl where "mv_placements v g = Some pl" "pl_move pl = None" "voters_ready v nm b0 g pl"
        using activate(7) g by blast
      then show ?thesis by (intro exI [of _ pl]) (auto simp: voters_ready_def under_def)
    qed
    ultimately show ?thesis using nm activate(1,5,6) by simp
  next
    case (build nm old gen)
    then show ?thesis using assms(3-6) v' put by (cases "nm = name") auto
  next
    case (drop_index nm r0 r1 ret keys)
    then show ?thesis using assms(3-6) v' put by (cases "nm = name") auto
  next
    case (drop_done nm r0 gen r1)
    then show ?thesis
      using assms(3-6) v' put by (cases "nm = name") (auto simp: map_of_tdelete split: if_splits)
  qed (use assms(3-6) v' in simp_all)
qed

text \<open>Codecs that write nothing keep the catalog records of the example short.\<close>

definition demo_env :: "node_id list meta_apply_env" where
  "demo_env = ref_meta_env\<lparr>c_index := \<lparr>enc = (\<lambda>_. []), dec = (\<lambda>_. Err (Search ''unused''))\<rparr>,
     c_definition := \<lparr>enc = (\<lambda>_. []), dec = (\<lambda>_. Err (Search ''unused''))\<rparr>\<rparr>"

definition demo_definition :: search_index_definition where
  "demo_definition = \<lparr>sd_document_type = ''d'', sd_fields = [\<lparr>sf_name = ''t'', sf_source_path = [PKey ''t''],
     sf_kind = Keyword, sf_required = False, sf_multi_valued = False, sf_indexed = True, sf_stored = False, sf_fast = False\<rparr>],
     sd_default_search_fields = []\<rparr>"

definition demo_generation :: search_index_generation where
  "demo_generation = \<lparr>sg_id = 5, sg_definition_hash = replicate 32 0, sg_engine_revision = 2, sg_definition = demo_definition\<rparr>"

definition demo_index :: search_index_record where
  "demo_index = \<lparr>sr_name = ''i'', sr_active = None, sr_building = Some demo_generation, sr_retiring = []\<rparr>"

definition demo_report :: "node_id \<Rightarrow> bytes \<times> search_index_ready" where
  "demo_report n = (meta_search_ready_key ''i'' 5 (Data 0) n,
     \<lparr>ry_generation = 5, ry_definition_hash = replicate 32 0, ry_engine_revision = 2, ry_group = Data 0,
      ry_node_id = n, ry_voters_log_id = LogId 1 2, ry_projection_epoch = 1, ry_source_log_id = LogId 1 4\<rparr>)"

definition demo_reports :: "(bytes \<times> search_index_ready) list" where
  "demo_reports = map demo_report [1, 2, 3]"

definition demo_building :: meta_view where
  "demo_building = (initial_view demo_identity)\<lparr>mv_cluster := Some (demo_cluster\<lparr>cc_p := 1\<rparr>),
     mv_placements := [Data 0 \<mapsto> demo_placement\<lparr>pl_move := None\<rparr>],
     mv_indexes := [(meta_search_index_key ''i'', demo_index)], mv_ready := demo_reports\<rparr>"

lemma demo_integrity: "validate_integrity (sha256 demo_env) (c_definition demo_env) demo_generation = Ok ()"
  by (simp add: validate_integrity_def demo_env_def demo_generation_def definition_hash_def validate_definition_def demo_definition_def ref_meta_env_def)
    code_simp

lemma demo_valid: "valid_record demo_env demo_index = Ok ()"
   "valid_record demo_env (demo_index\<lparr>sr_active := Some demo_generation, sr_building := None\<rparr>) = Ok ()"
proof -
  have "validate_index_name ''i'' = Ok ()" by code_simp
  then show "valid_record demo_env demo_index = Ok ()"
   "valid_record demo_env (demo_index\<lparr>sr_active := Some demo_generation, sr_building := None\<rparr>) = Ok ()"
    using demo_integrity
    by (simp_all add: validate_record_def demo_index_def opt_check_def) (simp_all add: demo_env_def)
qed


lemma demo_building_catalog: "catalog_ok demo_env demo_building"
  using valid_record_ok [OF demo_valid(1)]
  by (simp add: catalog_ok_def demo_building_def strictly_sorted_def SEARCH_MAX_INDEXES_def) (simp add: demo_index_def)

lemma demo_building_reports: "under (meta_search_ready_prefix ''i'' 5) (mv_ready demo_building) = demo_reports"
  by (simp add: demo_reports_def under_def demo_building_def demo_report_def ready_key_prefix)

lemma demo_activation:
  "meta_evaluate demo_env (view_reads demo_building) (ActivateSearchIndexGeneration ''i'' 5) (LogId 1 9) =
     applied (PutIndex ''i'' (demo_index\<lparr>sr_active := Some demo_generation, sr_building := None\<rparr>)
       # map (\<lambda>kr. DeleteReady (fst kr)) demo_reports)"
proof -
  have idx: "search_index demo_env (view_reads demo_building) ''i'' = Ok (Some demo_index)"
    using demo_valid(1) by (simp add: search_index_def demo_building_def)
  have ready: "list_ex (ready_for demo_generation 5 (Data 0) (demo_placement\<lparr>pl_move := None\<rparr>) n) demo_reports"
    if "n \<in> {1, 2, 3}" for n
    using that by (auto simp: demo_reports_def ready_for_def demo_report_def demo_generation_def demo_placement_def)
  have groups: "check_groups (view_reads demo_building) SearchGenerationNotReady (\<lambda>g pl.
      if pl_move pl \<noteq> None \<or> \<not> list_all (\<lambda>n. list_ex (ready_for demo_generation 5 g pl n) demo_reports) (pl_voters pl)
      then Some SearchGenerationNotReady else None) (data_groups (demo_cluster\<lparr>cc_p := 1\<rparr>)) = Ok None"
    using ready by (simp add: data_groups_def demo_building_def demo_placement_def)
  show ?thesis
    using groups demo_valid(2) demo_building_reports idx
    by (simp add: meta_evaluate_view maintenance_idle_def activate_search_generation_def Let_def demo_index_def)
      (simp add: demo_building_def initial_view_def demo_generation_def)
qed
theorem activation_needs_every_voter_witness:
  "\<exists>v'. meta_step demo_env demo_building (LogId 1 9, ActivateSearchIndexGeneration ''i'' 5) = (v', Ok MApplied)
     \<and> map_option sr_active (index_of v' ''i'') = Some (Some demo_generation)
     \<and> (\<forall>n \<in> {1, 2, 3}. \<exists>kr \<in> set (mv_ready demo_building).
          ready_for demo_generation 5 (Data 0) (demo_placement\<lparr>pl_move := None\<rparr>) n kr)"
proof -
  let ?ws = "PutIndex ''i'' (demo_index\<lparr>sr_active := Some demo_generation, sr_building := None\<rparr>)
       # map (\<lambda>kr. DeleteReady (fst kr)) demo_reports"
  let ?v' = "view_writes ?ws demo_building"
  let ?r' = "demo_index\<lparr>sr_active := Some demo_generation, sr_building := None\<rparr>"
  have step: "meta_step demo_env demo_building (LogId 1 9, ActivateSearchIndexGeneration ''i'' 5) = (?v', Ok MApplied)"
    using demo_activation by (simp add: meta_step_def)
  have "strictly_sorted fst (mv_indexes demo_building)" using demo_building_catalog by (simp add: catalog_ok_def)
  then have after: "index_of ?v' ''i'' = Some ?r'" by (simp add: map_of_upsert)
  have before: "index_of demo_building ''i'' = Some demo_index" by (simp add: demo_building_def)
  have "sr_active ?r' = Some demo_generation" "sr_active demo_index \<noteq> Some demo_generation" by (simp_all add: demo_index_def)
  note act = activation_needs_every_voter [OF step demo_building_catalog before after this]
  have at: "mv_cluster demo_building = Some (demo_cluster\<lparr>cc_p := 1\<rparr>)" "Data 0 \<in> set (data_groups (demo_cluster\<lparr>cc_p := 1\<rparr>))"
    "mv_placements demo_building (Data 0) = Some (demo_placement\<lparr>pl_move := None\<rparr>)"
    "set (pl_voters (demo_placement\<lparr>pl_move := None\<rparr>)) = {1, 2, 3}" "sg_id demo_generation = 5"
    by (simp_all add: demo_building_def data_groups_def demo_placement_def demo_generation_def)
  from act at have "\<forall>n \<in> {1, 2, 3}. \<exists>kr \<in> set (mv_ready demo_building).
      ready_for demo_generation 5 (Data 0) (demo_placement\<lparr>pl_move := None\<rparr>) n kr"
    by auto
  with step after show ?thesis by (intro exI [of _ ?v']) simp
qed

text \<open>C12: An operation that entered verification is released only after every participant recovered: the
  record lists all of them, they all confirmed the policy digest the release names, under the
  current recovery epoch, and each is registered, active and at the incarnation the release names.\<close>

theorem release_needs_recovery:
  assumes "meta_step E v (lid, cmd) = (v', a)" "maintenance_ok v"
    and "mv_maintenance v = Some m" "mr_stage m = Verifying" "mv_maintenance v' = Some m'" "mr_stage m' = Released"
  shows "\<exists>procs incs pd. cmd = ReleaseMaintenance (mr_operation_id m) (mr_generation m) procs incs pd
    \<and> mr_recovered m = mr_participants m \<and> mr_recovery_processes m = procs \<and> map fst procs = mr_participants m
    \<and> fst ` set (mr_recovery_policy_digests m) = set (mr_participants m)
    \<and> (\<forall>nd \<in> set (mr_recovery_policy_digests m). snd nd = pd)
    \<and> mr_verification_recovery_epoch m = Some (view_epoch v) \<and> map fst incs = mr_participants m
    \<and> (\<forall>(n, inc) \<in> set incs. \<exists>e. node_of v n = Some e \<and> nd_state e = Active \<and> nd_incarnation e = inc)"
proof (cases rule: meta_step_cases [of E v lid cmd])
  case same
  with assms show ?thesis by auto
next
  case (change ws)
  have v': "v' = view_writes ws v" using change(1) assms(1) by simp
  have rec: "record_ok m" using assms(2,3) by (simp add: maintenance_ok_def)
  from change(2) show ?thesis
  proof cases
    case (release oid gen r pd procs incs)
    have r: "r = m" using release(3) assms(3) by (simp add: operation_def)
    show ?thesis
      by (rule exI [of _ procs], rule exI [of _ incs], rule exI [of _ pd])
        (use release rec r assms(4) in \<open>auto simp: operation_def record_ok_def\<close>)
  next
    case (recovered oid gen r n e inc pinc pd ep c expected td)
    then show ?thesis using assms(3-6) v' by (auto simp: confirm_recovery_def Let_def operation_def)
  next
    case drop_done
    then have "mv_maintenance v' = mv_maintenance v" using v' by simp
    then show ?thesis using assms(3-6) by simp
  qed (use assms(3-6) v' in \<open>auto simp: operation_def\<close>)
qed

definition demo_digest :: digest32 where "demo_digest = replicate 32 1"

lemma active_ids_list: "active_ids v = set (map nd_node_id (filter (\<lambda>e. nd_state e = Active) (map snd (mv_nodes v))))"
  by (auto simp: active_ids_def)

definition demo_verified :: maintenance_record where
  "demo_verified = \<lparr>mr_operation_id = 1, mr_generation = 1, mr_participants = [1], mr_acknowledged = [1],
     mr_recovered = [1], mr_recovery_processes = [(1, 4)], mr_recovery_policy_digests = [(1, demo_digest)],
     mr_verification_policy_digest = Some demo_digest, mr_verification_recovery_epoch = Some 0, mr_stage = Verifying\<rparr>"

theorem release_needs_recovery_witness:
  "\<exists>v'. meta_step ref_meta_env (demo_directory\<lparr>mv_maintenance := Some demo_verified\<rparr>)
       (LogId 1 9, ReleaseMaintenance 1 1 [(1, 4)] [(1, 1)] demo_digest) = (v', Ok MApplied)
     \<and> map_option mr_stage (mv_maintenance v') = Some Released
     \<and> fst ` set (mr_recovery_policy_digests demo_verified) = set (mr_participants demo_verified)"
proof -
  let ?v = "demo_directory\<lparr>mv_maintenance := Some demo_verified\<rparr>"
  let ?m' = "demo_verified\<lparr>mr_stage := Released\<rparr>"
  have step: "meta_step ref_meta_env ?v (LogId 1 9, ReleaseMaintenance 1 1 [(1, 4)] [(1, 1)] demo_digest) =
      (?v\<lparr>mv_maintenance := Some ?m'\<rparr>, Ok MApplied)"
    by (simp add: meta_step_def meta_evaluate_view release_maintenance_def demo_verified_def demo_directory_def
        initial_view_def demo_node_def)
  have "active_ids ?v = {1}" by (simp add: active_ids_list demo_directory_def demo_node_def)
  then have ok: "maintenance_ok ?v"
    by (simp add: maintenance_ok_def record_ok_def demo_verified_def quiet_def strictly_sorted_def
        demo_directory_def initial_view_def)
  have at: "mv_maintenance ?v = Some demo_verified" "mr_stage demo_verified = Verifying"
    "mv_maintenance (?v\<lparr>mv_maintenance := Some ?m'\<rparr>) = Some ?m'" "mr_stage ?m' = Released"
    by (simp_all add: demo_verified_def)
  have "fst ` set (mr_recovery_policy_digests demo_verified) = set (mr_participants demo_verified)"
    using release_needs_recovery [OF step ok at] by (elim exE conjE)
  with step at(3,4) show ?thesis
    by (intro exI [of _ "?v\<lparr>mv_maintenance := Some ?m'\<rparr>"]) simp
qed

subsection \<open>One command on the store\<close>

text \<open>C13: \<open>MetaStateMachine::apply\<close> is atomic under every injected failure.  On a store that represents a
  view, a successful apply returns the machine's answer and leaves the machine's next view; a failed
  one leaves the view as it was or the machine's next view, never anything in between.\<close>

theorem meta_apply_atomic:
  assumes "meta_at E st name cf v" "meta_codecs_ok E" "meta_apply E fault cmd lid st = (st', r)"
  shows "\<exists>cf'. case r of
      Inr x \<Rightarrow> snd (meta_step E v (lid, cmd)) = Ok x \<and> meta_at E st' name cf' (fst (meta_step E v (lid, cmd)))
    | Inl _ \<Rightarrow> meta_at E st' name cf' v \<or> meta_at E st' name cf' (fst (meta_step E v (lid, cmd)))"
  by (rule meta_apply_refines [OF assms])

theorem meta_apply_atomic_witness:
  "\<exists>st' r cf'. meta_apply ref_meta_env (\<lambda>p. if p = ''apply_state::after_write'' then Some (Raft ''crash'') else None)
       (RegisterNode 1 ''c'' ''b'') (LogId 1 1) demo_meta_store = (st', r)
     \<and> meta_at ref_meta_env st' (cf_state Meta) cf' (initial_view demo_identity)"
proof -
  let ?f = "\<lambda>p. if p = ''apply_state::after_write'' then Some (Raft ''crash'') else None"
  obtain st' r where run: "meta_apply ref_meta_env ?f (RegisterNode 1 ''c'' ''b'') (LogId 1 1) demo_meta_store = (st', r)" by force
  have at: "meta_at ref_meta_env demo_meta_store (cf_state Meta) [] (initial_view demo_identity)"
    using demo_meta_ready by (simp add: meta_ready_def)
  have same: "fst (meta_step ref_meta_env (initial_view demo_identity) (LogId 1 1, RegisterNode 1 ''c'' ''b'')) = initial_view demo_identity"
    by (simp add: meta_step_def meta_evaluate_view maintenance_idle_def initial_view_def register_node_def)
  from meta_apply_atomic [OF at ref_meta_env_ok run] run same show ?thesis
    by (cases r) auto
qed

end
