(* ===== verification/Balancer.thy ===== *)
theory Balancer
  imports Meta_Runs "HOL-Library.Product_Lexorder"
begin

section \<open>The placement balancer (placement.rs)\<close>

text \<open>
  The planner that proposes single-voter moves from the directory and the placement map.  A
  \<open>BTreeMap\<close> is its list of entries in key order, a \<open>BTreeSet\<close> a set iterated in
  ascending order.  The lemmas show that the meta group accepts every proposal made from its own
  state, that each committed proposal makes progress, and what holds when the planner rests.
\<close>

subsection \<open>Model\<close>

record plan_proposal =
  pp_group :: group_id
  pp_target_voters :: "node_id list"

type_synonym placement_map = "(u16 \<times> placement) list"

definition eligible_nodes :: "node_directory_entry list \<Rightarrow> node_id set" where
  "eligible_nodes directory = set (map nd_node_id (filter (\<lambda>e. nd_state e = Active) directory))"

definition evacuating_voters :: "node_directory_entry list \<Rightarrow> node_id list \<Rightarrow> node_id set" where
  "evacuating_voters directory voters = set (filter (\<lambda>voter.
     case find (\<lambda>e. nd_node_id e = voter) directory of
       Some e \<Rightarrow> nd_state e = Down \<or> nd_state e = Draining
     | None \<Rightarrow> True) voters)"

definition anticipated_voters :: "placement \<Rightarrow> node_id list" where
  "anticipated_voters pl =
     (case pl_move pl of
        Some plan \<Rightarrow> if \<not> mp_aborting plan then mp_target_voters plan else pl_voters pl
      | None \<Rightarrow> pl_voters pl)"

definition bump :: "node_id \<Rightarrow> (node_id \<rightharpoonup> nat) \<Rightarrow> node_id \<rightharpoonup> nat" where
  "bump n load = load(n \<mapsto> (case load n of Some k \<Rightarrow> k | None \<Rightarrow> 0) + 1)"

definition load_map :: "placement_map \<Rightarrow> node_id \<rightharpoonup> nat" where
  "load_map placements = fold (\<lambda>(_, pl). fold bump (anticipated_voters pl)) placements Map.empty"

definition load_of :: "(node_id \<rightharpoonup> nat) \<Rightarrow> node_id \<Rightarrow> nat" where
  "load_of load n = (case load n of Some k \<Rightarrow> k | None \<Rightarrow> 0)"

text \<open>\<open>Iterator::min_by\<close> keeps the first minimum, \<open>Iterator::max_by\<close> the last maximum.\<close>

fun min_by :: "('a \<Rightarrow> 'a \<Rightarrow> bool) \<Rightarrow> 'a list \<Rightarrow> 'a option" where
  "min_by lower [] = None"
| "min_by lower (x # xs) = Some (fold (\<lambda>y cur. if lower y cur then y else cur) xs x)"

fun max_by :: "('a \<Rightarrow> 'a \<Rightarrow> bool) \<Rightarrow> 'a list \<Rightarrow> 'a option" where
  "max_by lower [] = None"
| "max_by lower (x # xs) = Some (fold (\<lambda>y cur. if lower y cur then cur else y) xs x)"

definition least_loaded_non_replica :: "node_id set \<Rightarrow> node_id set \<Rightarrow> (node_id \<Rightarrow> nat) \<Rightarrow> node_id option" where
  "least_loaded_non_replica eligible voters load =
     min_by (\<lambda>a b. load a < load b \<or> load a = load b \<and> a < b)
       (filter (\<lambda>n. n \<notin> voters) (sorted_list_of_set eligible))"

definition better_rebalance ::
  "node_id \<times> node_id \<times> u16 \<Rightarrow> node_id \<times> node_id \<times> u16 \<Rightarrow> (node_id \<Rightarrow> nat) \<Rightarrow> node_id \<times> node_id \<times> u16" where
  "better_rebalance cur cand load =
     (case (cur, cand) of ((s, d, p), (s', d', p')) \<Rightarrow>
        if load s < load s'
           \<or> load s = load s' \<and> (p' < p \<or> p' = p \<and> (s' < s \<or> s' = s \<and> d' < d))
        then cand else cur)"

definition replacement :: "group_id \<Rightarrow> node_id list \<Rightarrow> node_id \<Rightarrow> node_id \<Rightarrow> plan_proposal" where
  "replacement g voters dropped added =
     \<lparr>pp_group = g, pp_target_voters = sort (filter (\<lambda>v. v \<noteq> dropped) voters @ [added])\<rparr>"

fun drain_pass ::
  "node_directory_entry list \<Rightarrow> node_id set \<Rightarrow> (node_id \<Rightarrow> nat) \<Rightarrow> placement_map \<Rightarrow> plan_proposal option" where
  "drain_pass directory eligible load [] = None"
| "drain_pass directory eligible load ((partn, pl) # rest) =
     (if pl_move pl \<noteq> None then drain_pass directory eligible load rest
      else
      let voters = set (pl_voters pl);
          evacuating = evacuating_voters directory (pl_voters pl) in
      case (if evacuating = {} then None else Some (Min evacuating), least_loaded_non_replica eligible voters load) of
        (Some dropped, Some dest) \<Rightarrow> Some (replacement (Data partn) (pl_voters pl) dropped dest)
      | _ \<Rightarrow> drain_pass directory eligible load rest)"

fun rebalance_pass ::
  "node_id set \<Rightarrow> (node_id \<Rightarrow> nat) \<Rightarrow> (node_id \<times> node_id \<times> u16) option \<Rightarrow> placement_map
    \<Rightarrow> (node_id \<times> node_id \<times> u16) option" where
  "rebalance_pass eligible load best [] = best"
| "rebalance_pass eligible load best ((partn, pl) # rest) =
     (if pl_move pl \<noteq> None then rebalance_pass eligible load best rest
      else
      case max_by (\<lambda>a b. load a < load b \<or> load a = load b \<and> b < a) (filter (\<lambda>v. v \<in> eligible) (pl_voters pl)) of
        None \<Rightarrow> rebalance_pass eligible load best rest
      | Some source \<Rightarrow>
      (case least_loaded_non_replica eligible (set (pl_voters pl)) load of
        None \<Rightarrow> rebalance_pass eligible load best rest
      | Some dest \<Rightarrow>
      if load source < load dest + 2 then rebalance_pass eligible load best rest
      else
      let candidate = (source, dest, partn) in
      rebalance_pass eligible load
        (Some (case best of None \<Rightarrow> candidate | Some cur \<Rightarrow> better_rebalance cur candidate load)) rest))"

definition propose :: "node_directory_entry list \<Rightarrow> placement_map \<Rightarrow> nat \<Rightarrow> plan_proposal option" where
  "propose directory placements r =
     (let eligible = eligible_nodes directory in
      if card eligible < r then None
      else if list_ex (\<lambda>(_, pl). case pl_move pl of Some plan \<Rightarrow> mp_aborting plan | None \<Rightarrow> False) placements then None
      else
      let load = load_of (load_map placements) in
      case drain_pass directory eligible load placements of
        Some prop \<Rightarrow> Some prop
      | None \<Rightarrow>
          (case rebalance_pass eligible load None placements of
             Some (source, dest, partn) \<Rightarrow>
               (case map_of placements partn of
                  Some pl \<Rightarrow> Some (replacement (Data partn) (pl_voters pl) source dest)
                | None \<Rightarrow> None)
           | None \<Rightarrow> None))"

subsection \<open>The selections\<close>

lemma min_by_Some:
  assumes "min_by (\<lambda>a b. (key a :: 'k::linorder) < key b) xs = Some m"
  shows "m \<in> set xs" "\<forall>x \<in> set xs. key m \<le> key x"
proof -
  have "fold (\<lambda>y cur. if key y < key cur then y else cur) xs x \<in> insert x (set xs)
      \<and> (\<forall>y \<in> insert x (set xs). key (fold (\<lambda>y cur. if key y < key cur then y else cur) xs x) \<le> key y)" for x xs
  proof (induction xs arbitrary: x)
    case (Cons y ys)
    from Cons.IH [of y] Cons.IH [of x] show ?case by (auto intro: order_trans less_imp_le)
  qed simp
  then show "m \<in> set xs" "\<forall>x \<in> set xs. key m \<le> key x"
    using assms by (cases xs; force)+
qed

lemma max_by_Some:
  assumes "max_by (\<lambda>a b. (key a :: 'k::linorder) < key b) xs = Some m"
  shows "m \<in> set xs" "\<forall>x \<in> set xs. key x \<le> key m"
proof -
  have "fold (\<lambda>y cur. if key y < key cur then cur else y) xs x \<in> insert x (set xs)
      \<and> (\<forall>y \<in> insert x (set xs). key y \<le> key (fold (\<lambda>y cur. if key y < key cur then cur else y) xs x))" for x xs
  proof (induction xs arbitrary: x)
    case (Cons y ys)
    from Cons.IH [of y] Cons.IH [of x] show ?case by (auto intro: order_trans less_imp_le)
  qed simp
  then show "m \<in> set xs" "\<forall>x \<in> set xs. key x \<le> key m"
    using assms by (cases xs; force)+
qed

lemma select_None [simp]: "min_by lower xs = None \<longleftrightarrow> xs = []" "max_by lower xs = None \<longleftrightarrow> xs = []"
  by (cases xs; simp)+

text \<open>Both orders compare by load first: they are orders of lexicographic keys.\<close>

lemma load_order: "(\<lambda>a b. load a < load b \<or> load a = load b \<and> a < b) = (\<lambda>a b. (load a, a) < (load b, b))"
  for load :: "node_id \<Rightarrow> nat"
  by (intro ext) (simp add: less_prod_def')

lemma load_order_rev:
  "(\<lambda>a b. load a < load b \<or> load a = load b \<and> b < a) = (\<lambda>a b. (int (load a), - uint a) < (int (load b), - uint b))"
  for load :: "node_id \<Rightarrow> nat"
  by (intro ext) (simp add: less_prod_def' word_less_def)

lemma finite_eligible [simp]: "finite (eligible_nodes directory)"
  by (simp add: eligible_nodes_def)

lemma least_loaded_Some:
  assumes "least_loaded_non_replica eligible voters load = Some d" "finite eligible"
  shows "d \<in> eligible" "d \<notin> voters" "\<forall>n \<in> eligible - voters. load d \<le> load n"
  using min_by_Some [OF assms(1) [unfolded least_loaded_non_replica_def load_order]] assms(2)
  by (auto simp: less_eq_prod_def)

lemma least_loaded_None:
  "finite eligible \<Longrightarrow> least_loaded_non_replica eligible voters load = None \<longleftrightarrow> eligible \<subseteq> voters"
  by (auto simp: least_loaded_non_replica_def filter_empty_conv)

lemma most_loaded_Some:
  fixes load :: "node_id \<Rightarrow> nat"
  assumes "max_by (\<lambda>a b. load a < load b \<or> load a = load b \<and> b < a) (filter (\<lambda>v. v \<in> eligible) vs) = Some s"
  shows "s \<in> eligible" "s \<in> set vs" "\<forall>n \<in> set vs \<inter> eligible. load n \<le> load s"
  using max_by_Some [OF assms [unfolded load_order_rev]] by (auto simp: less_eq_prod_def)

subsection \<open>A cluster to balance\<close>

text \<open>Four active nodes; both partitions are on the first three.\<close>

definition demo_member :: "node_id \<Rightarrow> string \<Rightarrow> node_directory_entry" where
  "demo_member n a = \<lparr>nd_node_id = n, nd_control_addr = ''c'' @ a, nd_bulk_addr = ''b'' @ a, nd_state = Active, nd_incarnation = 1\<rparr>"

definition demo_members :: "(bytes \<times> node_directory_entry) list" where
  "demo_members = [(meta_node_key 1, demo_member 1 ''1''), (meta_node_key 2, demo_member 2 ''2''),
     (meta_node_key 3, demo_member 3 ''3''), (meta_node_key 4, demo_member 4 ''4'')]"

definition demo_rest :: placement where
  "demo_rest = \<lparr>pl_voters = [1, 2, 3], pl_voters_log_id = LogId 1 2, pl_move = None\<rparr>"

definition demo_map :: placement_map where "demo_map = [(0, demo_rest), (1, demo_rest)]"

definition demo_uneven :: meta_view where
  "demo_uneven = (initial_view demo_identity)\<lparr>mv_cluster := Some demo_cluster, mv_nodes := demo_members,
     mv_placements := [Meta \<mapsto> demo_rest, Data 0 \<mapsto> demo_rest, Data 1 \<mapsto> demo_rest]\<rparr>"

definition demo_proposal :: plan_proposal where
  "demo_proposal = \<lparr>pp_group = Data 0, pp_target_voters = [2, 3, 4]\<rparr>"

lemma demo_propose: "propose (map snd demo_members) demo_map 3 = Some demo_proposal"
  by code_simp

lemma demo_uneven_directory: "directory_ok demo_uneven"
proof -
  have "strictly_sorted fst demo_members" unfolding strictly_sorted_def by code_simp
  moreover have "endpoints_free demo_uneven (nd_node_id e) (nd_control_addr e) (nd_bulk_addr e)" if "(k, e) \<in> set demo_members" for k e
    using that by (auto simp: endpoints_free_def endpoints_clash_def demo_uneven_def demo_members_def demo_member_def)
  moreover have "k = meta_node_key (nd_node_id e) \<and> entry_ok e" if "(k, e) \<in> set demo_members" for k e
    using that by (auto simp: demo_members_def demo_member_def entry_ok_def endpoints_ok_def MAX_ENDPOINT_BYTES_def)
  moreover have "length demo_members \<le> MAX_CLUSTER_NODES" by (simp add: demo_members_def MAX_CLUSTER_NODES_def)
  ultimately show ?thesis
    unfolding directory_ok_def by (auto simp: demo_uneven_def initial_view_def)
qed

lemma demo_uneven_placements: "placements_ok demo_uneven"
proof -
  have "cluster_ok demo_cluster" by (simp add: cluster_ok_def demo_cluster_def validate_routing_shape_eq)
  then show ?thesis
    by (simp add: placements_ok_def demo_uneven_def initial_view_def placement_ok_def voters_ok_def demo_rest_def unretired_def demo_cluster_def)
qed

subsection \<open>What a proposal is\<close>

text \<open>
  A proposal replaces one voter of a resting partition by an eligible node of least load: either
  a voter that must be evacuated, or one at least two replicas heavier than its replacement.
\<close>

definition good_move :: "node_directory_entry list \<Rightarrow> placement_map \<Rightarrow> plan_proposal \<Rightarrow> bool" where
  "good_move directory placements prop \<longleftrightarrow>
     (\<exists>partn pl out in'. map_of placements partn = Some pl \<and> pl_move pl = None
        \<and> prop = replacement (Data partn) (pl_voters pl) out in'
        \<and> out \<in> set (pl_voters pl) \<and> in' \<in> eligible_nodes directory \<and> in' \<notin> set (pl_voters pl)
        \<and> (out \<in> evacuating_voters directory (pl_voters pl)
           \<or> out \<in> eligible_nodes directory
             \<and> load_of (load_map placements) in' + 2 \<le> load_of (load_map placements) out))"

lemma drain_pass_Some:
  assumes "drain_pass directory (eligible_nodes directory) load ps = Some prop" "distinct (map fst ps)"
  shows "\<exists>partn pl out in'. map_of ps partn = Some pl \<and> pl_move pl = None
    \<and> prop = replacement (Data partn) (pl_voters pl) out in'
    \<and> out \<in> evacuating_voters directory (pl_voters pl) \<and> out \<in> set (pl_voters pl)
    \<and> in' \<in> eligible_nodes directory \<and> in' \<notin> set (pl_voters pl)"
  using assms
proof (induction ps)
  case (Cons x ps)
  obtain partn pl where x: "x = (partn, pl)" by force
  let ?ev = "evacuating_voters directory (pl_voters pl)"
  let ?dest = "least_loaded_non_replica (eligible_nodes directory) (set (pl_voters pl)) load"
  have later: ?case if "drain_pass directory (eligible_nodes directory) load ps = Some prop"
    using Cons.IH [OF that] Cons.prems(2) x by (fastforce simp: map_of_eq_None_iff dest: map_of_SomeD)
  show ?case
  proof (cases "pl_move pl = None \<and> ?ev \<noteq> {} \<and> ?dest \<noteq> None")
    case True
    then obtain d where d: "?dest = Some d" by auto
    have fin: "finite ?ev" by (simp add: evacuating_voters_def)
    have low: "Min ?ev \<in> ?ev" using True fin by simp
    have sub: "?ev \<subseteq> set (pl_voters pl)" by (auto simp: evacuating_voters_def)
    have "prop = replacement (Data partn) (pl_voters pl) (Min ?ev) d"
      using Cons.prems(1) True d x by (simp add: Let_def)
    then show ?thesis
      by - (rule exI [of _ partn], rule exI [of _ pl], rule exI [of _ "Min ?ev"], rule exI [of _ d],
        use True least_loaded_Some(1,2) [OF d] x low subsetD [OF sub low] in simp)
  next
    case False
    then show ?thesis using Cons.prems(1) x by (intro later) (auto simp: Let_def split: option.splits if_splits)
  qed
qed simp

definition worthwhile :: "node_id set \<Rightarrow> (node_id \<Rightarrow> nat) \<Rightarrow> placement_map \<Rightarrow> node_id \<times> node_id \<times> u16 \<Rightarrow> bool" where
  "worthwhile eligible load ps = (\<lambda>(s, d, partn). \<exists>pl. map_of ps partn = Some pl \<and> pl_move pl = None
     \<and> s \<in> set (pl_voters pl) \<and> s \<in> eligible \<and> d \<in> eligible \<and> d \<notin> set (pl_voters pl) \<and> load d + 2 \<le> load s)"

lemma better_rebalance_cases: "better_rebalance cur cand load = cur \<or> better_rebalance cur cand load = cand"
  by (auto simp: better_rebalance_def split: prod.splits)

lemma rebalance_pass_Some:
  assumes "rebalance_pass eligible load best ps = Some t" "finite eligible" "\<forall>x \<in> set_option best. worthwhile eligible load all x"
    and "\<forall>(p, pl) \<in> set ps. map_of all p = Some pl"
  shows "worthwhile eligible load all t"
  using assms
proof (induction ps arbitrary: best)
  case (Cons x ps)
  obtain partn pl where x: "x = (partn, pl)" by force
  have new: "worthwhile eligible load all (s, d, partn)"
    if "pl_move pl = None" "max_by (\<lambda>a b. load a < load b \<or> load a = load b \<and> b < a) (filter (\<lambda>v. v \<in> eligible) (pl_voters pl)) = Some s"
      "least_loaded_non_replica eligible (set (pl_voters pl)) load = Some d" "\<not> load s < load d + 2" for s d
    using that most_loaded_Some [OF that(2)] least_loaded_Some [OF that(3) assms(2)] Cons.prems(4) x by (simp add: worthwhile_def)
  have mix: "\<forall>y \<in> set_option (Some (case best of None \<Rightarrow> c | Some cur \<Rightarrow> better_rebalance cur c load)). worthwhile eligible load all y"
    if "worthwhile eligible load all c" for c
  proof (cases best)
    case (Some cur)
    then show ?thesis using that Cons.prems(3) better_rebalance_cases [of cur c load] by (elim disjE) simp_all
  qed (use that in simp)
  show ?case
    using Cons.prems(1) Cons.IH [OF _ assms(2)] Cons.prems(3,4) new mix unfolding x
    by (auto simp: Let_def split: if_splits option.splits)
qed auto


lemma propose_good:
  assumes "propose directory ps r = Some prop" "distinct (map fst ps)"
  shows "good_move directory ps prop" "r \<le> card (eligible_nodes directory)"
    "\<forall>(p, pl) \<in> set ps. \<forall>m. pl_move pl = Some m \<longrightarrow> \<not> mp_aborting m"
proof -
  let ?el = "eligible_nodes directory" and ?load = "load_of (load_map ps)"
  show "r \<le> card ?el" and "\<forall>(p, pl) \<in> set ps. \<forall>m. pl_move pl = Some m \<longrightarrow> \<not> mp_aborting m"
    using assms(1) by (auto simp: propose_def Let_def list_ex_iff split: if_splits)
  consider (drain) "drain_pass directory ?el ?load ps = Some prop"
    | (rebalance) s d partn pl where "rebalance_pass ?el ?load None ps = Some (s, d, partn)" "map_of ps partn = Some pl"
        "prop = replacement (Data partn) (pl_voters pl) s d"
    using assms(1) by (auto simp: propose_def Let_def split: if_splits option.splits)
  then show "good_move directory ps prop"
  proof cases
    case drain
    from drain_pass_Some [OF this assms(2)] show ?thesis unfolding good_move_def by blast
  next
    case rebalance
    have "worthwhile ?el ?load ps (s, d, partn)"
      by (rule rebalance_pass_Some [OF rebalance(1)]) (use assms(2) in auto)
    with rebalance(2,3) show ?thesis by (auto simp: worthwhile_def good_move_def)
  qed
qed

text \<open>The replaced voter list: same size, one out, one in, ascending.\<close>

lemma replacement_voters:
  assumes "out \<in> set vs" "in' \<notin> set vs" "distinct vs" and ts_def: "ts = pp_target_voters (replacement g vs out in')"
  shows "set ts = insert in' (set vs - {out})" "distinct ts" "sorted ts" "length ts = length vs"
    "set ts - set vs = {in'}" "set vs - set ts = {out}"
proof -
  have "length (filter (\<lambda>v. v \<noteq> out) vs) = length vs - 1"
    using assms(1,3) by (metis card_Diff_singleton distinct_card distinct_filter set_minus_filter_out)
  moreover have "0 < length vs" using assms(1) by (cases vs) auto
  ultimately show "length ts = length vs" by (simp add: ts_def replacement_def)
qed (use assms in \<open>auto simp: replacement_def\<close>)


subsection \<open>The meta group accepts what the planner proposes\<close>

lemma eligible_active:
  assumes "directory_ok v" "n \<in> eligible_nodes (map snd (mv_nodes v))"
  shows "active_node v n"
proof -
  obtain k e where e: "(k, e) \<in> set (mv_nodes v)" "nd_node_id e = n" "nd_state e = Active"
    using assms(2) by (auto simp: eligible_nodes_def)
  then have "k = meta_node_key n" using directory_entry [OF assms(1) e(1)] by simp
  moreover have "strictly_sorted fst (mv_nodes v)" using assms(1) by (simp add: directory_ok_def)
  ultimately show ?thesis using e node_of_iff by (auto simp: active_node_def)
qed

text \<open>C21: The meta state machine accepts every move the balancer proposes from the group's own directory and
  placements: on a sound view with no active maintenance, the \<open>CreatePlan\<close> command for the proposal
  is applied, and the plan it records has the proposed target.\<close>

theorem proposals_are_accepted:
  assumes v: "directory_ok v" "placements_ok v" "maintenance_idle v" "mv_cluster v = Some c"
    and ps: "distinct (map fst ps)" "\<forall>(p, pl) \<in> set ps. mv_placements v (Data p) = Some pl"
    and made: "propose (map snd (mv_nodes v)) ps (unat (cc_r c)) = Some prop"
  shows "\<exists>pl. mv_placements v (pp_group prop) = Some pl \<and> pl_move pl = None
    \<and> meta_evaluate E (view_reads v) (CreatePlan (pp_group prop) pid (pp_target_voters prop)) lid =
        applied [PutPlacement (pp_group prop) (pl\<lparr>pl_move := Some \<lparr>mp_plan_id = li_index lid,
          mp_target_voters = pp_target_voters prop, mp_aborting = False\<rparr>\<rparr>)]"
proof -
  note good = propose_good [OF made ps(1)]
  obtain partn pl out in' where m: "map_of ps partn = Some pl" "pl_move pl = None"
    "prop = replacement (Data partn) (pl_voters pl) out in'" "out \<in> set (pl_voters pl)"
    "in' \<in> eligible_nodes (map snd (mv_nodes v))" "in' \<notin> set (pl_voters pl)"
    using good(1) unfolding good_move_def by blast
  have at: "mv_placements v (Data partn) = Some pl" using ps m(1) by (auto dest: map_of_SomeD)
  obtain "placement_ok c (Data partn) pl" using placements_get [OF v(2) at] v(4) by auto
  then have vs: "sorted_wrt (<) (pl_voters pl)" "length (pl_voters pl) = unat (cc_r c)"
    by (auto simp: placement_ok_def voters_ok_def)
  then have dist: "distinct (pl_voters pl)" by (simp add: strict_sorted_iff)
  define ts where "ts = pp_target_voters prop"
  note ts = replacement_voters [OF m(4,6) dist, of ts "Data partn", unfolded m(3) [symmetric], OF ts_def]
  have order: "sorted_list_of_set (set ts) = ts" using ts(2,3) by (simp add: sorted_list_of_set.idem_if_sorted_distinct)
  have "length (filter (\<lambda>e. nd_state e = Active) (map snd (mv_nodes v))) \<ge> card (eligible_nodes (map snd (mv_nodes v)))"
    unfolding eligible_nodes_def by (metis card_length length_map)
  then have room: "\<not> length (filter (\<lambda>e. nd_state e = Active) (map snd (mv_nodes v))) < unat (cc_r c)"
    using good(2) by linarith
  have "all_active (view_reads v) [in'] = Ok True"
    using eligible_active [OF v(1) m(5)] by (simp add: all_active_view del: all_active.simps)
  then have "create_plan (view_reads v) (Data partn) ts lid =
      applied [PutPlacement (Data partn) (pl\<lparr>pl_move := Some \<lparr>mp_plan_id = li_index lid, mp_target_voters = ts, mp_aborting = False\<rparr>\<rparr>)]"
    using v(4) at m(2) ts(2,4-6) vs(2) order room
    by (simp add: create_plan_def voter_set_def Let_def eligible_count_def distinct_card del: all_active.simps)
  then show ?thesis
    using at m(2,3) v(3) by (simp add: meta_evaluate_view ts_def replacement_def)
qed

theorem proposals_are_accepted_witness:
  "propose (map snd (mv_nodes demo_uneven)) demo_map 3 = Some demo_proposal
   \<and> (\<exists>pl. meta_evaluate ref_meta_env (view_reads demo_uneven) (CreatePlan (Data 0) 0 [2, 3, 4]) (LogId 1 9) =
        applied [PutPlacement (Data 0) (pl\<lparr>pl_move := Some \<lparr>mp_plan_id = 9, mp_target_voters = [2, 3, 4], mp_aborting = False\<rparr>\<rparr>)])"
proof -
  have ps: "distinct (map fst demo_map)" "\<forall>(p, pl) \<in> set demo_map. mv_placements demo_uneven (Data p) = Some pl"
    by (simp_all add: demo_map_def demo_uneven_def)
  have at: "maintenance_idle demo_uneven" "mv_cluster demo_uneven = Some demo_cluster" "mv_nodes demo_uneven = demo_members"
    by (simp_all add: maintenance_idle_def demo_uneven_def initial_view_def)
  have made: "propose (map snd (mv_nodes demo_uneven)) demo_map (unat (cc_r demo_cluster)) = Some demo_proposal"
    using demo_propose at(3) by (simp add: demo_cluster_def)
  from proposals_are_accepted [OF demo_uneven_directory demo_uneven_placements at(1,2) ps made, of ref_meta_env 0 "LogId 1 9"]
    demo_propose at(3)
  show ?thesis by (auto simp: demo_proposal_def)
qed

subsection \<open>Progress\<close>

lemma load_of_bump: "load_of (fold bump vs load) n = load_of load n + count_list vs n"
  by (induction vs arbitrary: load) (auto simp: bump_def load_of_def)

lemma load_of_load_map: "load_of (load_map ps) n = sum_list (map (\<lambda>(_, pl). count_list (anticipated_voters pl) n) ps)"
proof -
  have "load_of (fold (\<lambda>(_, pl). fold bump (anticipated_voters pl)) ps load) n =
      load_of load n + sum_list (map (\<lambda>(_, pl). count_list (anticipated_voters pl) n) ps)" for load
    by (induction ps arbitrary: load) (auto simp: load_of_bump)
  from this [of Map.empty] show ?thesis by (simp add: load_map_def load_of_def)
qed

text \<open>The placements after the plan of a proposal is recorded.\<close>

definition commit :: "plan_proposal \<Rightarrow> u64 \<Rightarrow> placement_map \<Rightarrow> placement_map" where
  "commit prop i ps = map (\<lambda>(p, pl). (p, if Data p = pp_group prop
     then pl\<lparr>pl_move := Some \<lparr>mp_plan_id = i, mp_target_voters = pp_target_voters prop, mp_aborting = False\<rparr>\<rparr> else pl)) ps"

text \<open>What is left to evacuate, and how uneven the anticipated load is.\<close>

definition to_evacuate :: "node_directory_entry list \<Rightarrow> placement_map \<Rightarrow> nat" where
  "to_evacuate directory ps = sum_list (map (\<lambda>(_, pl). card (evacuating_voters directory (anticipated_voters pl))) ps)"

definition spread :: "placement_map \<Rightarrow> nat" where
  "spread ps = (\<Sum>n \<in> UNIV. load_of (load_map ps) n ^ 2)"

lemma sum_list_commit:
  assumes "distinct (map fst ps)" "map_of ps p = Some pl"
  shows "sum_list (map (\<lambda>(q, x). f (if q = p then y else x)) ps) + f pl = sum_list (map (\<lambda>(_, x). f x) ps) + (f y :: nat)"
  using assms
proof (induction ps)
  case (Cons a ps)
  obtain q x where a: "a = (q, x)" by force
  show ?case
  proof (cases "q = p")
    case True
    then have "p \<notin> fst ` set ps" using Cons.prems(1) a by auto
    then have "sum_list (map (\<lambda>(q, x). f (if q = p then y else x)) ps) = sum_list (map (\<lambda>(_, x). f x) ps)"
      by (intro arg_cong [where f = sum_list] map_cong) (auto simp: image_iff)
    with True Cons.prems(2) a show ?thesis by (simp add: ac_simps)
  next
    case False
    with Cons a show ?thesis by auto
  qed
qed simp

lemma spread_shift:
  fixes f g :: "node_id \<Rightarrow> nat"
  assumes "f b + 2 \<le> f a" "g a + 1 = f a" "g b = f b + 1" "\<And>n. n \<noteq> a \<Longrightarrow> n \<noteq> b \<Longrightarrow> g n = f n"
  shows "(\<Sum>n \<in> UNIV. g n ^ 2) < (\<Sum>n \<in> UNIV. f n ^ 2)"
proof -
  have ab: "a \<noteq> b" using assms(1) by auto
  have split: "(\<Sum>n \<in> UNIV. h n ^ 2) = h a ^ 2 + h b ^ 2 + (\<Sum>n \<in> UNIV - {a, b}. h n ^ 2)" for h :: "node_id \<Rightarrow> nat"
    using ab sum.subset_diff [of "{a, b}" UNIV "\<lambda>n. h n ^ 2"] by simp
  have "(\<Sum>n \<in> UNIV - {a, b}. g n ^ 2) = (\<Sum>n \<in> UNIV - {a, b}. f n ^ 2)"
    by (rule sum.cong) (auto simp: assms(4))
  moreover have "g a ^ 2 + g b ^ 2 < f a ^ 2 + f b ^ 2"
  proof -
    obtain k where k: "f a = f b + 2 + k" using assms(1) le_Suc_ex by blast
    then have "g a = f b + 1 + k" using assms(2) by simp
    with k assms(3) show ?thesis by (simp add: power2_eq_square algebra_simps)
  qed
  ultimately show ?thesis by (simp add: split)
qed


text \<open>An eligible node is never evacuating, when the directory lists each node once.\<close>

lemma evacuating_iff:
  "n \<in> evacuating_voters directory vs \<longleftrightarrow> n \<in> set vs
     \<and> (case find (\<lambda>e. nd_node_id e = n) directory of Some e \<Rightarrow> nd_state e = Down \<or> nd_state e = Draining | None \<Rightarrow> True)"
  by (simp add: evacuating_voters_def)

lemma eligible_not_evacuating:
  assumes "distinct (map nd_node_id directory)" "n \<in> eligible_nodes directory"
  shows "n \<notin> evacuating_voters directory vs"
proof -
  obtain e where e: "e \<in> set directory" "nd_node_id e = n" "nd_state e = Active"
    using assms(2) by (auto simp: eligible_nodes_def)
  have "find (\<lambda>e. nd_node_id e = n) directory = Some e"
    using assms(1) e(1,2) by (induction directory) (auto simp: image_iff)
  with e(3) show ?thesis by (simp add: evacuating_iff)
qed

text \<open>Recording the plan of a replacement shifts every per-placement sum by that one placement.\<close>

lemma commit_shift:
  assumes ps: "distinct (map fst ps)" "map_of ps partn = Some pl" and g: "pp_group prop = Data partn"
    and pl'_def: "pl' = pl\<lparr>pl_move := Some \<lparr>mp_plan_id = i, mp_target_voters = pp_target_voters prop, mp_aborting = False\<rparr>\<rparr>"
  shows "sum_list (map (\<lambda>(_, x). f x) (commit prop i ps)) + f pl = sum_list (map (\<lambda>(_, x). f x) ps) + (f pl' :: nat)"
proof -
  have "commit prop i ps = map (\<lambda>(q, x). (q, if q = partn then pl' else x)) ps"
    unfolding commit_def using ps g
    by (intro map_cong) (auto simp: pl'_def dest: eq_key_imp_eq_value)
  moreover have "map (\<lambda>(_, x). f x) (map (\<lambda>(q, x). (q, if q = partn then pl' else x)) xs) =
      map (\<lambda>(q, x). f (if q = partn then pl' else x)) xs" for xs :: placement_map
    by (induction xs) auto
  ultimately have "sum_list (map (\<lambda>(_, x). f x) (commit prop i ps)) = sum_list (map (\<lambda>(q, x). f (if q = partn then pl' else x)) ps)"
    by (simp only:)
  with sum_list_commit [OF ps, of f pl'] show ?thesis by simp
qed

lemma count_list_distinct: "distinct vs \<Longrightarrow> count_list vs n = (if n \<in> set vs then 1 else 0)"
  by (induction vs) auto

text \<open>C22: Every committed proposal makes progress: it leaves fewer replicas to evacuate, or as many and a
  strictly smaller spread of the anticipated load.  Since both are natural numbers, the balancer can
  propose only finitely many moves for an unchanged directory.\<close>

theorem balancer_progress:
  assumes made: "propose directory ps r = Some prop" and ps: "distinct (map fst ps)"
    and dir: "distinct (map nd_node_id directory)" and voters: "\<forall>(_, pl) \<in> set ps. distinct (pl_voters pl)"
  shows "((to_evacuate directory (commit prop i ps), spread (commit prop i ps)), (to_evacuate directory ps, spread ps))
    \<in> less_than <*lex*> less_than"
proof -
  obtain partn pl out in' where m: "map_of ps partn = Some pl" "pl_move pl = None"
    "prop = replacement (Data partn) (pl_voters pl) out in'" "out \<in> set (pl_voters pl)"
    "in' \<in> eligible_nodes directory" "in' \<notin> set (pl_voters pl)"
    and why: "out \<in> evacuating_voters directory (pl_voters pl)
      \<or> out \<in> eligible_nodes directory \<and> load_of (load_map ps) in' + 2 \<le> load_of (load_map ps) out"
    using propose_good(1) [OF made ps] unfolding good_move_def by blast
  have dist: "distinct (pl_voters pl)" using voters m(1) by (auto dest!: map_of_SomeD)
  define ts where "ts = pp_target_voters prop"
  let ?pl' = "pl\<lparr>pl_move := Some \<lparr>mp_plan_id = i, mp_target_voters = ts, mp_aborting = False\<rparr>\<rparr>"
  note ts = replacement_voters [OF m(4,6) dist, of ts "Data partn", unfolded m(3) [symmetric], OF ts_def]
  have av: "anticipated_voters pl = pl_voters pl" "anticipated_voters ?pl' = ts"
    using m(2) by (simp_all add: anticipated_voters_def)
  have g: "pp_group prop = Data partn" using m(3) by (simp add: replacement_def)
  note shift = commit_shift [OF ps m(1) g, where i = i, OF refl, folded ts_def]
  have evac: "to_evacuate directory (commit prop i ps) + card (evacuating_voters directory (pl_voters pl)) =
      to_evacuate directory ps + card (evacuating_voters directory ts)"
    using shift [of "\<lambda>pl. card (evacuating_voters directory (anticipated_voters pl))"] by (simp add: to_evacuate_def av)
  have fin: "finite (evacuating_voters directory vs)" for vs by (simp add: evacuating_voters_def)
  have evts: "evacuating_voters directory ts = evacuating_voters directory (pl_voters pl) - {out}"
    using eligible_not_evacuating [OF dir m(5), of ts] ts(1) by (auto simp: evacuating_iff)
  have load: "load_of (load_map (commit prop i ps)) n + count_list (pl_voters pl) n = load_of (load_map ps) n + count_list ts n" for n
    using shift [of "\<lambda>pl. count_list (anticipated_voters pl) n"] by (simp add: load_of_load_map av)
  show ?thesis
  proof (cases "out \<in> evacuating_voters directory (pl_voters pl)")
    case True
    then have "card (evacuating_voters directory ts) < card (evacuating_voters directory (pl_voters pl))"
      unfolding evts by (rule card_Diff1_less [OF fin])
    with evac show ?thesis by simp
  next
    case False
    then have "to_evacuate directory (commit prop i ps) = to_evacuate directory ps" using evac evts by simp
    moreover have "spread (commit prop i ps) < spread ps"
      unfolding spread_def
    proof (rule spread_shift [of _ in' out])
      note load = load [unfolded count_list_distinct [OF dist] count_list_distinct [OF ts(2)]]
      show "load_of (load_map ps) in' + 2 \<le> load_of (load_map ps) out" using why False by blast
      have neq: "out \<noteq> in'" using m(4,6) by auto
      show "load_of (load_map (commit prop i ps)) out + 1 = load_of (load_map ps) out"
        using load [of out] m(4) ts(1) neq by simp
      show "load_of (load_map (commit prop i ps)) in' = load_of (load_map ps) in' + 1"
        using load [of in'] m(6) ts(1) by simp
      show "load_of (load_map (commit prop i ps)) n = load_of (load_map ps) n" if "n \<noteq> out" "n \<noteq> in'" for n
        using load [of n] that ts(1) by (auto split: if_splits)
    qed
    ultimately show ?thesis by simp
  qed
qed

theorem balancer_progress_witness:
  "propose (map snd demo_members) demo_map 3 = Some demo_proposal
   \<and> ((to_evacuate (map snd demo_members) (commit demo_proposal 9 demo_map), spread (commit demo_proposal 9 demo_map)),
      (to_evacuate (map snd demo_members) demo_map, spread demo_map)) \<in> less_than <*lex*> less_than"
proof -
  have "distinct (map fst demo_map)" "distinct (map nd_node_id (map snd demo_members))"
    "\<forall>(_, pl) \<in> set demo_map. distinct (pl_voters pl)"
    by (simp_all add: demo_map_def demo_members_def demo_member_def demo_rest_def)
  from balancer_progress [OF demo_propose this, of 9] demo_propose show ?thesis by simp
qed


subsection \<open>When the planner rests\<close>

lemma drain_pass_None:
  "drain_pass directory eligible load ps = None \<Longrightarrow> (p, pl) \<in> set ps \<Longrightarrow> pl_move pl = None \<Longrightarrow>
   evacuating_voters directory (pl_voters pl) = {} \<or> least_loaded_non_replica eligible (set (pl_voters pl)) load = None"
  by (induction ps) (auto simp: Let_def split: if_splits option.splits)

lemma rebalance_pass_keeps: "(rebalance_pass eligible load (Some b) ps = None) = False"
proof (induction ps arbitrary: b)
  case (Cons x ps)
  obtain partn pl where "x = (partn, pl)" by force
  with Cons show ?case by (simp add: Let_def split: option.split)
qed simp

lemma rebalance_pass_None:
  assumes "rebalance_pass eligible load None ps = None" "(p, pl) \<in> set ps" "pl_move pl = None" "finite eligible"
    and "s \<in> set (pl_voters pl)" "s \<in> eligible" "d \<in> eligible" "d \<notin> set (pl_voters pl)"
  shows "load s \<le> load d + 1"
  using assms
proof (induction ps)
  case (Cons x ps)
  show ?case
  proof (cases "x = (p, pl)")
    case True
    obtain m where m: "max_by (\<lambda>a b. load a < load b \<or> load a = load b \<and> b < a) (filter (\<lambda>v. v \<in> eligible) (pl_voters pl)) = Some m"
      using assms(5,6) by (cases "max_by (\<lambda>a b. load a < load b \<or> load a = load b \<and> b < a) (filter (\<lambda>v. v \<in> eligible) (pl_voters pl))")
        (auto simp: filter_empty_conv)
    obtain l where l: "least_loaded_non_replica eligible (set (pl_voters pl)) load = Some l"
      using least_loaded_None [OF assms(4), of "set (pl_voters pl)" load] assms(7,8) by auto
    have "load m < load l + 2"
      using Cons.prems(1) True assms(3) m l by (simp add: Let_def rebalance_pass_keeps split: if_splits)
    moreover have "load s \<le> load m" using most_loaded_Some(3) [OF m] assms(5,6) by blast
    moreover have "load l \<le> load d" using least_loaded_Some(3) [OF l assms(4)] assms(7,8) by blast
    ultimately show ?thesis by linarith
  next
    case False
    obtain q y where x: "x = (q, y)" by force
    have "rebalance_pass eligible load None ps = None"
      using Cons.prems(1) unfolding x by (auto simp: Let_def rebalance_pass_keeps split: if_splits option.splits)
    with Cons False show ?thesis by auto
  qed
qed simp

text \<open>C23: When the balancer rests the cluster is placed as well as it can be: with enough eligible nodes and no
  move in flight, no proposal means that every group has no voter to evacuate (or every eligible node
  already votes there), and no eligible voter carries more than one replica above any eligible node
  that could replace it.\<close>

theorem balancer_rests_balanced:
  assumes "propose directory ps r = None" "r \<le> card (eligible_nodes directory)" "\<forall>(_, pl) \<in> set ps. pl_move pl = None"
    and "distinct (map fst ps)" "(p, pl) \<in> set ps"
  shows "(evacuating_voters directory (pl_voters pl) = {} \<or> eligible_nodes directory \<subseteq> set (pl_voters pl))
    \<and> (\<forall>s \<in> set (pl_voters pl) \<inter> eligible_nodes directory. \<forall>d \<in> eligible_nodes directory - set (pl_voters pl).
         load_of (load_map ps) s \<le> load_of (load_map ps) d + 1)"
proof -
  let ?el = "eligible_nodes directory" and ?load = "load_of (load_map ps)"
  have resting: "pl_move pl = None" using assms(3,5) by auto
  have "\<not> list_ex (\<lambda>(_, pl). case pl_move pl of Some plan \<Rightarrow> mp_aborting plan | None \<Rightarrow> False) ps"
    using assms(3) by (auto simp: list_ex_iff)
  then have drain: "drain_pass directory ?el ?load ps = None"
    and either: "rebalance_pass ?el ?load None ps = None \<or> (\<exists>s d q. rebalance_pass ?el ?load None ps = Some (s, d, q) \<and> map_of ps q = None)"
    using assms(1,2) by (auto simp: propose_def Let_def split: if_splits option.splits)
  have "map_of ps q \<noteq> None" if "rebalance_pass ?el ?load None ps = Some (s, d, q)" for s d q
  proof -
    have "worthwhile ?el ?load ps (s, d, q)"
      by (rule rebalance_pass_Some [OF that]) (use assms(4) in auto)
    then show ?thesis by (auto simp: worthwhile_def)
  qed
  with either have "rebalance_pass ?el ?load None ps = None" by blast
  from rebalance_pass_None [OF this assms(5) resting] drain_pass_None [OF drain assms(5) resting] show ?thesis
    by (auto simp: least_loaded_None)
qed


theorem balancer_rests_balanced_witness:
  "propose (map snd demo_members) [(0, demo_rest)] 3 = None \<and> load_of (load_map [(0, demo_rest)]) 1 \<le> load_of (load_map [(0, demo_rest)]) 4 + 1"
proof -
  have none: "propose (map snd demo_members) [(0, demo_rest)] 3 = None" by code_simp
  have el: "eligible_nodes (map snd demo_members) = {1, 2, 3, 4}"
    by (auto simp: eligible_nodes_def demo_members_def demo_member_def)
  have "3 \<le> card (eligible_nodes (map snd demo_members))" unfolding el by code_simp
  moreover have "\<forall>(_, pl) \<in> set [(0 :: u16, demo_rest)]. pl_move pl = None" "distinct (map fst [(0 :: u16, demo_rest)])"
    "(0 :: u16, demo_rest) \<in> set [(0, demo_rest)]"
    by (simp_all add: demo_rest_def)
  ultimately show ?thesis
    using balancer_rests_balanced [OF none] none el by (auto simp: demo_rest_def)
qed

end
