(* ===== verification/Meta_Guards.thy ===== *)
theory Meta_Guards
  imports Balancer
begin

section \<open>What has to hold before a plan, a readiness report or a recovery is accepted\<close>

text \<open>
  Three decisions of the meta group whose guards other components rely on, each read backwards: from
  a record that changed to the command that changed it and everything that was checked.
\<close>

subsection \<open>Move plans\<close>

text \<open>C18: A group gets a pending plan only through \<open>CreatePlan\<close> for that group, with no maintenance
  operation active.  The plan is numbered by its log index and not aborting, its target is the
  command's voters in ascending order, the group's voters stay as they are, and every newcomer is
  an active node.  For a data group the target has exactly R voters, differs in one voter on each
  side, and at least R nodes are active; for the meta group one voter is replaced or removed and at
  least three remain.\<close>

theorem plans_are_guarded:
  assumes "meta_step E v (lid, cmd) = (v', r)" "mv_placements v g = Some pl" "pl_move pl = None"
    and "mv_placements v' g = Some pl'" "pl_move pl' = Some m"
  shows "\<exists>c pid ts. cmd = CreatePlan g pid ts \<and> mv_cluster v = Some c \<and> maintenance_idle v
    \<and> pl_voters pl' = pl_voters pl \<and> pl_voters_log_id pl' = pl_voters_log_id pl
    \<and> mp_plan_id m = li_index lid \<and> \<not> mp_aborting m \<and> distinct ts \<and> mp_target_voters m = sorted_list_of_set (set ts)
    \<and> (\<forall>n \<in> set ts - set (pl_voters pl). active_node v n)
    \<and> (case g of
         Data _ \<Rightarrow> unat (cc_r c) \<le> active_count v \<and> length ts = unat (cc_r c)
           \<and> card (set ts - set (pl_voters pl)) = 1 \<and> card (set (pl_voters pl) - set ts) = 1
       | Meta \<Rightarrow> legal_meta_target (set (pl_voters pl)) (set ts))"
proof (cases rule: meta_step_cases [of E v lid cmd])
  case same
  with assms show ?thesis by auto
next
  case (change ws)
  have v': "v' = view_writes ws v" using change(1) assms(1) by simp
  from change(2) show ?thesis
  proof cases
    case (plan c g' pl0 ts pid)
    have g: "g' = g" using plan(2) assms v' by (cases "g' = g") auto
    have pl: "pl0 = pl" using plan(4) assms(2) g by simp
    have idle: "maintenance_idle v" using change(3) plan(1) by auto
    have "pl' = pl\<lparr>pl_move := Some \<lparr>mp_plan_id = li_index lid, mp_target_voters = sorted_list_of_set (set ts), mp_aborting = False\<rparr>\<rparr>"
      using plan(2) assms(4) v' g pl by (simp add: voter_set_def)
    then show ?thesis
      using plan(1,3,6,7,8,9) assms(5) g pl idle
      by (cases g) (auto simp: voter_set_def legal_data_target_def distinct_card)
  next
    case drop_done
    then have "mv_placements v' = mv_placements v" using v' by simp
    then show ?thesis using assms by simp
  next
    case init
    then show ?thesis using assms(2-5) v' by (cases "g = Meta") auto
  next
    case (seed c' p vs)
    then show ?thesis using assms(2-5) v' by (cases "g = Data p") simp_all
  next
    case (abort_mark g' pl0 m' pid)
    then show ?thesis using assms(2-5) v' by (cases "g = g'") auto
  next
    case (finalize g' pl0 m' pid ob)
    then show ?thesis using assms(2-5) v' by (cases "g = g'") auto
  next
    case (aborted g' pl0 m' pid ob vs)
    then show ?thesis using assms(2-5) v' by (cases "g = g'") auto
  qed (use assms(2-5) v' in simp_all)
qed

lemma demo_plan:
  "meta_step ref_meta_env demo_uneven (LogId 1 9, CreatePlan (Data 0) 0 [2, 3, 4]) =
     (demo_uneven\<lparr>mv_placements := (mv_placements demo_uneven)(Data 0 \<mapsto> demo_rest\<lparr>pl_move := Some
        \<lparr>mp_plan_id = 9, mp_target_voters = [2, 3, 4], mp_aborting = False\<rparr>\<rparr>)\<rparr>, Ok MApplied)"
proof -
  have cards: "card {2, 3, 4 :: u64} = 3" "card ({2, 3, 4} - {1, 2, 3 :: u64}) = 1" "card ({1, 2, 3} - {2, 3, 4 :: u64}) = 1"
    "sorted_list_of_set {2, 3, 4 :: u64} = [2, 3, 4]" "sorted_list_of_set ({2, 3, 4} - {1, 2, 3 :: u64}) = [4]"
    by code_simp+
  have at: "mv_cluster demo_uneven = Some demo_cluster" "cc_r demo_cluster = 3"
    "mv_placements demo_uneven (Data 0) = Some demo_rest" "pl_voters demo_rest = [1, 2, 3]" "pl_move demo_rest = None"
    by (simp_all add: demo_uneven_def demo_cluster_def demo_rest_def)
  have "eligible_count (view_reads demo_uneven) = Ok 4"
    by (simp add: eligible_count_def demo_uneven_def demo_members_def demo_member_def)
  moreover have "active_node demo_uneven 4" by (simp add: active_node_def demo_uneven_def demo_members_def demo_member_def)
  ultimately have "create_plan (view_reads demo_uneven) (Data 0) [2, 3, 4] (LogId 1 9) = applied [PutPlacement (Data 0)
      (demo_rest\<lparr>pl_move := Some \<lparr>mp_plan_id = 9, mp_target_voters = [2, 3, 4], mp_aborting = False\<rparr>\<rparr>)]"
    using at by (simp add: create_plan_def Let_def voter_set_def cards all_active_view)
  then show ?thesis
    by (simp add: meta_step_def meta_evaluate_view maintenance_idle_def demo_uneven_def initial_view_def)
qed

theorem plans_are_guarded_witness:
  "\<exists>v' c. meta_step ref_meta_env demo_uneven (LogId 1 9, CreatePlan (Data 0) 0 [2, 3, 4]) = (v', Ok MApplied)
     \<and> mv_cluster demo_uneven = Some c \<and> unat (cc_r c) \<le> active_count demo_uneven"
proof -
  have at: "mv_placements demo_uneven (Data 0) = Some demo_rest" "pl_move demo_rest = None"
    by (simp_all add: demo_uneven_def demo_rest_def)
  let ?m = "\<lparr>mp_plan_id = 9, mp_target_voters = [2, 3, 4], mp_aborting = False\<rparr>"
  let ?v' = "demo_uneven\<lparr>mv_placements := (mv_placements demo_uneven)(Data 0 \<mapsto> demo_rest\<lparr>pl_move := Some ?m\<rparr>)\<rparr>"
  have new: "mv_placements ?v' (Data 0) = Some (demo_rest\<lparr>pl_move := Some ?m\<rparr>)" "pl_move (demo_rest\<lparr>pl_move := Some ?m\<rparr>) = Some ?m"
    by simp_all
  from plans_are_guarded [OF demo_plan at new] demo_plan show ?thesis by auto
qed

subsection \<open>Readiness reports\<close>







subsection \<open>Recovery during maintenance\<close>









end
