(* ===== verification/Bootstrap.thy ===== *)
theory Bootstrap
  imports Meta_Runs "HOL-Library.Multiset"
begin

section \<open>Genesis: init files and the resumable bootstrap (runtime/config\_file.rs, meta/bootstrap.rs)\<close>

text \<open>
  From a parsed init file to a seeded cluster: the descriptor every bootstrap node derives, the
  durable markers, and the commands that create the cluster record, the directory and the initial
  placements.  JSON parsing is \<open>serde\<close>'s and proposing a command is the Raft client's: the file
  arrives as a record and the proposal function is a parameter.  The lemmas describe the descriptor
  of an accepted file, the round trip of cluster ids and the durable markers; theory \<open>Genesis\<close>
  shows that the commands derived from it seed the cluster.
\<close>

subsection \<open>Cluster ids\<close>

definition hex_value :: "char \<Rightarrow> nat option" where
  "hex_value c =
     (let n = of_char c in
      if 48 \<le> n \<and> n \<le> 57 then Some (n - 48)
      else if 97 \<le> n \<and> n \<le> 102 then Some (n - 87)
      else if 65 \<le> n \<and> n \<le> 70 then Some (n - 55)
      else None)"

text \<open>
  \<open>u128::from_str_radix\<close> for radix 16: an optional plus sign before at least one digit, every
  digit hexadecimal, no overflow; the errors are those of \<open>ParseIntError\<close>.
\<close>

fun radix16_digits :: "nat \<Rightarrow> string \<Rightarrow> string + nat" where
  "radix16_digits acc [] = Ok acc"
| "radix16_digits acc (c # cs) =
     (case hex_value c of
        None \<Rightarrow> Err ''invalid digit found in string''
      | Some d \<Rightarrow> if acc * 16 + d < 2 ^ 128 then radix16_digits (acc * 16 + d) cs
                  else Err ''number too large to fit in target type'')"

definition from_str_radix16 :: "string \<Rightarrow> string + u128" where
  "from_str_radix16 s =
     (case s of
        [] \<Rightarrow> Err ''cannot parse integer from empty string''
      | c # cs \<Rightarrow> rbind (radix16_digits 0 (if c = CHR ''+'' \<and> cs \<noteq> [] then cs else s)) (\<lambda>n. Ok (of_nat n)))"

definition parse_cluster_id :: "string \<Rightarrow> cluster_id result" where
  "parse_cluster_id s =
     (let hex = (case strip_prefix ''0x'' s of Some rest \<Rightarrow> rest | None \<Rightarrow> s) in
      case from_str_radix16 hex of
        Inr i \<Rightarrow> Ok i
      | Inl e \<Rightarrow> Err (error.Config (''cluster_id must be a hex u128: '' @ e)))"

definition cluster_id_hex :: "cluster_id \<Rightarrow> string" where
  "cluster_id_hex i = ''0x'' @ hex_digits (unat i)"

subsection \<open>The init file\<close>

record dir_entry =
  de_node_id :: node_id
  de_control_addr :: string
  de_bulk_addr :: string

record init_file =
  if_cluster_id :: string
  if_p :: u64
  if_r :: u8
  if_hash_spec :: "hash_spec option"
  if_meta_voters :: "node_id list"
  if_nodes :: "dir_entry list"

record bootstrap_descriptor =
  bd_cluster_id :: cluster_id
  bd_config :: cluster_config
  bd_meta_voters :: "node_id list"
  bd_directory :: "dir_entry list"
  bd_data_placements :: "(u16 \<times> node_id list) list"

definition initial_placements :: "u16 \<Rightarrow> u8 \<Rightarrow> node_id list \<Rightarrow> (u16 \<times> node_id list) list" where
  "initial_placements p r sorted_nodes =
     map (\<lambda>i. (of_nat i, map (\<lambda>k. sorted_nodes ! ((i + k) mod length sorted_nodes)) [0..<unat r])) [0..<unat p]"

text \<open>The loop over both addresses of every entry, with the map from addresses to their owner.\<close>

definition claim_address :: "node_id \<Rightarrow> string \<Rightarrow> (string \<rightharpoonup> node_id) \<Rightarrow> (string \<rightharpoonup> node_id) result" where
  "claim_address n a owner =
     (if a = [] \<or> length a > MAX_ENDPOINT_BYTES then Err (error.Config (''node '' @ decimal (unat n) @ '' addresses must be 1..=256 bytes''))
      else case owner a of
        Some previous \<Rightarrow> Err (error.Config (''nodes '' @ decimal (unat previous) @ '' and '' @ decimal (unat n)
                              @ '' share address '' @ a))
      | None \<Rightarrow> Ok (owner(a \<mapsto> n)))"

fun check_addresses :: "(string \<rightharpoonup> node_id) \<Rightarrow> dir_entry list \<Rightarrow> unit result" where
  "check_addresses owner [] = Ok ()"
| "check_addresses owner (e # es) =
     rbind (claim_address (de_node_id e) (de_control_addr e) owner) (\<lambda>owner.
     rbind (claim_address (de_node_id e) (de_bulk_addr e) owner) (\<lambda>owner.
     check_addresses owner es))"

definition load_init_descriptor :: "init_file \<Rightarrow> bootstrap_descriptor result" where
  "load_init_descriptor file =
     rbind (parse_cluster_id (if_cluster_id file)) (\<lambda>cid.
     rbind (parse_partition_count (if_p file)) (\<lambda>p.
     let spec = (case if_hash_spec file of Some h \<Rightarrow> h | None \<Rightarrow> CANONICAL) in
     rbind (init_config_validate \<lparr>ic_p = p, ic_r = if_r file, ic_bootstrap_nodes = map de_node_id (if_nodes file),
              ic_meta_voters = if_meta_voters file, ic_hash_spec = spec\<rparr>) (\<lambda>_.
     let directory = sort_key de_node_id (if_nodes file) in
     rbind (check_addresses Map.empty directory) (\<lambda>_.
     Ok \<lparr>bd_cluster_id = cid,
         bd_config = \<lparr>cc_cluster_id = cid, cc_protocol_version = PROTOCOL_VERSION, cc_p = p, cc_r = if_r file, cc_hash_spec = spec\<rparr>,
         bd_meta_voters = sort (if_meta_voters file),
         bd_directory = directory,
         bd_data_placements = initial_placements p (if_r file) (map de_node_id directory)\<rparr>))))"

subsection \<open>Durable markers\<close>

datatype bootstrap_outcome = Created | AlreadyPresent

definition designated :: "node_id list \<Rightarrow> node_id option" where
  "designated voters = (if voters = [] then None else Some (Min (set voters)))"

definition debug_group :: "group_id \<Rightarrow> string" where
  "debug_group g = (case g of Meta \<Rightarrow> ''Meta'' | Data p \<Rightarrow> ''Data('' @ decimal (unat p) @ '')'')"

text \<open>A marker is written once; a retry is accepted only when it is the same record.\<close>

definition ensure_record :: "'a codec \<Rightarrow> string \<Rightarrow> bytes \<Rightarrow> 'a \<Rightarrow> storage \<Rightarrow> storage \<times> bootstrap_outcome result" where
  "ensure_record c msg key record st =
     sbind (st, get_local c st key) (\<lambda>st existing.
     case existing of
       Some old \<Rightarrow> if old = record then (st, Ok AlreadyPresent) else (st, Err (error.Config msg))
     | None \<Rightarrow> (put_local c key record st, Ok Created))"

definition ensure_bootstrap_group :: "bootstrap_group codec \<Rightarrow> bootstrap_group \<Rightarrow> storage \<Rightarrow> storage \<times> bootstrap_outcome result" where
  "ensure_bootstrap_group c record =
     ensure_record c (''conflicting bootstrap record for '' @ debug_group (bg_group record)) (bootstrap_key (bg_group record)) record"

definition ensure_learner_admission ::
  "learner_admission codec \<Rightarrow> learner_admission \<Rightarrow> storage \<Rightarrow> storage \<times> bootstrap_outcome result" where
  "ensure_learner_admission c record =
     ensure_record c (''conflicting learner admission for '' @ debug_group (la_group record)) (admission_key (la_group record)) record"

fun record_on_members ::
  "bootstrap_group codec \<Rightarrow> bootstrap_group \<Rightarrow> (node_id \<times> storage) list \<Rightarrow> (node_id \<times> storage) list \<times> unit result" where
  "record_on_members c record [] = ([], Ok ())"
| "record_on_members c record ((n, st) # rest) =
     (if n \<in> set (bg_members record) then
        (case ensure_bootstrap_group c record st of
           (st, Inl e) \<Rightarrow> ((n, st) # rest, Inl e)
         | (st, Inr _) \<Rightarrow> (let (rest, r) = record_on_members c record rest in ((n, st) # rest, r)))
      else (let (rest, r) = record_on_members c record rest in ((n, st) # rest, r)))"

definition record_meta_bootstrap ::
  "bootstrap_group codec \<Rightarrow> bootstrap_descriptor \<Rightarrow> (node_id \<times> storage) list \<Rightarrow> (node_id \<times> storage) list \<times> unit result" where
  "record_meta_bootstrap c desc storages =
     record_on_members c \<lparr>bg_cluster_id = bd_cluster_id desc, bg_group = Meta, bg_members = bd_meta_voters desc\<rparr> storages"

fun record_placements ::
  "bootstrap_group codec \<Rightarrow> cluster_id \<Rightarrow> (u16 \<times> node_id list) list \<Rightarrow> (node_id \<times> storage) list
    \<Rightarrow> (node_id \<times> storage) list \<times> unit result" where
  "record_placements c cid [] storages = (storages, Ok ())"
| "record_placements c cid ((p, voters) # rest) storages =
     sbind (record_on_members c \<lparr>bg_cluster_id = cid, bg_group = Data p, bg_members = voters\<rparr> storages) (\<lambda>storages _.
     record_placements c cid rest storages)"

definition record_data_bootstrap ::
  "bootstrap_group codec \<Rightarrow> bootstrap_descriptor \<Rightarrow> (node_id \<times> storage) list \<Rightarrow> (node_id \<times> storage) list \<times> unit result" where
  "record_data_bootstrap c desc storages = record_placements c (bd_cluster_id desc) (bd_data_placements desc) storages"

subsection \<open>Seeding the meta group\<close>

definition genesis_commands :: "bootstrap_descriptor \<Rightarrow> meta_command list" where
  "genesis_commands desc =
     ClusterInit (bd_config desc) (bd_meta_voters desc)
     # map (\<lambda>d. RegisterNode (de_node_id d) (de_control_addr d) (de_bulk_addr d)) (bd_directory desc)
     @ map (\<lambda>(p, voters). SeedPlacement (Data p) voters) (bd_data_placements desc)"

text \<open>The derived \<open>Debug\<close> form of a rejection, and the step names \<open>seed_cluster\<close> reports.\<close>

definition debug_reject :: "meta_reject \<Rightarrow> string" where
  "debug_reject r = (case r of
     InvalidConfig m \<Rightarrow> ''InvalidConfig('' @ debug_str m @ '')''
   | IllegalVoterChange m \<Rightarrow> ''IllegalVoterChange('' @ debug_str m @ '')''
   | ClusterNotInitialized \<Rightarrow> ''ClusterNotInitialized''
   | ClusterConflict \<Rightarrow> ''ClusterConflict''
   | NoPlacement \<Rightarrow> ''NoPlacement''
   | PlacementConflict \<Rightarrow> ''PlacementConflict''
   | PlanExists \<Rightarrow> ''PlanExists''
   | NoPlan \<Rightarrow> ''NoPlan''
   | PlanIdMismatch \<Rightarrow> ''PlanIdMismatch''
   | IneligibleTarget \<Rightarrow> ''IneligibleTarget''
   | ObservationMismatch \<Rightarrow> ''ObservationMismatch''
   | PlanAborting \<Rightarrow> ''PlanAborting''
   | NotAborting \<Rightarrow> ''NotAborting''
   | UnknownNode \<Rightarrow> ''UnknownNode''
   | StaleIncarnation \<Rightarrow> ''StaleIncarnation''
   | SeedMetaForbidden \<Rightarrow> ''SeedMetaForbidden''
   | SearchIndexExists \<Rightarrow> ''SearchIndexExists''
   | SearchIndexNotFound \<Rightarrow> ''SearchIndexNotFound''
   | SearchGenerationExists \<Rightarrow> ''SearchGenerationExists''
   | SearchGenerationMismatch \<Rightarrow> ''SearchGenerationMismatch''
   | SearchGenerationNotReady \<Rightarrow> ''SearchGenerationNotReady''
   | MaintenanceActive \<Rightarrow> ''MaintenanceActive''
   | MaintenanceBusy \<Rightarrow> ''MaintenanceBusy''
   | MaintenanceMismatch \<Rightarrow> ''MaintenanceMismatch''
   | MaintenanceTopologyMismatch \<Rightarrow> ''MaintenanceTopologyMismatch''
   | MaintenancePolicyMismatch \<Rightarrow> ''MaintenancePolicyMismatch''
   | MaintenanceLivenessMismatch \<Rightarrow> ''MaintenanceLivenessMismatch''
   | StaleMaintenanceProcess \<Rightarrow> ''StaleMaintenanceProcess'')"

definition step_name :: "meta_command \<Rightarrow> string" where
  "step_name cmd = (case cmd of ClusterInit _ _ \<Rightarrow> ''ClusterInit'' | RegisterNode _ _ _ \<Rightarrow> ''RegisterNode''
     | _ \<Rightarrow> ''SeedPlacement'')"

definition accept :: "meta_apply_result \<Rightarrow> string \<Rightarrow> unit result" where
  "accept result what =
     (case result of
        MApplied \<Rightarrow> Ok ()
      | MNoOp \<Rightarrow> Ok ()
      | MRejected r \<Rightarrow> Err (error.Config (''bootstrap '' @ what @ '' rejected: '' @ debug_reject r)))"

text \<open>
  \<open>propose_to_leader\<close>: at most 200 rounds, each asking the first node that believes it leads.  The
  nodes' world \<open>'s\<close> with its operations is the Raft library's: whether a node leads, a proposal
  through it, and the pause between rounds are parameters.
\<close>

datatype propose_outcome = ProposeApplied meta_apply_result | NotLeader "node_id option"

fun propose_rounds ::
  "('s \<Rightarrow> 'n \<Rightarrow> bool) \<Rightarrow> ('n \<Rightarrow> 's \<Rightarrow> meta_command \<Rightarrow> 's \<times> propose_outcome result) \<Rightarrow> ('s \<Rightarrow> 's) \<Rightarrow> 'n list
    \<Rightarrow> nat \<Rightarrow> 's \<Rightarrow> meta_command \<Rightarrow> 's \<times> meta_apply_result result" where
  "propose_rounds leads propose pause nodes 0 s cmd =
     (s, Err (Raft ''no meta leader accepted a bootstrap command''))"
| "propose_rounds leads propose pause nodes (Suc k) s cmd =
     (case find (leads s) nodes of
        Some leader \<Rightarrow>
          sbind (propose leader s cmd) (\<lambda>s outcome.
          case outcome of
            ProposeApplied r \<Rightarrow> (s, Ok r)
          | NotLeader _ \<Rightarrow> propose_rounds leads propose pause nodes k (pause s) cmd)
      | None \<Rightarrow> propose_rounds leads propose pause nodes k (pause s) cmd)"

definition propose_to_leader ::
  "('s \<Rightarrow> 'n \<Rightarrow> bool) \<Rightarrow> ('n \<Rightarrow> 's \<Rightarrow> meta_command \<Rightarrow> 's \<times> propose_outcome result) \<Rightarrow> ('s \<Rightarrow> 's) \<Rightarrow> 'n list
    \<Rightarrow> 's \<Rightarrow> meta_command \<Rightarrow> 's \<times> meta_apply_result result" where
  "propose_to_leader leads propose pause nodes = propose_rounds leads propose pause nodes 200"

fun seed_commands ::
  "('s \<Rightarrow> meta_command \<Rightarrow> 's \<times> meta_apply_result result) \<Rightarrow> meta_command list \<Rightarrow> 's \<Rightarrow> 's \<times> unit result" where
  "seed_commands propose [] s = (s, Ok ())"
| "seed_commands propose (cmd # cmds) s =
     sbind (propose s cmd) (\<lambda>s result.
     sbind (s, accept result (step_name cmd)) (\<lambda>s _.
     seed_commands propose cmds s))"

definition seed_cluster ::
  "('s \<Rightarrow> 'n \<Rightarrow> bool) \<Rightarrow> ('n \<Rightarrow> 's \<Rightarrow> meta_command \<Rightarrow> 's \<times> propose_outcome result) \<Rightarrow> ('s \<Rightarrow> 's) \<Rightarrow> 'n list
    \<Rightarrow> bootstrap_descriptor \<Rightarrow> 's \<Rightarrow> 's \<times> unit result" where
  "seed_cluster leads propose pause nodes desc s =
     seed_commands (propose_to_leader leads propose pause nodes) (genesis_commands desc) s"

fun seed_if_leader ::
  "('s \<Rightarrow> meta_command \<Rightarrow> 's \<times> propose_outcome result) \<Rightarrow> meta_command list \<Rightarrow> 's \<Rightarrow> 's \<times> bool result" where
  "seed_if_leader propose [] s = (s, Ok True)"
| "seed_if_leader propose (cmd # cmds) s =
     sbind (propose s cmd) (\<lambda>s outcome.
     case outcome of
       ProposeApplied result \<Rightarrow> sbind (s, accept result ''bootstrap command'') (\<lambda>s _. seed_if_leader propose cmds s)
     | NotLeader _ \<Rightarrow> (s, Ok False))"

definition seed_cluster_if_leader ::
  "('s \<Rightarrow> meta_command \<Rightarrow> 's \<times> propose_outcome result) \<Rightarrow> bootstrap_descriptor \<Rightarrow> 's \<Rightarrow> 's \<times> bool result" where
  "seed_cluster_if_leader propose desc s = seed_if_leader propose (genesis_commands desc) s"

subsection \<open>Descriptors\<close>

abbreviation addresses :: "dir_entry list \<Rightarrow> string list" where
  "addresses directory \<equiv> concat (map (\<lambda>d. [de_control_addr d, de_bulk_addr d]) directory)"

definition descriptor_ok :: "bootstrap_descriptor \<Rightarrow> bool" where
  "descriptor_ok desc \<longleftrightarrow>
     cc_cluster_id (bd_config desc) = bd_cluster_id desc \<and> cc_protocol_version (bd_config desc) = PROTOCOL_VERSION
     \<and> cluster_ok (bd_config desc)
     \<and> distinct (bd_meta_voters desc) \<and> 3 \<le> length (bd_meta_voters desc) \<and> odd (length (bd_meta_voters desc))
     \<and> length (bd_meta_voters desc) \<le> 8
     \<and> distinct (map de_node_id (bd_directory desc)) \<and> 0 \<notin> de_node_id ` set (bd_directory desc)
     \<and> length (bd_directory desc) \<le> 8
     \<and> distinct (addresses (bd_directory desc))
     \<and> (\<forall>a \<in> set (addresses (bd_directory desc)). a \<noteq> [] \<and> length a \<le> MAX_ENDPOINT_BYTES)
     \<and> distinct (map fst (bd_data_placements desc))
     \<and> (\<forall>(p, vs) \<in> set (bd_data_placements desc). p < cc_p (bd_config desc) \<and> distinct vs
          \<and> length vs = unat (cc_r (bd_config desc)) \<and> set vs \<subseteq> de_node_id ` set (bd_directory desc))"

subsection \<open>From an accepted init file\<close>

lemma claim_address_Ok:
  "claim_address n a owner = Ok owner' \<longleftrightarrow> a \<noteq> [] \<and> length a \<le> MAX_ENDPOINT_BYTES \<and> a \<notin> dom owner \<and> owner' = owner(a \<mapsto> n)"
  by (auto simp: claim_address_def split: option.split)

lemma check_addresses_Ok:
  "check_addresses owner ds = Ok () \<longleftrightarrow> distinct (addresses ds) \<and> set (addresses ds) \<inter> dom owner = {}
     \<and> (\<forall>a \<in> set (addresses ds). a \<noteq> [] \<and> length a \<le> MAX_ENDPOINT_BYTES)"
proof (induction ds arbitrary: owner)
  case (Cons e es)
  let ?owner = "owner(de_control_addr e \<mapsto> de_node_id e, de_bulk_addr e \<mapsto> de_node_id e)"
  have "check_addresses owner (e # es) = Ok () \<longleftrightarrow> de_control_addr e \<noteq> [] \<and> length (de_control_addr e) \<le> MAX_ENDPOINT_BYTES
      \<and> de_control_addr e \<notin> dom owner \<and> de_bulk_addr e \<noteq> [] \<and> length (de_bulk_addr e) \<le> MAX_ENDPOINT_BYTES
      \<and> de_bulk_addr e \<noteq> de_control_addr e \<and> de_bulk_addr e \<notin> dom owner \<and> check_addresses ?owner es = Ok ()"
    by (auto simp: claim_address_Ok)
  then show ?case unfolding Cons.IH by auto
qed simp

lemma mod_window_inj:
  fixes i j k n :: nat
  assumes "(i + j) mod n = (i + k) mod n" "j < n" "k < n"
  shows "j = k"
proof -
  have "a = b" if "a \<le> b" "b < n" "(i + b) mod n = (i + a) mod n" for a b
    using that mod_eq_dvd_iff_nat [of "i + a" "i + b" n] by (auto dest: dvd_imp_le)
  then show ?thesis using assms by (metis nat_le_linear)
qed

lemma initial_placements_props:
  assumes "distinct ns" "unat r \<le> length ns" "(q, vs) \<in> set (initial_placements p r ns)"
  shows "q < p" "distinct vs" "length vs = unat r" "set vs \<subseteq> set ns"
proof -
  obtain i where i: "i < unat p" "q = of_nat i" "vs = map (\<lambda>k. ns ! ((i + k) mod length ns)) [0..<unat r]"
    using assms(3) by (auto simp: initial_placements_def)
  have "i < 65536" using i(1) unat_u16_less [of p] by simp
  then have "unat (of_nat i :: u16) = i" by (simp add: unat_of_nat)
  then show "q < p" using i by (simp add: word_less_nat_alt)
  show "length vs = unat r" using i(3) by simp
  show "set vs \<subseteq> set ns"
  proof (cases "unat r = 0")
    case False
    then have "0 < length ns" using assms(2) by linarith
    then show ?thesis using i(3) by auto
  qed (simp add: i(3))
  have "j = k" if e: "ns ! ((i + j) mod length ns) = ns ! ((i + k) mod length ns)" and l: "j < unat r" "k < unat r" for j k
  proof -
    have n: "j < length ns" "k < length ns" using l assms(2) by auto
    then have "(i + j) mod length ns = (i + k) mod length ns"
      using e assms(1) by (subst (asm) nth_eq_iff_index_eq) (auto intro!: mod_less_divisor)
    then show ?thesis using n by (rule mod_window_inj)
  qed
  then show "distinct vs" unfolding i(3) distinct_map by (auto simp: inj_on_def)
qed

lemma initial_placements_keys: "distinct (map fst (initial_placements p r ns))"
proof -
  have "inj_on (of_nat :: nat \<Rightarrow> u16) {0..<unat p}"
    using unat_u16_less [of p] by (intro inj_onI) (simp add: word_of_nat_eq_iff take_bit_nat_eq_self)
  then show ?thesis by (simp add: initial_placements_def comp_def distinct_map)
qed


lemma loaded_descriptor_ok:
  assumes "load_init_descriptor file = Ok desc"
  shows "descriptor_ok desc"
proof -
  let ?dir = "sort_key de_node_id (if_nodes file)"
  let ?spec = "case if_hash_spec file of Some h \<Rightarrow> h | None \<Rightarrow> CANONICAL"
  obtain cid p where p: "init_config_validate \<lparr>ic_p = p, ic_r = if_r file, ic_bootstrap_nodes = map de_node_id (if_nodes file),
        ic_meta_voters = if_meta_voters file, ic_hash_spec = ?spec\<rparr> = Ok ()"
    and a: "check_addresses Map.empty ?dir = Ok ()"
    and d: "desc = \<lparr>bd_cluster_id = cid,
         bd_config = \<lparr>cc_cluster_id = cid, cc_protocol_version = PROTOCOL_VERSION, cc_p = p, cc_r = if_r file, cc_hash_spec = ?spec\<rparr>,
         bd_meta_voters = sort (if_meta_voters file), bd_directory = ?dir,
         bd_data_placements = initial_placements p (if_r file) (map de_node_id ?dir)\<rparr>"
    using assms by (auto simp: load_init_descriptor_def Let_def)
  from p have c: "p \<noteq> 0" "3 \<le> unat (if_r file)" "validate_routing_shape p (if_r file) = Ok ()"
    "distinct (map de_node_id (if_nodes file))" "0 \<notin> de_node_id ` set (if_nodes file)"
    "unat (if_r file) \<le> length (if_nodes file)" "length (if_nodes file) \<le> 8"
    "distinct (if_meta_voters file)" "3 \<le> length (if_meta_voters file)" "odd (length (if_meta_voters file))"
    "set (if_meta_voters file) \<subseteq> de_node_id ` set (if_nodes file)"
    by (auto simp: init_config_validate_iff init_config_ok_def)
  have dd: "distinct (map de_node_id ?dir)"
    using c(4) by (metis distinct_map distinct_sort set_sort)
  have "card (set (if_meta_voters file)) \<le> card (set (map de_node_id (if_nodes file)))"
    using c(11) by (intro card_mono) auto
  then have "length (if_meta_voters file) \<le> 8"
    using c(4,7,8) by (simp only: distinct_card) simp
  moreover have "\<forall>(q, vs) \<in> set (initial_placements p (if_r file) (map de_node_id ?dir)). q < p \<and> distinct vs
      \<and> length vs = unat (if_r file) \<and> set vs \<subseteq> de_node_id ` set (if_nodes file)"
  proof clarify
    fix q vs assume "(q, vs) \<in> set (initial_placements p (if_r file) (map de_node_id ?dir))"
    from initial_placements_props [OF dd _ this] c(6)
    show "q < p \<and> distinct vs \<and> length vs = unat (if_r file) \<and> set vs \<subseteq> de_node_id ` set (if_nodes file)" by simp
  qed
  ultimately show ?thesis
    using c(1-3,5,7-10) dd a by (simp add: d descriptor_ok_def cluster_ok_def check_addresses_Ok initial_placements_keys)
qed

subsection \<open>Cluster ids round-trip\<close>

lemma hex_value_digit: "n < 16 \<Longrightarrow> hex_value (''0123456789abcdef'' ! n) = Some n"
proof -
  have "list_all (\<lambda>n. hex_value (''0123456789abcdef'' ! n) = Some n) [0..<16]" by code_simp
  then show "n < 16 \<Longrightarrow> hex_value (''0123456789abcdef'' ! n) = Some n" by (simp add: list_all_iff)
qed

lemma radix16_append:
  "radix16_digits acc (xs @ ys) = rbind (radix16_digits acc xs) (\<lambda>acc. radix16_digits acc ys)"
  by (induction acc xs rule: radix16_digits.induct) (auto split: option.split)

lemma radix16_hex: "n < 2 ^ 128 \<Longrightarrow> radix16_digits 0 (hex_digits n) = Ok n"
proof (induction n rule: less_induct)
  case (less n)
  show ?case
  proof (cases "n < 16")
    case True
    then show ?thesis by (simp add: hex_digits.simps [of n] hex_value_digit)
  next
    case False
    then have "radix16_digits 0 (hex_digits (n div 16)) = Ok (n div 16)" using less by simp
    moreover have "n div 16 * 16 + n mod 16 = n" by (rule div_mult_mod_eq)
    ultimately show ?thesis
      using False less.prems by (simp add: hex_digits.simps [of n] radix16_append hex_value_digit)
  qed
qed

lemma hex_digits_start: "\<exists>c cs. hex_digits n = c # cs \<and> hex_value c \<noteq> None"
proof (induction n rule: less_induct)
  case (less n)
  show ?case
  proof (cases "n < 16")
    case True
    then show ?thesis by (simp add: hex_digits.simps [of n] hex_value_digit)
  next
    case False
    then obtain c cs where "hex_digits (n div 16) = c # cs" "hex_value c \<noteq> None" using less [of "n div 16"] by auto
    then show ?thesis using False by (simp add: hex_digits.simps [of n])
  qed
qed

lemma from_str_radix16_hex: "from_str_radix16 (hex_digits (unat i)) = Ok (i :: u128)"
proof -
  obtain c cs where c: "hex_digits (unat i) = c # cs" "hex_value c \<noteq> None" using hex_digits_start by blast
  have "hex_value CHR ''+'' = None" by code_simp
  then have "c \<noteq> CHR ''+''" using c(2) by auto
  moreover have "unat i < 2 ^ 128" using unsigned_less [of i, where ?'a = nat] by simp
  ultimately show ?thesis using c(1) radix16_hex [of "unat i"] by (simp add: from_str_radix16_def)
qed


text \<open>C30: A cluster id survives being written and read: parsing the hexadecimal form that configuration files
  and the status page use gives the same 128-bit id back.\<close>

theorem cluster_id_roundtrip: "parse_cluster_id (cluster_id_hex i) = Ok i"
  by (simp add: parse_cluster_id_def cluster_id_hex_def strip_prefix_def from_str_radix16_hex)

subsection \<open>Markers\<close>

text \<open>C28: A bootstrap marker is immutable.  Once \<open>ensure_bootstrap_group\<close> succeeded, repeating it with the same
  record finds it present, and any other record for that group is refused; neither changes the store.\<close>

theorem marker_is_immutable:
  assumes "codec_ok c" "cf_wf (db_default st)" "ensure_bootstrap_group c record st = (st', Ok out)"
    and "bg_group other = bg_group record"
  shows "ensure_bootstrap_group c other st' = (st', if other = record then Ok AlreadyPresent
      else Err (error.Config (''conflicting bootstrap record for '' @ debug_group (bg_group record))))"
proof -
  have "get_local c st' (bootstrap_key (bg_group record)) = Ok (Some record)"
    using assms(1-3) by (auto simp: ensure_bootstrap_group_def ensure_record_def put_local_def get_local_def codec_ok_def
        cf_get_put split: option.splits if_splits)
  then show ?thesis using assms(4) by (auto simp: ensure_bootstrap_group_def ensure_record_def)
qed

text \<open>Which stores hold a group's marker, and what writing markers does to them.\<close>

definition marked :: "bootstrap_group codec \<Rightarrow> bootstrap_group \<Rightarrow> (node_id \<times> storage) list \<Rightarrow> bool" where
  "marked c record storages \<longleftrightarrow> (\<forall>(n, st) \<in> set storages. n \<in> set (bg_members record) \<longrightarrow>
     get_local c st (bootstrap_key (bg_group record)) = Ok (Some record))"

abbreviation stores_wf :: "(node_id \<times> storage) list \<Rightarrow> bool" where
  "stores_wf storages \<equiv> \<forall>(n, st) \<in> set storages. cf_wf (db_default st)"

lemma bootstrap_key_inj [simp]: "bootstrap_key g = bootstrap_key h \<longleftrightarrow> g = h"
  using local_key_bytes_inj [of "LK_bootstrap g" "LK_bootstrap h"] by auto

lemma ensure_marks:
  assumes "codec_ok c" "cf_wf (db_default st)" "ensure_bootstrap_group c record st = (st', Ok out)"
  shows "get_local c st' (bootstrap_key (bg_group record)) = Ok (Some record)" "cf_wf (db_default st')"
    "g \<noteq> bg_group record \<Longrightarrow> get_local c st' (bootstrap_key g) = get_local c st (bootstrap_key g)"
  using assms
  by (auto simp: ensure_bootstrap_group_def ensure_record_def put_local_def get_local_def codec_ok_def
        cf_get_put cf_wf_put split: option.splits if_splits)

lemma record_on_members_marks:
  assumes "codec_ok c"
  shows "stores_wf storages \<Longrightarrow> record_on_members c record storages = (storages', Ok ()) \<Longrightarrow>
    marked c record storages' \<and> stores_wf storages'
    \<and> (\<forall>other. bg_group other \<noteq> bg_group record \<longrightarrow> marked c other storages \<longrightarrow> marked c other storages')"
proof (induction storages arbitrary: storages')
  case (Cons x rest)
  obtain n st where x: "x = (n, st)" by force
  show ?case
  proof (cases "n \<in> set (bg_members record)")
    case True
    then obtain st1 out rest' where e: "ensure_bootstrap_group c record st = (st1, Ok out)"
      and r: "record_on_members c record rest = (rest', Ok ())" and s': "storages' = (n, st1) # rest'"
      using Cons.prems(2) by (auto simp: x split: prod.splits sum.splits)
    have wf: "cf_wf (db_default st)" using Cons.prems(1) by (simp add: x)
    note m = ensure_marks [OF assms wf e]
    show ?thesis using Cons.IH [OF _ r] Cons.prems(1) m by (auto simp: x s' marked_def)
  next
    case False
    then obtain rest' where r: "record_on_members c record rest = (rest', Ok ())" and s': "storages' = (n, st) # rest'"
      using Cons.prems(2) by (auto simp: x split: prod.splits)
    show ?thesis using Cons.IH [OF _ r] Cons.prems(1) False by (auto simp: x s' marked_def)
  qed
qed (simp add: marked_def)

lemma record_on_members_again:
  "marked c record storages \<Longrightarrow> record_on_members c record storages = (storages, Ok ())"
proof (induction storages)
  case (Cons x rest)
  obtain n st where x: "x = (n, st)" by force
  have "marked c record rest" using Cons.prems by (simp add: marked_def)
  moreover have "ensure_bootstrap_group c record st = (st, Ok AlreadyPresent)" if "n \<in> set (bg_members record)"
    using Cons.prems that by (auto simp: x marked_def ensure_bootstrap_group_def ensure_record_def)
  ultimately show ?case using Cons.IH by (simp add: x)
qed simp

abbreviation data_marker :: "cluster_id \<Rightarrow> u16 \<times> node_id list \<Rightarrow> bootstrap_group" where
  "data_marker cid pv \<equiv> \<lparr>bg_cluster_id = cid, bg_group = Data (fst pv), bg_members = snd pv\<rparr>"

lemma record_placements_marks:
  assumes "codec_ok c"
  shows "stores_wf storages \<Longrightarrow> distinct (map fst ps) \<Longrightarrow> record_placements c cid ps storages = (storages', Ok ()) \<Longrightarrow>
    (\<forall>pv \<in> set ps. marked c (data_marker cid pv) storages')
    \<and> (\<forall>other. bg_group other \<notin> Data ` fst ` set ps \<longrightarrow> marked c other storages \<longrightarrow> marked c other storages')"
proof (induction ps arbitrary: storages)
  case (Cons pv ps)
  obtain p voters where pv: "pv = (p, voters)" by force
  obtain s1 where r1: "record_on_members c (data_marker cid pv) storages = (s1, Ok ())"
    and r2: "record_placements c cid ps s1 = (storages', Ok ())"
    using Cons.prems(3) by (auto simp: pv)
  note m = record_on_members_marks [OF assms Cons.prems(1) r1]
  from Cons.IH [OF _ _ r2] m Cons.prems(2) show ?case by (auto simp: pv image_iff)
qed simp

lemma record_placements_again:
  "\<forall>pv \<in> set ps. marked c (data_marker cid pv) storages \<Longrightarrow> record_placements c cid ps storages = (storages, Ok ())"
  by (induction ps) (auto simp: record_on_members_again)

text \<open>C29: Recording the data groups' bootstrap markers is idempotent: once it succeeded on a set of stores,
  every voter's store holds the marker of each of its groups, and recording again succeeds and changes
  no store.\<close>

theorem markers_are_idempotent:
  assumes "load_init_descriptor file = Ok desc" "codec_ok c" "\<forall>(n, st) \<in> set storages. cf_wf (db_default st)"
    and "record_data_bootstrap c desc storages = (storages', Ok ())"
  shows "record_data_bootstrap c desc storages' = (storages', Ok ())
    \<and> (\<forall>(n, st) \<in> set storages'. \<forall>(p, voters) \<in> set (bd_data_placements desc). n \<in> set voters \<longrightarrow>
         get_local c st (bootstrap_key (Data p)) =
           Ok (Some \<lparr>bg_cluster_id = bd_cluster_id desc, bg_group = Data p, bg_members = voters\<rparr>))"
proof -
  have "distinct (map fst (bd_data_placements desc))"
    using loaded_descriptor_ok [OF assms(1)] by (simp add: descriptor_ok_def)
  then have m: "\<forall>pv \<in> set (bd_data_placements desc). marked c (data_marker (bd_cluster_id desc) pv) storages'"
    using record_placements_marks [OF assms(2,3)] assms(4) by (auto simp: record_data_bootstrap_def)
  then have "record_data_bootstrap c desc storages' = (storages', Ok ())"
    by (simp add: record_data_bootstrap_def record_placements_again)
  with m show ?thesis by (fastforce simp: marked_def)
qed

subsection \<open>One descriptor for every node\<close>

lemma init_config_validate_cong:
  assumes "ic_p c = ic_p c'" "ic_r c = ic_r c'"
    and "set (ic_bootstrap_nodes c) = set (ic_bootstrap_nodes c')" "length (ic_bootstrap_nodes c) = length (ic_bootstrap_nodes c')"
    and "set (ic_meta_voters c) = set (ic_meta_voters c')" "length (ic_meta_voters c) = length (ic_meta_voters c')"
  shows "init_config_validate c = init_config_validate c'"
  unfolding init_config_validate_def assms ..

text \<open>C27: Every bootstrap node derives the same descriptor: reordering the nodes and the meta voters of an
  accepted init file changes nothing.\<close>

theorem descriptor_ignores_order:
  assumes "load_init_descriptor file = Ok desc"
    and "mset nodes = mset (if_nodes file)" "mset voters = mset (if_meta_voters file)"
  shows "load_init_descriptor (file\<lparr>if_nodes := nodes, if_meta_voters := voters\<rparr>) = Ok desc"
proof -
  have sets: "set nodes = set (if_nodes file)" "length nodes = length (if_nodes file)"
    "set voters = set (if_meta_voters file)" "length voters = length (if_meta_voters file)"
    using assms(2,3) by (auto dest: mset_eq_setD mset_eq_length)
  have "distinct (map de_node_id (if_nodes file))"
    using assms(1) by (auto simp: load_init_descriptor_def init_config_validate_iff init_config_ok_def Let_def)
  then have "sort_key de_node_id nodes = sort_key de_node_id (if_nodes file)"
    using assms(2) by (intro sort_key_inj_key_eq) (auto simp: distinct_map sets(1))
  moreover have "sort voters = sort (if_meta_voters file)" using assms(3) by (intro properties_for_sort) simp_all
  moreover have "init_config_validate \<lparr>ic_p = p, ic_r = r, ic_bootstrap_nodes = map de_node_id nodes, ic_meta_voters = voters, ic_hash_spec = h\<rparr>
      = init_config_validate \<lparr>ic_p = p, ic_r = r, ic_bootstrap_nodes = map de_node_id (if_nodes file),
          ic_meta_voters = if_meta_voters file, ic_hash_spec = h\<rparr>" for p r h
    by (rule init_config_validate_cong) (simp_all add: sets)
  ultimately show ?thesis using assms(1) by (simp add: load_init_descriptor_def)
qed


subsection \<open>A concrete cluster\<close>

definition demo_file :: init_file where
  "demo_file = \<lparr>if_cluster_id = ''0x7'', if_p = 2, if_r = 3, if_hash_spec = None, if_meta_voters = [2, 1, 3],
     if_nodes = [\<lparr>de_node_id = 3, de_control_addr = ''c3'', de_bulk_addr = ''b3''\<rparr>,
       \<lparr>de_node_id = 1, de_control_addr = ''c1'', de_bulk_addr = ''b1''\<rparr>, \<lparr>de_node_id = 2, de_control_addr = ''c2'', de_bulk_addr = ''b2''\<rparr>]\<rparr>"

definition demo_descriptor :: bootstrap_descriptor where
  "demo_descriptor = \<lparr>bd_cluster_id = 7,
     bd_config = \<lparr>cc_cluster_id = 7, cc_protocol_version = PROTOCOL_VERSION, cc_p = 2, cc_r = 3, cc_hash_spec = CANONICAL\<rparr>,
     bd_meta_voters = [1, 2, 3],
     bd_directory = [\<lparr>de_node_id = 1, de_control_addr = ''c1'', de_bulk_addr = ''b1''\<rparr>,
       \<lparr>de_node_id = 2, de_control_addr = ''c2'', de_bulk_addr = ''b2''\<rparr>, \<lparr>de_node_id = 3, de_control_addr = ''c3'', de_bulk_addr = ''b3''\<rparr>],
     bd_data_placements = [(0, [1, 2, 3]), (1, [2, 3, 1])]\<rparr>"

lemma demo_file_loads: "load_init_descriptor demo_file = Ok demo_descriptor"
proof -
  have cid: "parse_cluster_id ''0x7'' = Ok 7"
    by (simp add: parse_cluster_id_def strip_prefix_def from_str_radix16_def hex_value_def ok_or_def)
  have places: "initial_placements 2 3 [1, 2, 3] = [(0, [1, 2, 3]), (1, [2, 3, 1])]"
    by (simp add: initial_placements_def upt_rec)
  have shape: "validate_routing_shape 2 3 = Ok ()" by (simp add: validate_routing_shape_eq)
  show ?thesis
    by (simp add: load_init_descriptor_def demo_file_def demo_descriptor_def cid places shape init_config_validate_def
        parse_partition_count_def claim_address_def MIN_REPLICATION_def MAX_CLUSTER_NODES_def MIN_META_VOTERS_def
        MAX_ENDPOINT_BYTES_def word_le_nat_alt)
qed

theorem descriptor_ignores_order_witness:
  "load_init_descriptor (demo_file\<lparr>if_nodes := rev (if_nodes demo_file), if_meta_voters := [3, 2, 1]\<rparr>) = Ok demo_descriptor"
  by (rule descriptor_ignores_order [OF demo_file_loads]) (simp_all add: demo_file_def)

definition p_marker :: "bootstrap_group pcodec" where
  "p_marker = p_iso (\<lambda>(i, g, ms). \<lparr>bg_cluster_id = i, bg_group = g, bg_members = ms\<rparr>)
     (\<lambda>b. (bg_cluster_id b, bg_group b, bg_members b)) (p_pair p_u128 (p_pair p_group (p_list p_u64)))"

lemma marker_codec_ok: "codec_ok (whole p_marker)"
  by (rule codec_ok_whole) (unfold p_marker_def, intro pok_intros, auto)

definition demo_empty :: storage where
  "demo_empty = \<lparr>db_default = [], db_cfs = Map.empty, db_failed = None\<rparr>"

lemma demo_empty_wf: "cf_wf (db_default demo_empty)"
  by (simp add: demo_empty_def)

definition demo_marker :: bootstrap_group where
  "demo_marker = \<lparr>bg_cluster_id = 7, bg_group = Meta, bg_members = [1, 2, 3]\<rparr>"

theorem marker_is_immutable_witness:
  "\<exists>st'. ensure_bootstrap_group (whole p_marker) demo_marker demo_empty = (st', Ok Created)
     \<and> ensure_bootstrap_group (whole p_marker) demo_marker st' = (st', Ok AlreadyPresent)
     \<and> ensure_bootstrap_group (whole p_marker) (demo_marker\<lparr>bg_members := [1]\<rparr>) st' =
         (st', Err (error.Config ''conflicting bootstrap record for Meta''))"
proof -
  obtain st' where st': "ensure_bootstrap_group (whole p_marker) demo_marker demo_empty = (st', Ok Created)"
    by (simp add: ensure_bootstrap_group_def ensure_record_def get_local_def demo_empty_def)
  note im = marker_is_immutable [OF marker_codec_ok demo_empty_wf st']
  have "demo_marker\<lparr>bg_members := [1]\<rparr> \<noteq> demo_marker" "bg_group (demo_marker\<lparr>bg_members := [1]\<rparr>) = bg_group demo_marker"
    by (simp_all add: demo_marker_def)
  then show ?thesis
    using st' im [of demo_marker] im [of "demo_marker\<lparr>bg_members := [1]\<rparr>"]
    by (auto simp: debug_group_def demo_marker_def)
qed

theorem markers_are_idempotent_witness:
  "\<exists>storages. record_data_bootstrap (whole p_marker) demo_descriptor [(1, demo_empty), (4, demo_empty)] = (storages, Ok ())
     \<and> record_data_bootstrap (whole p_marker) demo_descriptor storages = (storages, Ok ())"
proof -
  have miss: "get_local (whole p_marker) (put_local (whole p_marker) (bootstrap_key (Data 0)) x demo_empty) (bootstrap_key (Data 1)) = Ok None" for x
    using demo_empty_wf by (simp add: get_local_def put_local_def cf_get_put) (simp add: demo_empty_def)
  have none: "get_local (whole p_marker) demo_empty k = Ok None" for k by (simp add: get_local_def demo_empty_def)
  obtain storages where run: "record_data_bootstrap (whole p_marker) demo_descriptor [(1, demo_empty), (4, demo_empty)] = (storages, Ok ())"
    by (simp add: record_data_bootstrap_def demo_descriptor_def ensure_bootstrap_group_def ensure_record_def none miss)
  have wf: "\<forall>(n, st) \<in> set [(1, demo_empty), (4, demo_empty)]. cf_wf (db_default st)" using demo_empty_wf by simp
  from markers_are_idempotent [OF demo_file_loads marker_codec_ok wf run] run show ?thesis by blast
qed

end
