(* ===== verification/Genesis.thy ===== *)
theory Genesis
  imports Bootstrap
begin

section \<open>Seeding a cluster\<close>

text \<open>
  The genesis commands against the meta group.  A locale states when a script of commands is
  resumable; it is interpreted on the meta state machine, the states an interrupted genesis can
  leave and the commands of a descriptor.  Both drivers of the code, the one that follows the
  leader and the one that runs on every meta replica, inherit their guarantees from it.
\<close>

subsection \<open>Resumable scripts\<close>

text \<open>
  The contract behind a resumable bootstrap: each command of a script, once those it deps took
  effect, is accepted, takes effect, undoes nothing, and is a no-op when it is repeated.
\<close>

fun ordered :: "(meta_command \<Rightarrow> meta_command set) \<Rightarrow> meta_command set \<Rightarrow> meta_command list \<Rightarrow> bool" where
  "ordered deps S [] \<longleftrightarrow> True"
| "ordered deps S (c # cs) \<longleftrightarrow> deps c \<subseteq> S \<and> ordered deps (insert c S) cs"

lemma ordered_append: "ordered deps S (xs @ ys) \<longleftrightarrow> ordered deps S xs \<and> ordered deps (S \<union> set xs) ys"
  by (induction xs arbitrary: S) auto

lemma ordered_all: "(\<And>c. c \<in> set xs \<Longrightarrow> deps c \<subseteq> S) \<Longrightarrow> ordered deps S xs"
proof (induction xs arbitrary: S)
  case (Cons c cs)
  from Cons.prems have "deps c \<subseteq> S" "\<And>d. d \<in> set cs \<Longrightarrow> deps d \<subseteq> insert c S" by auto
  then show ?case using Cons.IH by simp
qed simp

text \<open>What a proposal may do to the replicated state: commit the command, or nothing, or fail either way.\<close>

definition commits ::
  "('v \<Rightarrow> log_id \<times> meta_command \<Rightarrow> 'v \<times> meta_apply_result result) \<Rightarrow> ('s \<Rightarrow> 'v)
    \<Rightarrow> ('s \<Rightarrow> meta_command \<Rightarrow> 's \<times> propose_outcome result) \<Rightarrow> bool" where
  "commits step view propose \<longleftrightarrow> (\<forall>s cmd. case propose s cmd of
       (s', Inr (ProposeApplied r)) \<Rightarrow> \<exists>lid. step (view s) (lid, cmd) = (view s', Ok r)
     | (s', Inr (NotLeader _)) \<Rightarrow> view s' = view s
     | (s', Inl _) \<Rightarrow> view s' = view s \<or> (\<exists>lid r. step (view s) (lid, cmd) = (view s', Ok r)))"

text \<open>Both drivers, for the step names they report.\<close>

fun drive ::
  "(meta_command \<Rightarrow> string) \<Rightarrow> ('s \<Rightarrow> meta_command \<Rightarrow> 's \<times> propose_outcome result) \<Rightarrow> meta_command list \<Rightarrow> 's
    \<Rightarrow> 's \<times> bool result" where
  "drive name propose [] s = (s, Ok True)"
| "drive name propose (cmd # cmds) s =
     sbind (propose s cmd) (\<lambda>s outcome.
     case outcome of
       ProposeApplied result \<Rightarrow> sbind (s, accept result (name cmd)) (\<lambda>s _. drive name propose cmds s)
     | NotLeader _ \<Rightarrow> (s, Ok False))"

lemma seed_if_leader_drive: "seed_if_leader propose cmds s = drive (\<lambda>_. ''bootstrap command'') propose cmds s"
proof (induction cmds arbitrary: s)
  case (Cons c cs)
  then show ?case by simp
qed simp

locale resumable =
  fixes step :: "'v \<Rightarrow> log_id \<times> meta_command \<Rightarrow> 'v \<times> meta_apply_result result"
    and inv :: "'v \<Rightarrow> bool"
    and present :: "meta_command \<Rightarrow> 'v \<Rightarrow> bool"
    and deps :: "meta_command \<Rightarrow> meta_command set"
    and script :: "meta_command set"
  assumes accepted: "inv v \<Longrightarrow> c \<in> script \<Longrightarrow> \<forall>d \<in> deps c. present d v \<Longrightarrow>
      \<exists>v' r. step v (lid, c) = (v', Ok r) \<and> (\<forall>what. accept r what = Ok ()) \<and> inv v' \<and> present c v'"
    and kept: "inv v \<Longrightarrow> c \<in> script \<Longrightarrow> \<forall>d \<in> deps c. present d v \<Longrightarrow> present d v \<Longrightarrow>
      present d (fst (step v (lid, c)))"
    and replayed: "inv v \<Longrightarrow> c \<in> script \<Longrightarrow> \<forall>d \<in> deps c. present d v \<Longrightarrow> present c v \<Longrightarrow>
      step v (lid, c) = (v, Ok MNoOp)"
begin

definition holds :: "meta_command set \<Rightarrow> 'v \<Rightarrow> bool" where
  "holds S v \<longleftrightarrow> inv v \<and> (\<forall>d \<in> S. present d v)"

lemma step_holds:
  assumes "holds S v" "c \<in> script" "deps c \<subseteq> S"
  shows "\<exists>v' r. step v (lid, c) = (v', Ok r) \<and> (\<forall>what. accept r what = Ok ()) \<and> holds (insert c S) v'"
proof -
  have n: "\<forall>d \<in> deps c. present d v" using assms by (auto simp: holds_def)
  obtain v' r where s: "step v (lid, c) = (v', Ok r)" "(\<forall>what. accept r what = Ok ())" "inv v'" "present c v'"
    using accepted [OF _ assms(2) n, of lid] assms(1) by (auto simp: holds_def)
  have "present d v'" if "d \<in> S" for d
    using kept [OF _ assms(2) n, of d lid] assms(1) that s(1) by (auto simp: holds_def)
  with s show ?thesis by (auto simp: holds_def)
qed

lemma holds_mono: "holds S v \<Longrightarrow> T \<subseteq> S \<Longrightarrow> holds T v"
  by (auto simp: holds_def)

lemma seed_resumes:
  assumes "commits step view propose" "set cmds \<subseteq> script"
  shows "holds S (view s) \<Longrightarrow> ordered deps S cmds \<Longrightarrow> drive name propose cmds s = (s', r) \<Longrightarrow>
    holds S (view s') \<and> (r = Ok True \<longrightarrow> holds (S \<union> set cmds) (view s'))
    \<and> (\<forall>e. r = Err e \<longrightarrow> (\<exists>t c. snd (propose t c) = Err e))"
  using assms(2)
proof (induction cmds arbitrary: S s)
  case (Cons c cs)
  note c = assms(1) [unfolded commits_def, rule_format, of s c]
  have sub: "c \<in> script" "deps c \<subseteq> S" "set cs \<subseteq> script" "ordered deps (insert c S) cs"
    using Cons.prems by auto
  have stepped: "holds (insert c S) w \<and> (\<forall>what. accept x what = Ok ())" if "step (view s) (lid, c) = (w, Ok x)" for lid w x
    using step_holds [OF Cons.prems(1) sub(1,2), of lid] that by auto
  show ?case
  proof (cases "propose s c")
    case (Pair t res)
    show ?thesis
    proof (cases res)
      case (Inl e)
      then have "holds S (view t)"
        using c Pair Cons.prems(1) by (auto dest!: stepped intro: holds_mono [OF _ subset_insertI])
      moreover have "snd (propose s c) = Err e" using Pair Inl by simp
      ultimately show ?thesis using Cons.prems(3) Pair Inl by (auto intro!: exI [of _ s] exI [of _ c])
    next
      case (Inr out)
      show ?thesis
      proof (cases out)
        case (ProposeApplied x)
        then obtain lid where "step (view s) (lid, c) = (view t, Ok x)" using c Pair Inr by auto
        then have h: "holds (insert c S) (view t)" and a: "(\<forall>what. accept x what = Ok ())" using stepped by auto
        have "drive name propose cs t = (s', r)"
          using Cons.prems(3) Pair Inr ProposeApplied a by simp
        from Cons.IH [OF h sub(4) this sub(3)] show ?thesis
          by (auto intro: holds_mono [OF _ subset_insertI])
      next
        case (NotLeader l)
        then show ?thesis using c Pair Inr Cons.prems(1,3) by auto
      qed
    qed
  qed
qed auto

lemma replay_quiet:
  assumes "holds S v" "set cmds \<subseteq> S" "set cmds \<subseteq> script" "\<And>c. c \<in> set cmds \<Longrightarrow> deps c \<subseteq> S"
    and "commits step view propose" "\<And>s c. inv (view s) \<Longrightarrow> c \<in> script \<Longrightarrow> \<exists>x. snd (propose s c) = Ok (ProposeApplied x)"
  shows "view s = v \<Longrightarrow> \<exists>s'. drive name propose cmds s = (s', Ok True) \<and> view s' = v"
  using assms(2-4)
proof (induction cmds arbitrary: s)
  case (Cons c cs)
  obtain t x where p: "propose s c = (t, Ok (ProposeApplied x))"
    using assms(6) [of s c] assms(1) Cons.prems by (auto simp: holds_def prod_eq_iff)
  obtain lid where st: "step v (lid, c) = (view t, Ok x)"
    using assms(5) [unfolded commits_def, rule_format, of s c] p Cons.prems(1) by auto
  have "c \<in> S" "c \<in> script" "deps c \<subseteq> S" using Cons.prems by auto
  then have "step v (lid, c) = (v, Ok MNoOp)"
    using assms(1) by (intro replayed) (auto simp: holds_def)
  with st have t: "view t = v" and x: "x = MNoOp" by auto
  obtain s' where "drive name propose cs t = (s', Ok True)" "view s' = v"
    using Cons.IH [OF t] Cons.prems by auto
  then show ?case using p x by (auto simp: accept_def)
qed simp

lemma leader_finishes:
  assumes "commits step view propose" "\<And>s c. inv (view s) \<Longrightarrow> c \<in> script \<Longrightarrow> \<exists>x. snd (propose s c) = Ok (ProposeApplied x)"
    and "set cmds \<subseteq> script"
  shows "holds S (view s) \<Longrightarrow> ordered deps S cmds \<Longrightarrow> \<exists>s'. drive name propose cmds s = (s', Ok True)"
  using assms(3)
proof (induction cmds arbitrary: S s)
  case (Cons c cs)
  obtain t x where p: "propose s c = (t, Ok (ProposeApplied x))"
    using assms(2) [of s c] Cons.prems by (auto simp: holds_def prod_eq_iff)
  obtain lid where st: "step (view s) (lid, c) = (view t, Ok x)"
    using assms(1) [unfolded commits_def, rule_format, of s c] p by auto
  then have "holds (insert c S) (view t)" "(\<forall>what. accept x what = Ok ())"
    using step_holds [OF Cons.prems(1), of c lid] Cons.prems by auto
  then show ?case using Cons.IH [of "insert c S" t] Cons.prems p by simp
qed simp

end


subsection \<open>Interrupted genesis\<close>

definition entry_of :: "dir_entry \<Rightarrow> node_directory_entry" where
  "entry_of d = \<lparr>nd_node_id = de_node_id d, nd_control_addr = de_control_addr d, nd_bulk_addr = de_bulk_addr d,
     nd_state = Active, nd_incarnation = 1\<rparr>"

text \<open>The states an interrupted genesis can leave behind: whatever is there is the descriptor's.\<close>

definition genesis :: "bootstrap_descriptor \<Rightarrow> meta_view \<Rightarrow> bool" where
  "genesis desc v \<longleftrightarrow>
     mv_maintenance v = None \<and> map_option id_cluster_id (mv_identity v) = Some (bd_cluster_id desc)
     \<and> (\<forall>n. mv_retired v n = None)
     \<and> (\<forall>c. mv_cluster v = Some c \<longrightarrow> c = bd_config desc
          \<and> map_option (\<lambda>p. set (pl_voters p)) (mv_placements v Meta) = Some (set (bd_meta_voters desc)))
     \<and> strictly_sorted fst (mv_nodes v)
     \<and> (\<forall>(k, e) \<in> set (mv_nodes v). \<exists>d \<in> set (bd_directory desc). k = meta_node_key (de_node_id d) \<and> e = entry_of d)
     \<and> (\<forall>p pl. mv_placements v (Data p) = Some pl \<longrightarrow> pl_move pl = None
          \<and> (\<exists>vs. (p, vs) \<in> set (bd_data_placements desc) \<and> set (pl_voters pl) = set vs))"

fun present :: "meta_command \<Rightarrow> meta_view \<Rightarrow> bool" where
  "present (ClusterInit config vs) v \<longleftrightarrow> mv_cluster v \<noteq> None"
| "present (RegisterNode n c b) v \<longleftrightarrow> node_of v n \<noteq> None"
| "present (SeedPlacement g vs) v \<longleftrightarrow> mv_placements v g \<noteq> None"
| "present _ v \<longleftrightarrow> False"

abbreviation init_command :: "bootstrap_descriptor \<Rightarrow> meta_command" where
  "init_command desc \<equiv> ClusterInit (bd_config desc) (bd_meta_voters desc)"

abbreviation register_command :: "dir_entry \<Rightarrow> meta_command" where
  "register_command d \<equiv> RegisterNode (de_node_id d) (de_control_addr d) (de_bulk_addr d)"

fun prerequisites :: "bootstrap_descriptor \<Rightarrow> meta_command \<Rightarrow> meta_command set" where
  "prerequisites desc (RegisterNode n c b) = {init_command desc}"
| "prerequisites desc (SeedPlacement g vs) = insert (init_command desc) (register_command ` set (bd_directory desc))"
| "prerequisites desc _ = {}"

text \<open>What one genesis command does to a partial genesis.\<close>

definition advanced :: "bootstrap_descriptor \<Rightarrow> meta_command \<Rightarrow> meta_view \<Rightarrow> meta_view \<times> meta_apply_result result \<Rightarrow> bool" where
  "advanced desc cmd v out \<longleftrightarrow> (\<exists>v' r. out = (v', Ok r) \<and> (\<forall>what. accept r what = Ok ()) \<and> genesis desc v' \<and> present cmd v'
     \<and> (\<forall>d. present d v \<longrightarrow> present d v') \<and> (present cmd v \<longrightarrow> v' = v \<and> r = MNoOp))"

lemma step_of:
  "mv_maintenance v = None \<Longrightarrow> meta_step E v (lid, cmd) =
     (case dispatch E (view_reads v) cmd lid of Inr (r, ws) \<Rightarrow> (view_writes ws v, Ok r) | Inl e \<Rightarrow> (v, Err e))"
  by (simp add: meta_step_def meta_evaluate_def view_reads_def)

lemma advancedI:
  assumes "genesis desc v'" "present cmd v'" "\<not> present cmd v"
    and "mv_cluster v \<noteq> None \<Longrightarrow> mv_cluster v' \<noteq> None" "\<And>n. node_of v n \<noteq> None \<Longrightarrow> node_of v' n \<noteq> None"
    and "\<And>g. mv_placements v g \<noteq> None \<Longrightarrow> mv_placements v' g \<noteq> None"
  shows "advanced desc cmd v (v', Ok MApplied)"
proof -
  have "present d v'" if "present d v" for d
    using that assms(4-6) by (cases d) (simp_all del: not_None_eq)
  with assms(1-3) show ?thesis by (simp add: advanced_def accept_def)
qed

lemma init_advances:
  assumes ok: "descriptor_ok desc" and g: "genesis desc v"
  shows "advanced desc (init_command desc) v (meta_step E v (lid, init_command desc))"
proof (cases "mv_cluster v")
  case None
  let ?pl = "\<lparr>pl_voters = sorted_list_of_set (set (bd_meta_voters desc)), pl_voters_log_id = lid, pl_move = None\<rparr>"
  let ?v' = "v\<lparr>mv_cluster := Some (bd_config desc), mv_placements := (mv_placements v)(Meta \<mapsto> ?pl)\<rparr>"
  obtain i where "mv_identity v = Some i" "id_cluster_id i = bd_cluster_id desc"
    using g by (auto simp: genesis_def)
  then have "cluster_init (view_reads v) (bd_config desc) (bd_meta_voters desc) lid
      = applied [PutCluster (bd_config desc), PutPlacement Meta ?pl]"
    using ok None by (simp add: cluster_init_def view_reads_def descriptor_ok_def cluster_ok_def distinct_card Let_def
        MIN_META_VOTERS_def MAX_CLUSTER_NODES_def MIN_REPLICATION_def word_less_nat_alt odd_iff_mod_2_eq_one voter_set_def)
  then have "meta_step E v (lid, init_command desc) = (?v', Ok MApplied)"
    using g by (simp add: step_of genesis_def view_writes_def)
  moreover have "genesis desc ?v'" using g by (simp add: genesis_def)
  ultimately show ?thesis using None by (auto intro!: advancedI)
next
  case (Some c)
  then have "cluster_init (view_reads v) (bd_config desc) (bd_meta_voters desc) lid = no_op"
    using g by (auto simp: cluster_init_def view_reads_def genesis_def voter_set_def)
  then have "meta_step E v (lid, init_command desc) = (v, Ok MNoOp)"
    using g by (simp add: step_of genesis_def view_writes_def)
  then show ?thesis using g Some by (auto simp: advanced_def accept_def)
qed


lemma genesis_node:
  assumes g: "genesis desc v" and ok: "descriptor_ok desc" and d: "d \<in> set (bd_directory desc)" and n: "node_of v (de_node_id d) = Some e"
  shows "e = entry_of d"
proof -
  have "(meta_node_key (de_node_id d), e) \<in> set (mv_nodes v)" using n by (rule map_of_SomeD)
  then obtain d' where d': "d' \<in> set (bd_directory desc)" "de_node_id d = de_node_id d'" "e = entry_of d'"
    using g by (auto simp: genesis_def)
  then have "d = d'" using ok d by (auto simp: descriptor_ok_def distinct_map dest: inj_onD)
  with d' show ?thesis by simp
qed

lemma own_addresses: "distinct (addresses ds) \<Longrightarrow> d \<in> set ds \<Longrightarrow> de_control_addr d \<noteq> de_bulk_addr d"
  by (induction ds) auto

lemma other_addresses:
  assumes "distinct (addresses ds)" "d \<in> set ds" "d' \<in> set ds" "d' \<noteq> d"
  shows "{de_control_addr d, de_bulk_addr d} \<inter> {de_control_addr d', de_bulk_addr d'} = {}"
  using assms by (induction ds) auto

lemma genesis_room:
  assumes ok: "descriptor_ok desc" and g: "genesis desc v" and d: "d \<in> set (bd_directory desc)"
    and n: "node_of v (de_node_id d) = None"
  shows "length (mv_nodes v) < 8"
proof -
  let ?ids = "de_node_id ` set (bd_directory desc)"
  have "distinct (map fst (mv_nodes v))" using g by (simp add: genesis_def strictly_sorted_distinct)
  then have "length (mv_nodes v) = card (fst ` set (mv_nodes v))" by (metis distinct_card length_map set_map)
  also have "\<dots> \<le> card (meta_node_key ` (?ids - {de_node_id d}))"
  proof (rule card_mono)
    show "fst ` set (mv_nodes v) \<subseteq> meta_node_key ` (?ids - {de_node_id d})"
    proof clarify
      fix k e assume ke: "(k, e) \<in> set (mv_nodes v)"
      then obtain d' where d': "d' \<in> set (bd_directory desc)" "k = meta_node_key (de_node_id d')"
        using g by (auto simp: genesis_def)
      have "de_node_id d' \<noteq> de_node_id d" using n ke d'(2) by (auto simp: map_of_eq_None_iff rev_image_eqI)
      then show "fst (k, e) \<in> meta_node_key ` (?ids - {de_node_id d})" using d' by auto
    qed
  qed simp
  also have "\<dots> \<le> card (?ids - {de_node_id d})" by (rule card_image_le) simp
  also have "\<dots> < card ?ids" using d by (intro psubset_card_mono) auto
  also have "\<dots> \<le> 8" using ok card_length [of "map de_node_id (bd_directory desc)"] by (simp add: descriptor_ok_def)
  finally show ?thesis .
qed

lemma register_advances:
  assumes ok: "descriptor_ok desc" and g: "genesis desc v" and d: "d \<in> set (bd_directory desc)"
    and c: "mv_cluster v \<noteq> None"
  shows "advanced desc (register_command d) v (meta_step E v (lid, register_command d))"
proof -
  have guards: "de_node_id d \<noteq> 0" "de_control_addr d \<noteq> []" "de_bulk_addr d \<noteq> []" "de_control_addr d \<noteq> de_bulk_addr d"
    "length (de_control_addr d) \<le> MAX_ENDPOINT_BYTES" "length (de_bulk_addr d) \<le> MAX_ENDPOINT_BYTES"
    using ok d own_addresses [OF _ d] by (auto simp: descriptor_ok_def)
  have free: "\<not> list_ex (\<lambda>other. nd_node_id other \<noteq> de_node_id d
       \<and> (nd_control_addr other = de_control_addr d \<or> nd_bulk_addr other = de_control_addr d
          \<or> nd_control_addr other = de_bulk_addr d \<or> nd_bulk_addr other = de_bulk_addr d)) (map snd (mv_nodes v))"
  proof -
    have "\<exists>d' \<in> set (bd_directory desc). e = entry_of d'" if "e \<in> snd ` set (mv_nodes v)" for e
      using g that by (force simp: genesis_def)
    moreover have "distinct (addresses (bd_directory desc))" using ok by (simp add: descriptor_ok_def)
    ultimately show ?thesis using other_addresses [OF _ d] by (fastforce simp: list_ex_iff entry_of_def)
  qed
  show ?thesis
  proof (cases "node_of v (de_node_id d)")
    case None
    let ?v' = "v\<lparr>mv_nodes := tput (meta_node_key (de_node_id d)) (entry_of d) (mv_nodes v)\<rparr>"
    have s: "strictly_sorted fst (mv_nodes v)" using g by (simp add: genesis_def)
    have "register_node (view_reads v) (de_node_id d) (de_control_addr d) (de_bulk_addr d)
        = applied [PutNode (de_node_id d) (entry_of d)]"
      using guards free c g None genesis_room [OF ok g d None]
      by (auto simp: register_node_def view_reads_def genesis_def MAX_CLUSTER_NODES_def Let_def entry_of_def)
    then have "meta_step E v (lid, register_command d) = (?v', Ok MApplied)"
      using g by (simp add: step_of genesis_def view_writes_def)
    moreover have "genesis desc ?v'"
      using g d by (auto simp: genesis_def strictly_sorted_upsert set_upsert_by_key)
    ultimately show ?thesis using None by (auto intro!: advancedI simp: map_of_upsert [OF s])
  next
    case (Some e)
    then have "e = entry_of d" using genesis_node [OF g ok d] by simp
    moreover have "list_ex (\<lambda>e. nd_node_id e = de_node_id d) (map snd (mv_nodes v))"
      using map_of_SomeD [OF Some] \<open>e = entry_of d\<close> by (force simp: list_ex_iff entry_of_def)
    ultimately have "register_node (view_reads v) (de_node_id d) (de_control_addr d) (de_bulk_addr d) = no_op"
      using guards free c g Some by (auto simp: register_node_def view_reads_def genesis_def Let_def entry_of_def)
    then have "meta_step E v (lid, register_command d) = (v, Ok MNoOp)"
      using g by (simp add: step_of genesis_def view_writes_def)
    then show ?thesis using g Some by (auto simp: advanced_def accept_def)
  qed
qed

lemma genesis_placed:
  "genesis desc v \<Longrightarrow> mv_placements v (Data p) = Some pl \<Longrightarrow>
   pl_move pl = None \<and> (\<exists>vs. (p, vs) \<in> set (bd_data_placements desc) \<and> set (pl_voters pl) = set vs)"
  unfolding genesis_def by blast

lemma seed_advances:
  assumes ok: "descriptor_ok desc" and g: "genesis desc v" and p: "(p, vs) \<in> set (bd_data_placements desc)"
    and c: "mv_cluster v \<noteq> None" and reg: "\<And>d. d \<in> set (bd_directory desc) \<Longrightarrow> node_of v (de_node_id d) \<noteq> None"
  shows "advanced desc (SeedPlacement (Data p) vs) v (meta_step E v (lid, SeedPlacement (Data p) vs))"
proof -
  have cl: "mv_cluster v = Some (bd_config desc)" using g c by (auto simp: genesis_def)
  have guards: "p < cc_p (bd_config desc)" "distinct vs" "length vs = unat (cc_r (bd_config desc))"
    "set vs \<subseteq> de_node_id ` set (bd_directory desc)" using ok p by (auto simp: descriptor_ok_def)
  have "active_node v n" if n: "n \<in> set vs" for n
  proof -
    obtain d where d: "d \<in> set (bd_directory desc)" "n = de_node_id d" using guards(4) n by auto
    then show ?thesis using reg [OF d(1)] genesis_node [OF g ok d(1)] by (auto simp: active_node_def entry_of_def)
  qed
  then have act: "all_active (view_reads v) vs = Ok True" by (simp add: all_active_view)
  show ?thesis
  proof (cases "mv_placements v (Data p)")
    case None
    let ?pl = "\<lparr>pl_voters = sorted_list_of_set (voter_set vs), pl_voters_log_id = lid, pl_move = None\<rparr>"
    let ?v' = "v\<lparr>mv_placements := (mv_placements v)(Data p \<mapsto> ?pl)\<rparr>"
    have "seed_placement (view_reads v) (Data p) vs lid = applied [PutPlacement (Data p) ?pl]"
      using guards act cl None by (simp add: seed_placement_def view_reads_def voter_set_def distinct_card Let_def not_le)
    then have "meta_step E v (lid, SeedPlacement (Data p) vs) = (?v', Ok MApplied)"
      using g by (simp add: step_of genesis_def view_writes_def)
    moreover have "genesis desc ?v'" using g p by (auto simp: genesis_def voter_set_def)
    ultimately show ?thesis using None by (auto intro!: advancedI)
  next
    case (Some pl)
    then obtain ws where ws: "(p, ws) \<in> set (bd_data_placements desc)" "set (pl_voters pl) = set ws" "pl_move pl = None"
      using genesis_placed [OF g] by blast
    then have "ws = vs" using ok p by (auto simp: descriptor_ok_def dest: eq_key_imp_eq_value)
    then have "seed_placement (view_reads v) (Data p) vs lid = no_op"
      using guards act cl Some ws by (simp add: seed_placement_def view_reads_def voter_set_def distinct_card Let_def not_le)
    then have "meta_step E v (lid, SeedPlacement (Data p) vs) = (v, Ok MNoOp)"
      using g by (simp add: step_of genesis_def view_writes_def)
    then show ?thesis using g Some by (auto simp: advanced_def accept_def)
  qed
qed

lemma command_advances:
  assumes "descriptor_ok desc" "genesis desc v" "c \<in> set (genesis_commands desc)"
    and pre: "\<forall>d \<in> prerequisites desc c. present d v"
  shows "advanced desc c v (meta_step E v (lid, c))"
  using assms(3) pre init_advances [OF assms(1,2)] register_advances [OF assms(1,2)] seed_advances [OF assms(1,2)]
  by (auto simp: genesis_commands_def)

definition resuming :: "bootstrap_descriptor \<Rightarrow> meta_view \<Rightarrow> bool" where
  "resuming desc v \<longleftrightarrow> descriptor_ok desc \<and> genesis desc v"

interpretation genesis: resumable "meta_step E" "resuming desc" present "prerequisites desc"
  "set (genesis_commands desc)" for E desc
proof unfold_locales
  fix v c d lid
  assume v: "resuming desc v" and c: "c \<in> set (genesis_commands desc)"
    and pre: "\<forall>d \<in> prerequisites desc c. present d v"
  then have a: "advanced desc c v (meta_step E v (lid, c))" unfolding resuming_def using command_advances by blast
  then show "\<exists>v' r. meta_step E v (lid, c) = (v', Ok r) \<and> (\<forall>what. accept r what = Ok ()) \<and> resuming desc v' \<and> present c v'"
    using v a by (auto simp: advanced_def resuming_def)
  show "present d v \<Longrightarrow> present d (fst (meta_step E v (lid, c)))" using a by (auto simp: advanced_def)
  show "present c v \<Longrightarrow> meta_step E v (lid, c) = (v, Ok MNoOp)" using a by (auto simp: advanced_def)
qed

lemma genesis_ordered: "ordered (prerequisites desc) {} (genesis_commands desc)"
proof -
  have "ordered (prerequisites desc) {init_command desc} (map register_command (bd_directory desc))"
    by (rule ordered_all) auto
  moreover have "ordered (prerequisites desc) ({init_command desc} \<union> register_command ` set (bd_directory desc))
      (map (\<lambda>(p, voters). SeedPlacement (Data p) voters) (bd_data_placements desc))"
    by (rule ordered_all) auto
  ultimately show ?thesis by (simp add: genesis_commands_def ordered_append)
qed


subsection \<open>Seeding\<close>

definition seeded :: "bootstrap_descriptor \<Rightarrow> meta_view \<Rightarrow> bool" where
  "seeded desc v \<longleftrightarrow> mv_cluster v = Some (bd_config desc)
     \<and> (\<forall>d \<in> set (bd_directory desc). node_of v (de_node_id d) = Some (entry_of d))
     \<and> (\<forall>(p, vs) \<in> set (bd_data_placements desc). \<exists>pl. mv_placements v (Data p) = Some pl
          \<and> pl_move pl = None \<and> set (pl_voters pl) = set vs)"

lemma genesis_initial: "id_cluster_id i = bd_cluster_id desc \<Longrightarrow> genesis desc (initial_view i)"
  by (simp add: genesis_def initial_view_def strictly_sorted_def)

lemma present_seeded:
  assumes ok: "descriptor_ok desc" and g: "genesis desc v" and all: "\<forall>c \<in> set (genesis_commands desc). present c v"
  shows "seeded desc v"
proof -
  have "mv_cluster v = Some (bd_config desc)" using g all by (auto simp: genesis_commands_def genesis_def)
  moreover have "node_of v (de_node_id d) = Some (entry_of d)" if d: "d \<in> set (bd_directory desc)" for d
  proof -
    have "register_command d \<in> set (genesis_commands desc)" using d by (simp add: genesis_commands_def)
    with all have "present (register_command d) v" by blast
    then show ?thesis using genesis_node [OF g ok d] by auto
  qed
  moreover have "\<exists>pl. mv_placements v (Data p) = Some pl \<and> pl_move pl = None \<and> set (pl_voters pl) = set vs"
    if p: "(p, vs) \<in> set (bd_data_placements desc)" for p vs
  proof -
    have "SeedPlacement (Data p) vs \<in> set (genesis_commands desc)" using p by (force simp: genesis_commands_def)
    with all have "present (SeedPlacement (Data p) vs) v" by blast
    then obtain pl where pl: "mv_placements v (Data p) = Some pl" by auto
    then obtain ws where "pl_move pl = None" "(p, ws) \<in> set (bd_data_placements desc)" "set (pl_voters pl) = set ws"
      using genesis_placed [OF g] by blast
    moreover from this(2) p ok have "ws = vs" by (auto simp: descriptor_ok_def dest: eq_key_imp_eq_value)
    ultimately show ?thesis using pl by auto
  qed
  ultimately show ?thesis by (auto simp: seeded_def)
qed

text \<open>C24: Genesis is resumable.  From the state any interrupted attempt can leave (a fresh group included), an
  attempt driven by the descriptor of an accepted init file leaves such a state again, whichever proposals
  commit, are refused for lack of leadership or fail undecided; it reports success only when the cluster
  record, every node and every placement are in place; and it never fails because the meta group
  rejected a command: an error is an error of a proposal.\<close>

theorem genesis_is_resumable:
  assumes "load_init_descriptor file = Ok desc" "genesis desc (view s)" "commits (meta_step E) view propose"
    and "seed_cluster_if_leader propose desc s = (s', r)"
  shows "genesis desc (view s') \<and> (r = Ok True \<longrightarrow> seeded desc (view s'))
    \<and> (\<forall>e. r = Err e \<longrightarrow> (\<exists>t c. snd (propose t c) = Err e))"
proof -
  have ok: "descriptor_ok desc" by (rule loaded_descriptor_ok [OF assms(1)])
  then have "genesis.holds desc {} (view s)" using assms(2) by (simp add: genesis.holds_def resuming_def)
  from genesis.seed_resumes [OF assms(3) order_refl this genesis_ordered]
  show ?thesis using assms(4) present_seeded [OF ok] by (auto simp: seed_cluster_if_leader_def seed_if_leader_drive genesis.holds_def resuming_def)
qed

text \<open>C25: Genesis completes and is idempotent.  When a leader commits every proposal, one attempt from any
  interrupted state seeds the whole cluster; a second attempt then succeeds without changing anything.\<close>

theorem genesis_completes:
  assumes "load_init_descriptor file = Ok desc" "genesis desc (view s)" "commits (meta_step E) view propose"
    and "\<And>s c. genesis desc (view s) \<Longrightarrow> c \<in> set (genesis_commands desc) \<Longrightarrow> \<exists>x. snd (propose s c) = Ok (ProposeApplied x)"
  shows "\<exists>s' s''. seed_cluster_if_leader propose desc s = (s', Ok True) \<and> seeded desc (view s')
    \<and> seed_cluster_if_leader propose desc s' = (s'', Ok True) \<and> view s'' = view s'"
proof -
  have ok: "descriptor_ok desc" by (rule loaded_descriptor_ok [OF assms(1)])
  have leads: "\<exists>x. snd (propose s c) = Ok (ProposeApplied x)" if "resuming desc (view s)" "c \<in> set (genesis_commands desc)" for s c
    using assms(4) that by (simp add: resuming_def)
  from ok have h: "genesis.holds desc {} (view s)" using assms(2) by (simp add: genesis.holds_def resuming_def)
  obtain s' where s': "seed_cluster_if_leader propose desc s = (s', Ok True)"
    using genesis.leader_finishes [OF assms(3) leads order_refl h genesis_ordered] by (auto simp: seed_cluster_if_leader_def seed_if_leader_drive)
  then have h': "genesis.holds desc (set (genesis_commands desc)) (view s')"
    using genesis.seed_resumes [OF assms(3) order_refl h genesis_ordered] by (auto simp: seed_cluster_if_leader_def seed_if_leader_drive)
  have "prerequisites desc c \<subseteq> set (genesis_commands desc)" if "c \<in> set (genesis_commands desc)" for c
    using that by (auto simp: genesis_commands_def)
  from genesis.replay_quiet [OF h' order_refl order_refl this assms(3) leads refl]
  obtain s'' where "seed_cluster_if_leader propose desc s' = (s'', Ok True)" "view s'' = view s'"
    by (auto simp: seed_cluster_if_leader_def seed_if_leader_drive)
  then show ?thesis using s' h' present_seeded [OF ok] by (auto simp: genesis.holds_def resuming_def)
qed

text \<open>\<open>seed_cluster\<close> is the same driver over proposals that look for a leader.\<close>

abbreviation as_outcome :: "'s \<times> meta_apply_result result \<Rightarrow> 's \<times> propose_outcome result" where
  "as_outcome x \<equiv> (fst x, map_sum id ProposeApplied (snd x))"

lemma seed_commands_eq:
  "seed_commands propose cmds s =
     (fst (drive step_name (\<lambda>s c. as_outcome (propose s c)) cmds s),
      map_sum id (\<lambda>_. ()) (snd (drive step_name (\<lambda>s c. as_outcome (propose s c)) cmds s)))"
proof (induction cmds arbitrary: s)
  case (Cons c cs)
  obtain t r where p: "propose s c = (t, r)" by force
  show ?case
  proof (cases r)
    case (Inr x)
    then show ?thesis using Cons.IH [of t] p by (cases "accept x (step_name c)") simp_all
  qed (simp add: p)
qed simp

lemma propose_rounds_commits:
  assumes "\<And>n. commits step view (propose n)" "\<And>s. view (pause s) = view s"
  shows "commits step view (\<lambda>s c. as_outcome (propose_rounds leads propose pause nodes k s c))"
proof (induction k)
  case (Suc k)
  show ?case
    unfolding commits_def
  proof (intro allI)
    fix s cmd
    note later = Suc [unfolded commits_def, rule_format, of "pause t" cmd for t]
    show "case as_outcome (propose_rounds leads propose pause nodes (Suc k) s cmd) of
         (s', Inr (ProposeApplied r)) \<Rightarrow> \<exists>lid. step (view s) (lid, cmd) = (view s', Ok r)
       | (s', Inr (NotLeader _)) \<Rightarrow> view s' = view s
       | (s', Inl _) \<Rightarrow> view s' = view s \<or> (\<exists>lid r. step (view s) (lid, cmd) = (view s', Ok r))"
    proof (cases "find (leads s) nodes")
      case None
      then show ?thesis using later [of s] by (simp add: assms(2))
    next
      case (Some n)
      obtain t r where p: "propose n s cmd = (t, r)" by force
      note now = assms(1) [of n, unfolded commits_def, rule_format, of s cmd, unfolded p prod.case]
      show ?thesis
      proof (cases r)
        case (Inr out)
        then show ?thesis using Some p now later [of t] by (cases out) (simp_all add: assms(2))
      qed (use Some p now in simp)
    qed
  qed
qed (simp add: commits_def)

lemma propose_rounds_error:
  "snd (propose_rounds leads propose pause nodes k s c) = Err e \<Longrightarrow>
   e = Raft ''no meta leader accepted a bootstrap command'' \<or> (\<exists>n t. snd (propose n t c) = Err e)"
proof (induction k arbitrary: s)
  case (Suc k)
  show ?case
  proof (cases "find (leads s) nodes")
    case (Some n)
    obtain t r where p: "propose n s c = (t, r)" by force
    show ?thesis
    proof (cases r)
      case (Inl e')
      with Suc.prems Some p have "snd (propose n s c) = Err e" by simp
      then show ?thesis by blast
    next
      case (Inr out)
      then show ?thesis using Suc Some p by (cases out) simp_all
    qed
  qed (use Suc in simp)
qed simp

lemma seed_never_defers:
  assumes "\<And>s c l. snd (propose s c) \<noteq> Ok (NotLeader l)"
  shows "snd (drive name propose cmds s) \<noteq> Ok False"
proof (induction cmds arbitrary: s)
  case (Cons c cs)
  obtain t r where p: "propose s c = (t, r)" by force
  show ?case
  proof (cases r)
    case (Inr out)
    then obtain x where "out = ProposeApplied x" using assms [of s c] p by (cases out) auto
    then show ?thesis using Cons.IH [of t] Inr p by (cases "accept x (name c)") simp_all
  qed (simp add: p)
qed simp

text \<open>C26: The in-process driver \<open>seed_cluster\<close> is resumable as well, through whichever node leads when.  From
  any state an interrupted genesis leaves, it leaves such a state again; it succeeds only when the
  whole cluster is seeded; and it fails only with the error of a proposal, or because no leader
  accepted a command within its bounded number of rounds.\<close>

theorem seed_cluster_is_resumable:
  assumes "load_init_descriptor file = Ok desc" "genesis desc (view s)"
    and "\<And>n. commits (meta_step E) view (propose n)" "\<And>s. view (pause s) = view s"
    and "seed_cluster leads propose pause nodes desc s = (s', r)"
  shows "genesis desc (view s') \<and> (r = Ok () \<longrightarrow> seeded desc (view s'))
    \<and> (\<forall>e. r = Err e \<longrightarrow> e = Raft ''no meta leader accepted a bootstrap command'' \<or> (\<exists>n t c. snd (propose n t c) = Err e))"
proof -
  let ?propose = "\<lambda>s c. as_outcome (propose_to_leader leads propose pause nodes s c)"
  have ok: "descriptor_ok desc" by (rule loaded_descriptor_ok [OF assms(1)])
  have h: "genesis.holds desc {} (view s)" using ok assms(2) by (simp add: genesis.holds_def resuming_def)
  have c: "commits (meta_step E) view ?propose"
    unfolding propose_to_leader_def by (rule propose_rounds_commits [OF assms(3,4)])
  obtain b where run: "drive step_name ?propose (genesis_commands desc) s = (s', b)" and r: "r = map_sum id (\<lambda>_. ()) b"
    using assms(5) by (auto simp: seed_cluster_def seed_commands_eq prod_eq_iff)
  note res = genesis.seed_resumes [OF c order_refl h genesis_ordered run]
  have "snd (?propose t c) \<noteq> Ok (NotLeader l)" for t c l
    by (cases "snd (propose_to_leader leads propose pause nodes t c)") simp_all
  then have "b \<noteq> Ok False" using seed_never_defers [of ?propose step_name "genesis_commands desc" s] by (simp add: run)
  then have finished: "r = Ok () \<longrightarrow> b = Ok True" using r by (cases b) auto
  have "e = Raft ''no meta leader accepted a bootstrap command'' \<or> (\<exists>n t c. snd (propose n t c) = Err e)" if e: "r = Err e" for e
  proof -
    have "b = Err e" using e r by (cases b) simp_all
    then obtain t c where "snd (?propose t c) = Err e" using res by blast
    then have "snd (propose_to_leader leads propose pause nodes t c) = Err e"
      by (cases "snd (propose_to_leader leads propose pause nodes t c)") simp_all
    then show ?thesis using propose_rounds_error unfolding propose_to_leader_def by metis
  qed
  then show ?thesis
    using res finished present_seeded [OF ok] by (auto simp: genesis.holds_def resuming_def)
qed

subsection \<open>A concrete genesis\<close>

text \<open>A single-node Raft group that commits whatever is proposed.\<close>

definition demo_raft :: "meta_view \<Rightarrow> meta_command \<Rightarrow> meta_view \<times> propose_outcome result" where
  "demo_raft v cmd = (case meta_step demo_env v (LogId 1 1, cmd) of
     (v', Inr r) \<Rightarrow> (v', Ok (ProposeApplied r)) | (v', Inl e) \<Rightarrow> (v', Err e))"

lemma demo_commits: "commits (meta_step demo_env) (\<lambda>v. v) demo_raft"
  unfolding commits_def
proof (intro allI)
  fix v cmd
  show "case demo_raft v cmd of
       (s', Inr (ProposeApplied r)) \<Rightarrow> \<exists>lid. meta_step demo_env v (lid, cmd) = (s', Ok r)
     | (s', Inr (NotLeader _)) \<Rightarrow> s' = v
     | (s', Inl _) \<Rightarrow> s' = v \<or> (\<exists>lid r. meta_step demo_env v (lid, cmd) = (s', Ok r))"
    by (cases "meta_evaluate demo_env (view_reads v) cmd (LogId 1 1)")
      (auto simp: demo_raft_def meta_step_def intro!: exI [of _ "LogId 1 1"])
qed

lemma genesis_answers:
  assumes "c \<in> set (genesis_commands desc)"
  shows "\<exists>x. dispatch E (view_reads v) c lid = Ok x"
proof -
  have "\<exists>x. cluster_init (view_reads v) config vs lid = Ok x" for config vs
    by (auto simp: cluster_init_def Let_def split: option.split sum.split)
  moreover have "\<exists>x. register_node (view_reads v) n ca ba = Ok x" for n ca ba
    by (auto simp: register_node_def Let_def split: option.split)
  moreover have "\<exists>x. seed_placement (view_reads v) g vs lid = Ok x" for g vs
    by (auto simp: seed_placement_def all_active_view Let_def split: option.split group_id.split)
  ultimately show ?thesis using assms by (auto simp: genesis_commands_def)
qed

lemma demo_leads:
  assumes "genesis desc v" "c \<in> set (genesis_commands desc)"
  shows "\<exists>x. snd (demo_raft v c) = Ok (ProposeApplied x)"
proof -
  obtain r ws where "dispatch demo_env (view_reads v) c (LogId 1 1) = Ok (r, ws)"
    using genesis_answers [OF assms(2)] by (metis prod.exhaust)
  then show ?thesis using assms(1) by (simp add: demo_raft_def step_of genesis_def)
qed


lemma demo_fresh: "genesis demo_descriptor (initial_view \<lparr>id_cluster_id = 7, id_node_id = 1\<rparr>)"
  by (rule genesis_initial) (simp add: demo_descriptor_def)

text \<open>One attempt of that group from its fresh state.\<close>

theorem genesis_is_resumable_witness:
  "\<exists>v' r. seed_cluster_if_leader demo_raft demo_descriptor (initial_view \<lparr>id_cluster_id = 7, id_node_id = 1\<rparr>) = (v', r)
     \<and> genesis demo_descriptor v'"
proof -
  obtain v' r where run: "seed_cluster_if_leader demo_raft demo_descriptor (initial_view \<lparr>id_cluster_id = 7, id_node_id = 1\<rparr>) = (v', r)"
    by force
  from genesis_is_resumable [OF demo_file_loads demo_fresh demo_commits run] run show ?thesis by blast
qed

theorem genesis_completes_witness:
  "\<exists>v' v''. seed_cluster_if_leader demo_raft demo_descriptor (initial_view \<lparr>id_cluster_id = 7, id_node_id = 1\<rparr>) = (v', Ok True)
     \<and> mv_cluster v' = Some (bd_config demo_descriptor)
     \<and> seed_cluster_if_leader demo_raft demo_descriptor v' = (v'', Ok True) \<and> v'' = v'"
  using genesis_completes [OF demo_file_loads demo_fresh demo_commits demo_leads [of demo_descriptor]] by (auto simp: seeded_def)

theorem seed_cluster_is_resumable_witness:
  "\<exists>v' r. seed_cluster (\<lambda>_ n. n = (1 :: node_id)) (\<lambda>_. demo_raft) (\<lambda>v. v) [2, 1] demo_descriptor
       (initial_view \<lparr>id_cluster_id = 7, id_node_id = 1\<rparr>) = (v', r)
     \<and> genesis demo_descriptor v'"
proof -
  obtain v' r where run: "seed_cluster (\<lambda>_ n. n = (1 :: node_id)) (\<lambda>_. demo_raft) (\<lambda>v. v) [2, 1] demo_descriptor
       (initial_view \<lparr>id_cluster_id = 7, id_node_id = 1\<rparr>) = (v', r)" by force
  from seed_cluster_is_resumable [OF demo_file_loads demo_fresh demo_commits refl run] run show ?thesis by blast
qed


end
