(* ===== verification/Formats.thy ===== *)
theory Formats
  imports Data_Runs Config
begin

section \<open>Formats, bounds and the write batch\<close>

text \<open>
  The properties of the storage layer on their own: the key layouts of \<open>keyspace.rs\<close> do not
  collide, the outbox rows of \<open>search/outbox.rs\<close> read back and sort in log order, the
  digest of a topology names the topology, hashing and the routing bound of \<open>types.rs\<close> and
  \<open>config.rs\<close> stay in range, shard statistics merge independently of the order of the replies,
  and the batch of \<open>storage/batch.rs\<close> is written as a whole or not at all.
\<close>

text \<open>C34: No two records of a state column family share a key, whatever the client keys, names
  and ids in them, as long as an embedded index name fits its 32-bit length prefix.  A scan of
  the directory, catalog or readiness prefix returns exactly the records of that kind.\<close>

theorem state_keys_never_collide:
  assumes "short_name k" "short_name l" "length name < 2 ^ 32"
  shows "(state_key_bytes k = state_key_bytes l \<longleftrightarrow> k = l)
    \<and> (starts_with (state_key_bytes k) meta_node_prefix \<longleftrightarrow> (\<exists>n. k = SK_node n))
    \<and> (starts_with (state_key_bytes k) meta_search_index_prefix \<longleftrightarrow> (\<exists>s. k = SK_search s))
    \<and> (starts_with (state_key_bytes k) (meta_search_ready_prefix name gen) \<longleftrightarrow>
        (\<exists>g n. k = SK_ready name gen g n))"
  using assms
  by (simp_all add: state_key_bytes_inj node_prefix_selects search_index_prefix_selects
      search_ready_prefix_selects)

theorem state_keys_never_collide_witness:
  "state_key_bytes (SK_user [0]) \<noteq> state_key_bytes (SK_seq 0)
   \<and> starts_with (state_key_bytes (SK_ready ''a'' 2 (Data 1) 4)) (meta_search_ready_prefix ''a'' 2)
   \<and> \<not> starts_with (state_key_bytes (SK_ready ''ab'' 2 (Data 1) 4)) (meta_search_ready_prefix ''a'' 2)"
  using state_keys_never_collide [of "SK_user [0]" "SK_seq 0" "''a''"]
    state_keys_never_collide [of "SK_ready ''a'' 2 (Data 1) 4" "SK_seq 0" "''a''" 2]
    state_keys_never_collide [of "SK_ready ''ab'' 2 (Data 1) 4" "SK_seq 0" "''a''" 2]
  by simp



text \<open>C36: An outbox row is written for every user key shorter than 4 GiB, reads back as the epoch,
  log position and key it was written with, and rows of a group sort by epoch and then by log
  index, so a scan visits them in the order the log applied them.\<close>

theorem outbox_rows_roundtrip:
  assumes "length ukey < 2 ^ 32"
  shows "\<exists>k. encode_outbox_key g epoch lid ukey = Ok k
    \<and> decode_outbox_key g k = Ok \<lparr>oe_epoch = epoch, oe_source_log_id = lid, oe_user_key = ukey\<rparr>
    \<and> (\<forall>l e. decode_outbox_key g l = Ok e \<and> k < l \<longrightarrow> epoch < oe_epoch e
        \<or> epoch = oe_epoch e \<and> rl_index lid \<le> rl_index (oe_source_log_id e))"
proof -
  from assms obtain k where k: "encode_outbox_key g epoch lid ukey = Ok k"
    by (simp add: encode_outbox_key_def)
  note row = decode_encode_outbox_key [OF k]
  have "epoch < oe_epoch e \<or> epoch = oe_epoch e \<and> rl_index lid \<le> rl_index (oe_source_log_id e)"
    if "decode_outbox_key g l = Ok e" "k < l" for l e
    using outbox_key_order [OF row that] by simp
  with k row show ?thesis by blast
qed

theorem outbox_rows_roundtrip_witness:
  "\<exists>k. encode_outbox_key (Data 1) 2 (RaftLogId 1 1 9) [7] = Ok k
    \<and> decode_outbox_key (Data 1) k = Ok \<lparr>oe_epoch = 2, oe_source_log_id = RaftLogId 1 1 9, oe_user_key = [7]\<rparr>"
  using outbox_rows_roundtrip [of "[7]" "Data 1" 2 "RaftLogId 1 1 9"] by auto

text \<open>C37: Two snapshots of the group table have the same digest pre-image exactly when they name
  the same groups with the same voter sets.  The order of the table and of the voter lists, and
  repeated voters, make no difference.\<close>

theorem topology_digest_faithful:
  assumes "distinct (map fst xs)" "distinct (map fst ys)"
    and "length xs < 2 ^ 32" "length ys < 2 ^ 32"
    and "\<forall>a \<in> set xs \<union> set ys. card (set (snd a)) < 65536"
  shows "maintenance_topology_bytes xs = maintenance_topology_bytes ys \<longleftrightarrow>
    (\<lambda>(g, vs). (g, set vs)) ` set xs = (\<lambda>(g, vs). (g, set vs)) ` set ys"
  using maintenance_topology_bytes_eq_iff [of xs ys] assms
  by (simp add: topology_norm_def voter_set_def case_prod_beta')

theorem topology_digest_faithful_witness:
  "maintenance_topology_bytes [(Data 1, [3, 2, 1]), (Meta, [1, 2])]
     = maintenance_topology_bytes [(Meta, [2, 1, 2]), (Data 1, [1, 2, 3])]
   \<and> maintenance_topology_bytes [(Data 1, [1, 2])] \<noteq> maintenance_topology_bytes [(Data 1, [1, 3])]"
proof -
  have "maintenance_topology_bytes [(Data 1, [3, 2, 1]), (Meta, [1, 2])]
     = maintenance_topology_bytes [(Meta, [2, 1, 2]), (Data 1, [1, 2, 3])]"
    by (subst topology_digest_faithful) (auto simp: card_insert_if)
  moreover have "{1, 2} \<noteq> {1, 3 :: node_id}" by (simp add: doubleton_eq_iff)
  then have "maintenance_topology_bytes [(Data 1, [1, 2])] \<noteq> maintenance_topology_bytes [(Data 1, [1, 3])]"
    by (subst topology_digest_faithful) simp_all
  ultimately show ?thesis ..
qed

text \<open>C38: Every key is routed to a partition below the partition count, namely its 64-bit hash
  modulo that count; no bit of the hash is lost to the narrowing casts.\<close>

theorem partition_in_range:
  assumes "p \<noteq> 0"
  shows "unat (partition_of xxh64 spec key p) = unat (xxh64 key (hs_seed spec)) mod unat p
    \<and> partition_of xxh64 spec key p < p"
proof -
  have "0 < unat p" using assms by (simp add: unat_gt_0)
  then show ?thesis
    by (simp add: word_less_nat_alt unat_partition_of [OF assms])
qed

theorem partition_in_range_witness:
  "partition_of (\<lambda>key seed. seed + of_nat (length key) * 2 ^ 40) CANONICAL [7] 5 < 5"
  using partition_in_range [of 5 "\<lambda>key seed. seed + of_nat (length key) * 2 ^ 40" CANONICAL "[7]"] by simp


text \<open>C40: The corpus statistics a query is scored with do not depend on the order in which the
  shards answered.\<close>

theorem statistics_ignore_reply_order:
  assumes "statistics_wf s" "mset xs = mset ys"
  shows "fold (\<lambda>t s. merge s t) xs s = fold (\<lambda>t s. merge s t) ys s"
  using assms by (rule merge_permute)

theorem statistics_ignore_reply_order_witness:
  "let s = (\<lambda>n k. \<lparr>ss_total_docs = n, ss_field_tokens = [(k, n)], ss_term_doc_freq = []\<rparr>) in
   fold (\<lambda>t s. merge s t) [s (2 ^ 63) ''a'', s (2 ^ 63) ''b''] (s 1 ''b'')
     = fold (\<lambda>t s. merge s t) [s (2 ^ 63) ''b'', s (2 ^ 63) ''a''] (s 1 ''b'')"
  unfolding Let_def
  by (rule statistics_ignore_reply_order) (simp_all add: statistics_wf_def strictly_sorted_def)

text \<open>C33: Whatever boundary fails, the batch of a committed entry or chunk is written as a whole or
  not at all: either the answer is an error and no record changed, or the state column family
  holds every mutation and the applied record, the log column family holds the committed pointer,
  and beyond them only search records of the node-local column family moved.\<close>

theorem batch_all_or_nothing:
  assumes "group_open C st g name cf lcf" "codec_ok (c_u64 C)"
    and "apply_raft C fault g ms lid ar cr n st = (st', r)"
  shows "r \<noteq> Ok () \<and> same_records st st' \<or>
    db_cfs st' name = Some (cf_put raft_applied_key ar (fold (mutate cf_put cf_delete) ms cf))
    \<and> db_cfs st' (cf_log g) = Some (cf_put KEY_COMMITTED cr lcf)
    \<and> search_only (db_default st) (db_default st')
    \<and> (\<forall>x. x \<noteq> name \<and> x \<noteq> cf_log g \<longrightarrow> db_cfs st' x = db_cfs st x)"
  using apply_raft_cases [OF assms] by (auto simp: group_open_def state_cf_Ok)

theorem batch_all_or_nothing_witness:
  "\<exists>st' r. apply_raft ref_apply_env (\<lambda>b. if b = ''apply_state::after_write'' then Some (Search ''injected'') else None) (Data 3) [MutPut [1] [2]]
      (RaftLogId 1 1 4096) [3] [4] 1 (w_storage demo_world) = (st', r)
    \<and> (r \<noteq> Ok () \<and> same_records (w_storage demo_world) st' \<or> db_cfs st' (cf_log (Data 3)) = Some (cf_put KEY_COMMITTED [4] []))"
proof -
  let ?run = "apply_raft ref_apply_env (\<lambda>b. if b = ''apply_state::after_write'' then Some (Search ''injected'') else None) (Data 3) [MutPut [1] [2]]
    (RaftLogId 1 1 4096) [3] [4] 1 (w_storage demo_world)"
  have "group_open ref_apply_env (w_storage demo_world) (Data 3) (cf_state (Data 3)) [] []"
    using demo_config_ok by (simp add: config_ok_def group_ready_def)
  moreover have "codec_ok (c_u64 ref_apply_env)"
    using ref_apply_env_ok by (simp add: apply_codecs_ok_def data_codecs_ok_def search_codecs_ok_def)
  moreover have "?run = (fst ?run, snd ?run)" by simp
  ultimately show ?thesis
    using batch_all_or_nothing by blast
qed

end
