(* ===== verification/Spec2Isabelle.thy ===== *)
theory Spec2Isabelle
  imports Prelude Bytes Sorted_Vec Types Keyspace Storage Ref_Codec Search_Def Outbox Batch
    Data_SM Log_Machine Oracles Apply Data_Runs Config Meta_SM Meta_Refine Meta_Steps Meta_Apply
    Meta_Inv Meta_Catalog Meta_Runs Balancer Meta_Guards Bootstrap Genesis Formats
begin

text \<open>
  A verification library for the dal-service crate: a replicated key/value store whose keys are
  hashed onto \<open>P\<close> data groups, each a Raft group of \<open>R\<close> voters, with one more Raft group, the
  meta group, that keeps the cluster record, the node directory, the placements, the search
  catalog and cluster-wide maintenance.  Sources are named relative to \<open>src/src\<close>.

  \<^bold>\<open>The program and its interactions.\<close>  Raft (the openraft crate) hands committed entries to the
  appliers.  The applier of a data group (\<open>partition/sm.rs\<close>) lets the data state machine
  (\<open>partition/state_machine.rs\<close>) decide each entry against its records and writes mutations,
  applied record, committed pointer and search outbox rows in one RocksDB batch
  (\<open>storage/batch.rs\<close>); the search section of \<open>storage/rocks.rs\<close> prunes the outbox.  The applier
  of the meta group (\<open>meta/sm.rs\<close>) does the same for the meta state machine
  (\<open>meta/state_machine.rs\<close>).  The balancer (\<open>placement.rs\<close>) reads the meta group's records and
  proposes move plans to it; bootstrap (\<open>meta/bootstrap.rs\<close>) seeds it from the init file
  (\<open>runtime/config_file.rs\<close>).

  \<^bold>\<open>Conventions.\<close>  A Rust \<open>Result\<close> is a sum with the error on the left; functions with effects
  take a state and return it next to their result, and \<open>sbind\<close> is the question mark operator.
  Integers keep their width as words wherever arithmetic matters.  Strings are lists of bytes
  written as characters.  A column family is a list of key/value pairs in key order.  Code of
  other crates is a parameter: the bincode codec of each record (law \<open>codec_ok\<close>: decoding what
  was encoded), SHA-256, xxh64 and the command digest (no law), the drain order of a hash map
  (law: a permutation), socket-address parsing, and Raft itself, which supplies logs and, to
  bootstrap, a proposal function (law \<open>commits\<close>: a proposal commits its command, does nothing, or
  fails with either outcome).  \<open>Ref_Codec\<close> and the demo environments instantiate these
  parameters with concrete functions, so the witnesses run the model.

  \<^bold>\<open>Theories and what they model.\<close>
  \<^item> \<open>Prelude\<close>, \<open>Bytes\<close>, \<open>Sorted_Vec\<close>: words with checked and saturating arithmetic, the crate's
    errors (\<open>error.rs\<close>), byte and text formatting, binary search and sorted vectors (locale
    \<open>sorted_vec\<close>, interpreted on the two vectors of the maintenance record).
  \<^item> \<open>Types\<close> (\<open>types.rs\<close>), \<open>Keyspace\<close> (\<open>keyspace.rs\<close>), \<open>Config\<close> (\<open>config.rs\<close>).
  \<^item> \<open>Storage\<close> (\<open>codec.rs\<close> and the typed accessors of \<open>storage/rocks.rs\<close>; locale \<open>kv_store\<close>,
    interpreted on column families), \<open>Search_Def\<close> (\<open>search/definition.rs\<close>), \<open>Outbox\<close>
    (\<open>search/outbox.rs\<close> and the consumer section of \<open>storage/rocks.rs\<close>), \<open>Batch\<close>
    (\<open>storage/batch.rs\<close>).
  \<^item> \<open>Data_SM\<close>, \<open>Apply\<close>: the data state machine and both of its apply modes.  \<open>Oracles\<close>
    (\<open>verify/oracles.rs\<close>): the harness's own checks, so that the model's runs can be judged by them.
  \<^item> \<open>Meta_SM\<close>, \<open>Meta_Apply\<close>: every command of the meta group and its applier.
  \<^item> \<open>Balancer\<close> (\<open>placement.rs\<close>), \<open>Bootstrap\<close> and \<open>Genesis\<close> (\<open>meta/bootstrap.rs\<close> and the init
    file).
  \<^item> \<open>Log_Machine\<close>: runs of a deterministic machine over a log and the locales \<open>log_machine\<close> and
    \<open>indexed_log\<close> that carry an invariant along one.

  \<^bold>\<open>Specifications.\<close>  These definitions say what the code is shown to do; they do not translate it.
  \<open>spec_entry\<close> is the data state machine on typed records, refined by both apply modes
  (\<open>Apply\<close>); \<open>meta_view\<close> and \<open>meta_step\<close> run the handlers on typed records, refined by the
  applier over encoded column families (\<open>Meta_Refine\<close>, \<open>Meta_Apply\<close>); \<open>meta_change\<close> is the
  relation of the transitions that change the meta group's state, one rule per effect with the
  guards of its handler, and \<open>meta_evaluate_cases\<close> shows that every answer of the machine is one
  of them or writes nothing (\<open>Meta_Steps\<close>); \<open>applied_of\<close> is what one replica's observer reports.

  \<^bold>\<open>What the lemmas show.\<close>
  \<^item> Data groups (\<open>Data_Runs\<close>): both apply modes agree; commands are applied exactly once and in
    sequence; versions are log indices; reads return the last applied write; a failed apply sets
    the fail-stop latch, and a latched database applies nothing.
  \<^item> Search outbox (\<open>Outbox\<close>): pruning deletes exactly what no consumer needs.
  \<^item> Meta group (\<open>Meta_Inv\<close>, \<open>Meta_Catalog\<close>, \<open>Meta_Runs\<close>, \<open>Meta_Guards\<close>): the applier refines the
    typed machine, atomically under failures; directory, placements, maintenance and catalog stay
    sound over every log; history is never undone; voter changes, plans, activations, readiness
    reports, recoveries and releases happen only on the evidence the code asks for.
  \<^item> Balancer: its proposals are accepted, make progress, and end in a balanced placement.
  \<^item> Bootstrap and genesis: descriptors do not depend on the order of the file, markers are
    immutable, and genesis can be interrupted anywhere, resumed and repeated.
  \<^item> \<open>Formats\<close>: keys never collide, rows and digests are faithful, sizes stay within their bounds,
    and a batch is written as a whole or not at all.

  \<^bold>\<open>Bounds and fuel.\<close>  Every loop of the model is structural recursion over the list it walks, or
  over a bound of the code: \<open>propose_to_leader\<close> runs 200 rounds, as the code does, and running
  out of them is the error the code returns.  The recursion of \<open>binary_search_by_key\<close> has its
  termination proof.  Nothing else uses fuel.

  \<^bold>\<open>Failures.\<close>  A parameter \<open>fault\<close> injects an error at every boundary where the code can fail
  to write: the failpoints, the RocksDB write, the admission of a batch to the durability worker,
  and the prune.  Two things are coarser than the code.  Reads answer from the model's records or
  report corruption; they have no I/O errors of their own.  A failed asynchronous flush, which in
  the code latches the database some time after the write, is not an event of its own; the
  theorems on the latch hold for a latch set at any point between applies.

  \<^bold>\<open>Not modelled.\<close>  Snapshots and backups (\<open>snapshot.rs\<close>, \<open>backup\<close>, the snapshot sections of the
  appliers and of \<open>storage/rocks.rs\<close>), since they stream RocksDB files; the durability workers
  (\<open>storage/durability.rs\<close>, \<open>storage/apply_durability.rs\<close>), which are threads and timers around
  fsync; the Raft log store and nodes (\<open>partition/log_store.rs\<close>, \<open>partition/node.rs\<close>,
  \<open>meta/node.rs\<close>), failure detection and reconciliation, which drive openraft and clocks;
  transport, runtime, HTTP, client and gateway, which are asynchronous network code; the search
  engine, whose indexing and scoring are another crate's; the harness's linearizability checker,
  the benchmarks and the command line.
\<close>

end
